(* ===== verification/GP_Prelude.thy ===== *)
theory GP_Prelude
  imports Main "HOL-Library.Word"
begin

text \<open>
  What every theory of the development shares: the machine types of
  \<^verbatim>\<open>ef_btype.h\<close> (a byte is an 8-bit word, an \<^verbatim>\<open>int32\<close> result code an \<open>int\<close>),
  character constants as bytes, the two list searches of \<^verbatim>\<open>std::string\<close> that the code uses
  (\<^verbatim>\<open>find\<close> and \<^verbatim>\<open>find_first_not_of\<close>), and generic facts on lists, bytes and words.
\<close>

type_synonym byte = "8 word"
type_synonym bytes = "byte list"
type_synonym u32 = "32 word"

named_theorems byte_simps \<open>characteristic equations of byte-level operations\<close>
named_theorems inv_intros \<open>operations that keep a component's invariant\<close>

abbreviation (input) ch :: "char \<Rightarrow> byte" where
  "ch c \<equiv> of_char c"

definition bytes_of :: "string \<Rightarrow> bytes" where
  "bytes_of s = map of_char s"

lemma bytes_of_simps [simp]:
  "bytes_of [] = []"
  "bytes_of (c # s) = of_char c # bytes_of s"
  by (simp_all add: bytes_of_def)

lemma length_bytes_of [simp]: "length (bytes_of s) = length s"
  by (simp add: bytes_of_def)

subsection \<open>Bytes\<close>

lemma uint_byte_range [simp]: "0 \<le> uint (b::byte)" "uint (b::byte) < 256"
  using uint_lt2p [of b] by simp_all

lemma byte_eq_iff: "(a::byte) = b \<longleftrightarrow> uint a = uint b"
  by (simp add: word_uint_eq_iff)

lemma uint_word_of_int_byte: "0 \<le> i \<Longrightarrow> i < 256 \<Longrightarrow> uint (word_of_int i :: byte) = i"
  by (simp add: uint_word_of_int)

lemma word_of_int_uint_byte: "i = uint b \<Longrightarrow> word_of_int i = (b::byte)"
  by simp

subsection \<open>Lists\<close>

lemma take_Suc_nth: "i < length xs \<Longrightarrow> take (Suc i) xs = take i xs @ [xs ! i]"
  by (rule take_Suc_conv_app_nth)

lemma concat_map_const_Nil: "(\<And>x. x \<in> set xs \<Longrightarrow> f x = []) \<Longrightarrow> concat (map f xs) = []"
  by (induction xs) auto

lemma sum_list_length_concat: "length (concat (map f xs)) = sum_list (map (\<lambda>x. length (f x)) xs)"
  by (simp add: length_concat comp_def)

text \<open>
  \<^verbatim>\<open>std::string::find(sep)\<close>: the index of the first occurrence of \<open>sep\<close> in \<open>s\<close>, \<open>None\<close> for
  \<^verbatim>\<open>npos\<close>; and \<^verbatim>\<open>find_first_not_of(set)\<close>: the index of the first character not in \<open>set\<close>.
\<close>

fun str_find :: "'a list \<Rightarrow> 'a list \<Rightarrow> nat option" where
  "str_find s sep =
     (if take (length sep) s = sep then Some 0
      else (case s of [] \<Rightarrow> None | _ # s' \<Rightarrow> map_option Suc (str_find s' sep)))"

declare str_find.simps [simp del]

fun find_first_not_of :: "'a list \<Rightarrow> 'a list \<Rightarrow> nat option" where
  "find_first_not_of [] cs = None"
| "find_first_not_of (x # xs) cs =
     (if x \<in> set cs then map_option Suc (find_first_not_of xs cs) else Some 0)"

lemma find_first_not_of_lt: "find_first_not_of s cs = Some i \<Longrightarrow> i < length s"
  by (induction s arbitrary: i) (auto split: if_splits)

lemma str_find_single_Nil [simp]: "str_find [] [c] = None"
  by (subst str_find.simps) simp

lemma str_find_single_Cons [simp]:
  "str_find (x # xs) [c] = (if x = c then Some 0 else map_option Suc (str_find xs [c]))"
  by (subst str_find.simps) (auto simp: take_Cons')

lemma str_find_single_None: "str_find s [c] = None \<longleftrightarrow> c \<notin> set s"
  by (induction s) auto

lemma str_find_single_append: "c \<notin> set xs \<Longrightarrow> str_find (xs @ c # ys) [c] = Some (length xs)"
  by (induction xs) auto

lemma str_find_le: "str_find s sep = Some i \<Longrightarrow> i \<le> length s"
proof (induction s arbitrary: i)
  case Nil
  then show ?case by (subst (asm) str_find.simps) (auto split: if_splits)
next
  case (Cons x s)
  from Cons.prems show ?case
    by (subst (asm) str_find.simps) (auto split: if_splits dest: Cons.IH)
qed

subsection \<open>C++ arithmetic\<close>

text \<open>Division of \<^verbatim>\<open>int\<close> truncates towards zero, and \<^verbatim>\<open>%\<close> goes with it.\<close>

definition c_div :: "int \<Rightarrow> int \<Rightarrow> int" where
  "c_div a b = sgn a * sgn b * (\<bar>a\<bar> div \<bar>b\<bar>)"

definition c_mod :: "int \<Rightarrow> int \<Rightarrow> int" where
  "c_mod a b = a - b * c_div a b"

lemma c_div_nonneg [simp]: "0 \<le> a \<Longrightarrow> 0 < b \<Longrightarrow> c_div a b = a div b"
  by (cases "a = 0") (simp_all add: c_div_def)

lemma c_mod_nonneg [simp]: "0 \<le> a \<Longrightarrow> 0 < b \<Longrightarrow> c_mod a b = a mod b"
  by (simp add: c_mod_def minus_mult_div_eq_mod)

lemma c_div_neg: "a < 0 \<Longrightarrow> 0 < b \<Longrightarrow> c_div a b = - ((- a) div b)"
  by (simp add: c_div_def)

lemma c_div_mod: "c_div a b * b + c_mod a b = a"
  by (simp add: c_div_def c_mod_def)

lemma c_mod_range: "0 \<le> a \<Longrightarrow> 0 < b \<Longrightarrow> 0 \<le> c_mod a b \<and> c_mod a b < b"
  by (simp add: c_mod_nonneg)

text \<open>The wrap-around of a 32-bit \<^verbatim>\<open>int\<close> result.\<close>

definition i32 :: "int \<Rightarrow> int" where
  "i32 i = sint (word_of_int i :: u32)"

lemma i32_id: "- (2 ^ 31) \<le> i \<Longrightarrow> i < 2 ^ 31 \<Longrightarrow> i32 i = i"
  unfolding i32_def by (simp add: signed_of_int signed_take_bit_int_eq_self)

lemma i32_range: "- (2 ^ 31) \<le> i32 i \<and> i32 i < 2 ^ 31"
  unfolding i32_def using sint_ge [of "word_of_int i :: u32"] sint_lt [of "word_of_int i :: u32"] by simp

subsection \<open>Outcomes\<close>

text \<open>
  What a piece of C++ can do: return, run into undefined behaviour (an access through a pointer
  computed from NULL, say), or not return within the fuel a definition was given.
\<close>

datatype 'a outcome = Done 'a | Fault | NoFuel

fun bind_outcome :: "'a outcome \<Rightarrow> ('a \<Rightarrow> 'b outcome) \<Rightarrow> 'b outcome" where
  "bind_outcome (Done x) f = f x"
| "bind_outcome Fault f = Fault"
| "bind_outcome NoFuel f = NoFuel"

lemma bind_outcome_Done_iff:
  "bind_outcome m f = Done y \<longleftrightarrow> (\<exists>x. m = Done x \<and> f x = Done y)"
  by (cases m) auto

end
