(* ===== verification/Hex.thy ===== *)
theory Hex
  imports GP_Prelude
begin

text \<open>
  \<^verbatim>\<open>efnfw/base/ef_hex.cpp\<close>: bytes to lower-case hexadecimal digits and back. The decoder
  takes both cases of a letter and reads every other character as the digit 0. The C++
  \<^verbatim>\<open>int\<close> results of the digit functions are \<open>int\<close>; a store into a \<^verbatim>\<open>char\<close> is \<open>word_of_int\<close>.
\<close>

definition hex_char :: "int \<Rightarrow> byte" where
  "hex_char i =
     (if 0 \<le> i \<and> i \<le> 9 then word_of_int (48 + i)
      else if 10 \<le> i \<and> i \<le> 15 then word_of_int (97 + i - 10)
      else 0)"

definition byteToHex :: "byte \<Rightarrow> bytes" where
  "byteToHex c = [hex_char (uint c div 16), hex_char (uint c mod 16)]"

definition char_to_i :: "byte \<Rightarrow> int" where
  "char_to_i c =
     (if c \<in> set (bytes_of ''0123456789'') then uint c - 48
      else if c \<in> set (bytes_of ''Aa'') then 10
      else if c \<in> set (bytes_of ''Bb'') then 11
      else if c \<in> set (bytes_of ''Cc'') then 12
      else if c \<in> set (bytes_of ''Dd'') then 13
      else if c \<in> set (bytes_of ''Ee'') then 14
      else if c \<in> set (bytes_of ''Ff'') then 15
      else 0)"

definition hexToByte :: "byte \<Rightarrow> byte \<Rightarrow> int" where
  "hexToByte a b = push_bit 4 (char_to_i a) + char_to_i b"

text \<open>
  The loop \<^verbatim>\<open>for(; i < len && i < outlen / 2; i++)\<close> over the input pointer: the list is
  what the pointer still has before it, the result what the loop stores into \<^verbatim>\<open>out\<close>.
\<close>

fun bytesToHexs_loop :: "bytes \<Rightarrow> nat \<Rightarrow> nat \<Rightarrow> nat \<Rightarrow> bytes" where
  "bytesToHexs_loop (c # cs) i len outlen =
     (if i < len \<and> i < outlen div 2
      then byteToHex c @ bytesToHexs_loop cs (Suc i) len outlen else [])"
| "bytesToHexs_loop [] i len outlen = []"

definition bytesToHexs :: "bytes \<Rightarrow> nat \<Rightarrow> nat \<Rightarrow> bytes" where
  "bytesToHexs cs len outlen = bytesToHexs_loop cs 0 len outlen"

text \<open>The \<^verbatim>\<open>std::string\<close> overload sizes the output to twice the input first.\<close>

definition bytesToHexs_string :: "bytes \<Rightarrow> bytes" where
  "bytesToHexs_string cs = bytesToHexs cs (length cs) (length cs * 2)"

fun hexToBytes_loop :: "bytes \<Rightarrow> nat \<Rightarrow> nat \<Rightarrow> bytes" where
  "hexToBytes_loop (a # b # hs) i len =
     (if i < len div 2 then word_of_int (hexToByte a b) # hexToBytes_loop hs (Suc i) len else [])"
| "hexToBytes_loop _ i len = []"

definition hexToBytes :: "bytes \<Rightarrow> nat \<Rightarrow> bytes" where
  "hexToBytes hs len = hexToBytes_loop hs 0 len"

definition hexToBytes_string :: "bytes \<Rightarrow> bytes" where
  "hexToBytes_string hs = hexToBytes hs (length hs)"

subsection \<open>Digits\<close>

lemma char_to_i_hex_char_all: "\<forall>i \<in> set [0..15]. char_to_i (hex_char i) = i"
  by code_simp

lemma char_to_i_hex_char: "0 \<le> i \<Longrightarrow> i \<le> 15 \<Longrightarrow> char_to_i (hex_char i) = i"
  using char_to_i_hex_char_all by simp

lemma hexToByte_byteToHex:
  "word_of_int (hexToByte (hex_char (uint c div 16)) (hex_char (uint c mod 16))) = (c::byte)"
proof -
  have "0 \<le> uint c div 16" "uint c div 16 \<le> 15"
    using uint_byte_range [of c] by linarith+
  then show ?thesis
    by (simp add: hexToByte_def char_to_i_hex_char push_bit_eq_mult)
qed

lemma length_byteToHex [simp]: "length (byteToHex c) = 2"
  by (simp add: byteToHex_def)

subsection \<open>Whole strings\<close>

lemma bytesToHexs_loop_eq:
  "bytesToHexs_loop cs i (i + length cs) (2 * (i + length cs)) = concat (map byteToHex cs)"
proof (induction cs arbitrary: i)
  case (Cons c cs)
  from Cons.IH [of "Suc i"] show ?case by simp
qed simp

lemma bytesToHexs_string_eq [byte_simps]:
  "bytesToHexs_string cs = concat (map byteToHex cs)"
  using bytesToHexs_loop_eq [of cs 0]
  by (simp add: bytesToHexs_string_def bytesToHexs_def mult.commute)

lemma length_bytesToHexs_string [simp]: "length (bytesToHexs_string cs) = 2 * length cs"
  by (induction cs) (simp_all add: bytesToHexs_string_eq)

lemma hexToBytes_loop_roundtrip:
  "hexToBytes_loop (concat (map byteToHex cs)) i (2 * (i + length cs)) = cs"
proof (induction cs arbitrary: i)
  case (Cons c cs)
  from Cons.IH [of "Suc i"] show ?case
    by (simp add: byteToHex_def hexToByte_byteToHex)
qed simp

text \<open>A buffer that is too small for the digits truncates to whole bytes.\<close>

lemma bytesToHexs_loop_take:
  "i \<le> n \<Longrightarrow> n = min len (outlen div 2) \<Longrightarrow>
    bytesToHexs_loop cs i len outlen = concat (map byteToHex (take (n - i) cs))"
proof (induction cs arbitrary: i)
  case (Cons c cs)
  show ?case
  proof (cases "i < n")
    case True
    then have "n - i = Suc (n - Suc i)" by simp
    with Cons True show ?thesis by simp
  next
    case False
    with Cons.prems show ?thesis by auto
  qed
qed simp

text \<open>Hexadecimal encoding and decoding are inverse on every byte string.\<close>

theorem hex_roundtrip: "hexToBytes_string (bytesToHexs_string bs) = bs"
  using hexToBytes_loop_roundtrip [of bs 0]
  by (simp add: hexToBytes_string_def hexToBytes_def) (simp add: bytesToHexs_string_eq)

end
