(* ===== verification/Base64.thy ===== *)
theory Base64
  imports GP_Prelude
begin

unbundle bit_operations_syntax

text \<open>
  \<^verbatim>\<open>efnfw/base/ef_base64.cpp\<close>. The encoder walks the input three bytes at a time and pads the
  last group; the decoder walks four characters at a time through a table of 256 entries
  whose value -1 marks a character outside the alphabet. C++ \<^verbatim>\<open>int\<close> values are \<open>int\<close> and a store
  through the \<^verbatim>\<open>unsigned char\<close> pointer is \<open>word_of_int\<close>. Lengths are taken to fit an \<^verbatim>\<open>int\<close>.
\<close>

definition ch64 :: bytes where
  "ch64 = bytes_of ''ABCDEFGHIJKLMNOPQRSTUVWXYZabcdefghijklmnopqrstuvwxyz0123456789+/''"

abbreviation enc_char :: "int \<Rightarrow> byte" where
  "enc_char i \<equiv> ch64 ! nat i"

text \<open>The loop over whole groups, then the \<^verbatim>\<open>n % 3\<close> tail: two characters and two pads, or three and one.\<close>

fun base64Encode :: "bytes \<Rightarrow> bytes" where
  "base64Encode (b0 # b1 # b2 # s) =
     enc_char (drop_bit 2 (uint b0 AND 0xFC)) #
     enc_char (push_bit 4 (uint b0 AND 0x03) + drop_bit 4 (uint b1 AND 0xF0)) #
     enc_char (push_bit 2 (uint b1 AND 0x0F) + drop_bit 6 (uint b2 AND 0xC0)) #
     enc_char (uint b2 AND 0x3F) #
     base64Encode s"
| "base64Encode [b0, b1] =
     [enc_char (drop_bit 2 (uint b0)),
      enc_char (push_bit 4 (uint b0 AND 0x03) + drop_bit 4 (uint b1)),
      enc_char (push_bit 2 (uint b1 AND 0x0F)),
      ch CHR ''='']"
| "base64Encode [b0] =
     [enc_char (drop_bit 2 (uint b0)),
      enc_char (push_bit 4 (uint b0 AND 0x03)),
      ch CHR ''='', ch CHR ''='']"
| "base64Encode [] = []"

definition b64_reverse_table :: "int list" where
  "b64_reverse_table =
    [-1, -1, -1, -1, -1, -1, -1, -1, -1, -1, -1, -1, -1, -1, -1, -1,
     -1, -1, -1, -1, -1, -1, -1, -1, -1, -1, -1, -1, -1, -1, -1, -1,
     -1, -1, -1, -1, -1, -1, -1, -1, -1, -1, -1, 62, -1, -1, -1, 63,
     52, 53, 54, 55, 56, 57, 58, 59, 60, 61, -1, -1, -1, -1, -1, -1,
     -1,  0,  1,  2,  3,  4,  5,  6,  7,  8,  9, 10, 11, 12, 13, 14,
     15, 16, 17, 18, 19, 20, 21, 22, 23, 24, 25, -1, -1, -1, -1, -1,
     -1, 26, 27, 28, 29, 30, 31, 32, 33, 34, 35, 36, 37, 38, 39, 40,
     41, 42, 43, 44, 45, 46, 47, 48, 49, 50, 51, -1, -1, -1, -1, -1,
     -1, -1, -1, -1, -1, -1, -1, -1, -1, -1, -1, -1, -1, -1, -1, -1,
     -1, -1, -1, -1, -1, -1, -1, -1, -1, -1, -1, -1, -1, -1, -1, -1,
     -1, -1, -1, -1, -1, -1, -1, -1, -1, -1, -1, -1, -1, -1, -1, -1,
     -1, -1, -1, -1, -1, -1, -1, -1, -1, -1, -1, -1, -1, -1, -1, -1,
     -1, -1, -1, -1, -1, -1, -1, -1, -1, -1, -1, -1, -1, -1, -1, -1,
     -1, -1, -1, -1, -1, -1, -1, -1, -1, -1, -1, -1, -1, -1, -1, -1,
     -1, -1, -1, -1, -1, -1, -1, -1, -1, -1, -1, -1, -1, -1, -1, -1,
     -1, -1, -1, -1, -1, -1, -1, -1, -1, -1, -1, -1, -1, -1, -1, -1]"

abbreviation rev64 :: "byte \<Rightarrow> int" where
  "rev64 p \<equiv> b64_reverse_table ! unat p"

text \<open>
  The decoding loop \<^verbatim>\<open>for(i = 0, j = 0; i <= l - 4; ...)\<close>: the rest of the input, the bytes
  \<^verbatim>\<open>dst[0..j)\<close> stored so far, and \<^verbatim>\<open>pandcnt\<close>, which keeps its value from one group to the
  next. A negative table entry ends the loop and returns the groups before it; the end of
  the input drops \<^verbatim>\<open>pandcnt\<close> bytes.
\<close>

fun base64Decode_loop :: "bytes \<Rightarrow> bytes \<Rightarrow> nat \<Rightarrow> bytes" where
  "base64Decode_loop (p0 # p1 # p2 # p3 # s) dst pandcnt =
     (let a = rev64 p0;
          b = rev64 p1;
          (c, pandcnt) = (if p2 \<noteq> ch CHR ''='' then (rev64 p2, pandcnt) else (0, 2));
          (d, pandcnt) = (if pandcnt = 0
                          then (if p3 \<noteq> ch CHR ''='' then (rev64 p3, pandcnt) else (0, 1))
                          else (0, pandcnt))
      in if a < 0 \<or> b < 0 \<or> c < 0 \<or> d < 0 then dst
         else base64Decode_loop s
           (dst @ [word_of_int (push_bit 2 a + drop_bit 4 (b AND 0x30)),
                   word_of_int (push_bit 4 (b AND 0x0F) + drop_bit 2 (c AND 0x3C)),
                   word_of_int (push_bit 6 (c AND 0x03) + d)])
           pandcnt)"
| "base64Decode_loop _ dst pandcnt = take (length dst - pandcnt) dst"

definition base64Decode :: "bytes \<Rightarrow> bytes" where
  "base64Decode s = base64Decode_loop s [] 0"

subsection \<open>The alphabet and its inverse table\<close>

lemma ch64_eq:
  "ch64 = [65, 66, 67, 68, 69, 70, 71, 72, 73, 74, 75, 76, 77, 78, 79, 80, 81, 82, 83, 84, 85,
    86, 87, 88, 89, 90, 97, 98, 99, 100, 101, 102, 103, 104, 105, 106, 107, 108, 109, 110, 111,
    112, 113, 114, 115, 116, 117, 118, 119, 120, 121, 122, 48, 49, 50, 51, 52, 53, 54, 55, 56,
    57, 43, 47]"
  by (simp add: ch64_def)

lemma length_ch64 [simp]: "length ch64 = 64"
  by (simp add: ch64_def)

lemma rev64_ch64: "map rev64 ch64 = map int [0..<64]"
proof -
  have "map rev64 ch64 =
    [0, 1, 2, 3, 4, 5, 6, 7, 8, 9, 10, 11, 12, 13, 14, 15, 16, 17, 18, 19, 20, 21, 22, 23, 24,
     25, 26, 27, 28, 29, 30, 31, 32, 33, 34, 35, 36, 37, 38, 39, 40, 41, 42, 43, 44, 45, 46, 47,
     48, 49, 50, 51, 52, 53, 54, 55, 56, 57, 58, 59, 60, 61, 62, 63]"
    unfolding ch64_eq by (simp add: b64_reverse_table_def)
  also have "\<dots> = map int [0..<64]"
    by code_simp
  finally show ?thesis .
qed

lemma pad_notin_ch64: "61 \<notin> set ch64"
  by (simp add: ch64_eq)

lemma amp_notin_ch64: "38 \<notin> set ch64"
  by (simp add: ch64_eq)

lemma rev64_enc [simp]:
  assumes "0 \<le> i" "i \<le> 63"
  shows "rev64 (enc_char i) = i"
proof -
  have "map rev64 ch64 ! nat i = map int [0..<64] ! nat i"
    by (simp only: rev64_ch64)
  with assms show ?thesis by simp
qed

lemma enc_in_ch64: "0 \<le> i \<Longrightarrow> i \<le> 63 \<Longrightarrow> enc_char i \<in> set ch64"
  by (rule nth_mem) simp

lemma enc_no_pad [simp]: "0 \<le> i \<Longrightarrow> i \<le> 63 \<Longrightarrow> enc_char i \<noteq> 61"
  by (metis enc_in_ch64 pad_notin_ch64)

subsection \<open>The bit slices as arithmetic\<close>

lemma and_mask_3: "(x::int) AND 0x03 = x mod 4"
  using take_bit_eq_mask [of 2 x] by (simp add: take_bit_eq_mod mask_eq_exp_minus_1)

lemma and_mask_F: "(x::int) AND 0x0F = x mod 16"
  using take_bit_eq_mask [of 4 x] by (simp add: take_bit_eq_mod mask_eq_exp_minus_1)

lemma and_mask_3F: "(x::int) AND 0x3F = x mod 64"
  using take_bit_eq_mask [of 6 x] by (simp add: take_bit_eq_mod mask_eq_exp_minus_1)

lemma hi_FC: "drop_bit 2 ((x::int) AND 0xFC) = x div 4 mod 64"
  unfolding drop_bit_and by (simp add: drop_bit_eq_div and_mask_3F)

lemma hi_F0: "drop_bit 4 ((x::int) AND 0xF0) = x div 16 mod 16"
  unfolding drop_bit_and by (simp add: drop_bit_eq_div and_mask_F)

lemma hi_C0: "drop_bit 6 ((x::int) AND 0xC0) = x div 64 mod 4"
  unfolding drop_bit_and by (simp add: drop_bit_eq_div and_mask_3)

lemma mid_30: "drop_bit 4 ((x::int) AND 0x30) = x div 16 mod 4"
  unfolding drop_bit_and by (simp add: drop_bit_eq_div and_mask_3)

lemma mid_3C: "drop_bit 2 ((x::int) AND 0x3C) = x div 4 mod 16"
  unfolding drop_bit_and by (simp add: drop_bit_eq_div and_mask_F)

lemmas mask_simps = hi_FC hi_F0 hi_C0 mid_30 mid_3C and_mask_3 and_mask_F and_mask_3F

lemma shift_simps:
  "push_bit 2 (x::int) = x * 4" "push_bit 4 (x::int) = x * 16" "push_bit 6 (x::int) = x * 64"
  "drop_bit 2 (x::int) = x div 4" "drop_bit 4 (x::int) = x div 16"
  by (simp_all add: push_bit_eq_mult drop_bit_eq_div)

text \<open>The four characters of a group, as the base-64 digits of its 24 bits.\<close>

lemma digit_ranges:
  "0 \<le> drop_bit 2 (uint (b0::byte) AND 0xFC)" "drop_bit 2 (uint (b0::byte) AND 0xFC) \<le> 63"
  "0 \<le> drop_bit 2 (uint (b0::byte))" "drop_bit 2 (uint (b0::byte)) \<le> 63"
  "0 \<le> push_bit 4 (uint (b0::byte) AND 0x03) + drop_bit 4 (uint (b1::byte) AND 0xF0)"
  "push_bit 4 (uint (b0::byte) AND 0x03) + drop_bit 4 (uint (b1::byte) AND 0xF0) \<le> 63"
  "0 \<le> push_bit 4 (uint (b0::byte) AND 0x03) + drop_bit 4 (uint (b1::byte))"
  "push_bit 4 (uint (b0::byte) AND 0x03) + drop_bit 4 (uint (b1::byte)) \<le> 63"
  "0 \<le> push_bit 4 (uint (b0::byte) AND 0x03)" "push_bit 4 (uint (b0::byte) AND 0x03) \<le> 63"
  "0 \<le> push_bit 2 (uint (b1::byte) AND 0x0F) + drop_bit 6 (uint (b2::byte) AND 0xC0)"
  "push_bit 2 (uint (b1::byte) AND 0x0F) + drop_bit 6 (uint (b2::byte) AND 0xC0) \<le> 63"
  "0 \<le> push_bit 2 (uint (b1::byte) AND 0x0F)" "push_bit 2 (uint (b1::byte) AND 0x0F) \<le> 63"
  "0 \<le> uint (b2::byte) AND 0x3F" "uint (b2::byte) AND 0x3F \<le> 63"
  unfolding mask_simps unfolding shift_simps
  using uint_byte_range [of b0] uint_byte_range [of b1] uint_byte_range [of b2] by linarith+

text \<open>Decoding the digits gives the bytes back.\<close>

lemma mix_digits:
  fixes m t :: int
  assumes "0 \<le> t" "t < n"
  shows "(m * n + t) div n = m" "(m * n + t) mod n = t"
  using assms by (simp_all add: div_pos_pos_trivial mod_pos_pos_trivial)

lemma first_byte:
  assumes "0 \<le> x" "x < 256"
  shows "x div 4 mod 64 * 4 + (x mod 4 * 16 + y div 16 mod 16) div 16 mod 4 = (x::int)"
proof -
  have "(x mod 4 * 16 + y div 16 mod 16) div 16 = x mod 4"
    by (rule mix_digits) simp_all
  moreover have "x div 4 mod 64 = x div 4"
    using assms by (intro mod_pos_pos_trivial) auto
  ultimately show ?thesis by simp
qed

lemma second_byte:
  assumes "0 \<le> y" "y < 256"
  shows "(x mod 4 * 16 + y div 16 mod 16) mod 16 * 16
    + (y mod 16 * 4 + z div 64 mod 4) div 4 mod 16 = (y::int)"
proof -
  have "(x mod 4 * 16 + y div 16 mod 16) mod 16 = y div 16 mod 16"
    by (rule mix_digits) simp_all
  moreover have "(y mod 16 * 4 + z div 64 mod 4) div 4 = y mod 16"
    by (rule mix_digits) simp_all
  moreover have "y div 16 mod 16 = y div 16"
    using assms by (intro mod_pos_pos_trivial) auto
  ultimately show ?thesis by (simp only: mod_mod_trivial div_mult_mod_eq)
qed

lemma third_byte:
  assumes "0 \<le> z" "z < 256"
  shows "(y mod 16 * 4 + z div 64 mod 4) mod 4 * 64 + z mod 64 = (z::int)"
proof -
  have "(y mod 16 * 4 + z div 64 mod 4) mod 4 = z div 64 mod 4"
    by (rule mix_digits) simp_all
  moreover have "z div 64 mod 4 = z div 64"
    using assms by (intro mod_pos_pos_trivial) auto
  ultimately show ?thesis by simp
qed

subsection \<open>Decoding what was encoded\<close>

text \<open>One turn of the decoder on alphabet characters, on a final group with one pad, and with two.\<close>

lemma decode_digits:
  assumes "0 \<le> a" "a \<le> 63" "0 \<le> b" "b \<le> 63" "0 \<le> c" "c \<le> 63" "0 \<le> d" "d \<le> 63"
  shows "base64Decode_loop (enc_char a # enc_char b # enc_char c # enc_char d # s) dst 0 =
    base64Decode_loop s
      (dst @ [word_of_int (push_bit 2 a + drop_bit 4 (b AND 0x30)),
              word_of_int (push_bit 4 (b AND 0x0F) + drop_bit 2 (c AND 0x3C)),
              word_of_int (push_bit 6 (c AND 0x03) + d)]) 0"
  using assms by simp

lemma decode_pad1:
  assumes "0 \<le> a" "a \<le> 63" "0 \<le> b" "b \<le> 63" "0 \<le> c" "c \<le> 63"
  shows "base64Decode_loop [enc_char a, enc_char b, enc_char c, ch CHR ''=''] dst 0 =
    dst @ [word_of_int (push_bit 2 a + drop_bit 4 (b AND 0x30)),
           word_of_int (push_bit 4 (b AND 0x0F) + drop_bit 2 (c AND 0x3C))]"
  using assms by simp

lemma decode_pad2:
  assumes "0 \<le> a" "a \<le> 63" "0 \<le> b" "b \<le> 63"
  shows "base64Decode_loop [enc_char a, enc_char b, ch CHR ''='', ch CHR ''=''] dst 0 =
    dst @ [word_of_int (push_bit 2 a + drop_bit 4 (b AND 0x30))]"
  using assms by simp

lemma group_bytes:
  fixes b0 b1 b2 :: byte
  shows "word_of_int (push_bit 2 (drop_bit 2 (uint b0 AND 0xFC))
      + drop_bit 4 ((push_bit 4 (uint b0 AND 0x03) + drop_bit 4 (uint b1 AND 0xF0)) AND 0x30)) = b0"
    "word_of_int (push_bit 4 ((push_bit 4 (uint b0 AND 0x03) + drop_bit 4 (uint b1 AND 0xF0)) AND 0x0F)
      + drop_bit 2 ((push_bit 2 (uint b1 AND 0x0F) + drop_bit 6 (uint b2 AND 0xC0)) AND 0x3C)) = b1"
    "word_of_int (push_bit 6 ((push_bit 2 (uint b1 AND 0x0F) + drop_bit 6 (uint b2 AND 0xC0)) AND 0x03)
      + (uint b2 AND 0x3F)) = b2"
  unfolding mask_simps unfolding shift_simps
  by (simp_all only: first_byte second_byte third_byte uint_byte_range word_of_int_uint)

lemma tail_bytes:
  fixes b0 b1 :: byte
  shows "word_of_int (push_bit 2 (drop_bit 2 (uint b0))
      + drop_bit 4 ((push_bit 4 (uint b0 AND 0x03) + drop_bit 4 (uint b1)) AND 0x30)) = b0"
    "word_of_int (push_bit 4 ((push_bit 4 (uint b0 AND 0x03) + drop_bit 4 (uint b1)) AND 0x0F)
      + drop_bit 2 (push_bit 2 (uint b1 AND 0x0F) AND 0x3C)) = b1"
    "word_of_int (push_bit 2 (drop_bit 2 (uint b0))
      + drop_bit 4 (push_bit 4 (uint b0 AND 0x03) AND 0x30)) = b0"
proof -
  have b0: "drop_bit 2 (uint b) = drop_bit 2 (uint b AND 0xFC)" for b :: byte
    unfolding hi_FC unfolding shift_simps using uint_byte_range [of b] by (intro mod_pos_pos_trivial [symmetric]; linarith)
  have b1: "drop_bit 4 (uint b) = drop_bit 4 (uint b AND 0xF0)" for b :: byte
    unfolding hi_F0 unfolding shift_simps using uint_byte_range [of b] by (intro mod_pos_pos_trivial [symmetric]; linarith)
  show "word_of_int (push_bit 2 (drop_bit 2 (uint b0))
      + drop_bit 4 ((push_bit 4 (uint b0 AND 0x03) + drop_bit 4 (uint b1)) AND 0x30)) = b0"
    unfolding b0 b1 by (rule group_bytes)
  show "word_of_int (push_bit 4 ((push_bit 4 (uint b0 AND 0x03) + drop_bit 4 (uint b1)) AND 0x0F)
      + drop_bit 2 (push_bit 2 (uint b1 AND 0x0F) AND 0x3C)) = b1"
    unfolding b1 using group_bytes(2) [of b0 b1 0] by simp
  show "word_of_int (push_bit 2 (drop_bit 2 (uint b0))
      + drop_bit 4 (push_bit 4 (uint b0 AND 0x03) AND 0x30)) = b0"
    unfolding b0 using group_bytes(1) [of b0 0] by simp
qed

subsection \<open>Decoding what was encoded\<close>

lemma decode_encode_loop: "base64Decode_loop (base64Encode s) dst 0 = dst @ s"
proof (induction s arbitrary: dst rule: base64Encode.induct)
  case (1 b0 b1 b2 s)
  show ?case
    unfolding base64Encode.simps
    by (subst decode_digits) (simp_all only: digit_ranges group_bytes "1.IH" append_assoc append_Cons append_Nil)
next
  case (2 b0 b1)
  show ?case
    unfolding base64Encode.simps
    by (subst decode_pad1) (simp_all only: digit_ranges tail_bytes)
next
  case (3 b0)
  show ?case
    unfolding base64Encode.simps
    by (subst decode_pad2) (simp_all only: digit_ranges tail_bytes)
qed simp

lemma base64_decode_encode: "base64Decode (base64Encode s) = s"
  by (simp add: base64Decode_def decode_encode_loop)

text \<open>C5: decoding an encoded byte string gives it back, whatever its length modulo 3.\<close>

theorem base64_roundtrip: "base64Decode (base64Encode s) = s"
  by (rule base64_decode_encode)

lemma length_base64Encode: "length (base64Encode s) = 4 * ((length s + 2) div 3)"
proof (induction s rule: base64Encode.induct)
  case (1 b0 b1 b2 s)
  have "(length s + 2 + 3) div 3 = (length s + 2) div 3 + 1"
    by (rule div_add_self2) simp
  moreover have "length (base64Encode (b0 # b1 # b2 # s)) = 4 + length (base64Encode s)"
    by simp
  moreover have "length (b0 # b1 # b2 # s) + 2 = length s + 2 + 3"
    by simp
  ultimately show ?case by (simp only: "1.IH" distrib_left mult_1_right add.commute)
qed simp_all

lemma enc_char_set: "i \<ge> 0 \<Longrightarrow> i \<le> 63 \<Longrightarrow> enc_char i \<in> insert (ch CHR ''='') (set ch64)"
  using enc_in_ch64 by blast

lemma set_base64Encode: "set (base64Encode s) \<subseteq> insert (ch CHR ''='') (set ch64)"
  by (induction s rule: base64Encode.induct)
    (simp_all only: base64Encode.simps list.set insert_subset digit_ranges enc_char_set
      insertI1 empty_subsetI simp_thms)

lemma base64Encode_no_amp: "38 \<notin> set (base64Encode s)"
  using set_base64Encode [of s] amp_notin_ch64 by auto

end
