(* ===== verification/LoopBuf.thy ===== *)
theory LoopBuf
  imports GP_Prelude
begin

text \<open>
  \<^verbatim>\<open>efnfw/base/ef_loop_buf.cpp\<close> and \<^verbatim>\<open>.h\<close>: the byte queue under every connection and under
  the operator queue of an event loop. A queue is a singly linked chain of frames; \<open>m_head\<close> is
  the first frame of the chain, \<open>m_tail\<close> the last, \<open>m_w_pos\<close> the frame that takes the next
  bytes. The chain is the list of its frames from head to tail and \<open>m_w_pos\<close> an index into it,
  so \<open>m_tail->m_next = f\<close> is an append and \<open>f->m_next == NULL\<close> is "last of the list".

  Sizes are \<open>nat\<close>: the invariant \<open>lb_inv\<close> keeps \<open>m_start + m_size \<le> m_cap\<close>, so no difference
  of the code is ever negative. A result type says what C++ leaves undefined: \<open>Fault\<close> is an
  access through a pointer computed from NULL, \<open>NoFuel\<close> a loop that has not ended.
\<close>

subsection \<open>Frames\<close>

record frame =
  m_buf :: bytes
  m_start :: nat
  m_fsize :: nat

definition m_cap :: "frame \<Rightarrow> nat" where
  "m_cap f = length (m_buf f)"

definition freeSize :: "frame \<Rightarrow> nat" where
  "freeSize f = m_cap f - m_fsize f - m_start f"

definition full :: "frame \<Rightarrow> bool" where
  "full f \<longleftrightarrow> m_fsize f + m_start f = m_cap f"

text \<open>\<open>frame_peek\<close> gives the bytes that \<^verbatim>\<open>memmove\<close> copies out; \<open>realread\<close> is their number.\<close>

definition frame_peek :: "frame \<Rightarrow> nat \<Rightarrow> bytes" where
  "frame_peek f len =
     (let realread = (if m_fsize f \<le> len then m_fsize f else len)
      in take realread (drop (m_start f) (m_buf f)))"

definition frame_read :: "frame \<Rightarrow> nat \<Rightarrow> bytes \<times> frame" where
  "frame_read f len =
     (let out = frame_peek f len;
          realread = length out;
          f = f\<lparr>m_start := m_start f + realread, m_fsize := m_fsize f - realread\<rparr>
      in (out, if m_fsize f \<le> 0 then f\<lparr>m_start := 0\<rparr> else f))"

text \<open>\<^verbatim>\<open>buf == NULL\<close> (\<open>None\<close>) leaves the storage alone and only counts the bytes in.\<close>

definition frame_write :: "frame \<Rightarrow> bytes option \<Rightarrow> nat \<Rightarrow> nat \<times> frame" where
  "frame_write f buf len =
     (let realwrite = (if len > freeSize f then freeSize f else len);
          stop = m_start f + m_fsize f;
          f = (case buf of None \<Rightarrow> f
               | Some bs \<Rightarrow> f\<lparr>m_buf := take stop (m_buf f) @ take realwrite bs
                                       @ drop (stop + realwrite) (m_buf f)\<rparr>)
      in (realwrite, f\<lparr>m_fsize := m_fsize f + realwrite\<rparr>))"

definition frame_clear :: "frame \<Rightarrow> frame" where
  "frame_clear f = f\<lparr>m_fsize := 0, m_start := 0\<rparr>"

subsection \<open>The queue\<close>

record loop_buf =
  lb_frames :: "frame list"
  m_w_pos :: nat
  lb_size :: nat

definition DEFAUTLT_ALIGN_SIZE :: nat where
  "DEFAUTLT_ALIGN_SIZE = 2048"

definition sizeof_frame :: nat where
  \<comment> \<open>two pointers and three \<^verbatim>\<open>int32\<close> with padding, on LP64\<close>
  "sizeof_frame = 32"

definition alignSize :: "nat \<Rightarrow> nat" where
  "alignSize l = l + DEFAUTLT_ALIGN_SIZE - l mod DEFAUTLT_ALIGN_SIZE"

definition constructFrame :: "nat \<Rightarrow> frame" where
  "constructFrame len = \<lparr>m_buf = replicate (len - sizeof_frame) 0, m_start = 0, m_fsize = 0\<rparr>"

definition allocFrame :: "nat \<Rightarrow> frame" where
  "allocFrame l = constructFrame (alignSize l)"

definition LoopBuf :: loop_buf where
  "LoopBuf = \<lparr>lb_frames = [allocFrame 1024], m_w_pos = 0, lb_size = 0\<rparr>"

definition firstFrameLen :: "loop_buf \<Rightarrow> nat" where
  "firstFrameLen lb = m_fsize (hd (lb_frames lb))"

text \<open>The bytes from \<^verbatim>\<open>firstFrameData()\<close> on, as many as \<^verbatim>\<open>firstFrameLen()\<close> says.\<close>

definition firstFrameData :: "loop_buf \<Rightarrow> bytes" where
  "firstFrameData lb =
     (let f = hd (lb_frames lb) in take (m_fsize f) (drop (m_start f) (m_buf f)))"

definition freeFrameLen :: "loop_buf \<Rightarrow> nat" where
  "freeFrameLen lb = (let f = lb_frames lb ! m_w_pos lb in m_cap f - m_fsize f - m_start f)"

text \<open>
  What a \<^verbatim>\<open>recv\<close> into \<^verbatim>\<open>freeFrameBuf()\<close> does to the storage of the write frame; the bytes
  are counted in afterwards, by \<^verbatim>\<open>write(NULL, n)\<close>.
\<close>

definition freeFrameBuf_store :: "loop_buf \<Rightarrow> bytes \<Rightarrow> loop_buf" where
  "freeFrameBuf_store lb bs =
     (let f = lb_frames lb ! m_w_pos lb;
          at = m_start f + m_fsize f;
          f = f\<lparr>m_buf := take at (m_buf f) @ bs @ drop (at + length bs) (m_buf f)\<rparr>
      in lb\<lparr>lb_frames := (lb_frames lb)[m_w_pos lb := f]\<rparr>)"

text \<open>
  The loop of \<open>write\<close> over the frames from \<open>m_w_pos\<close> on: the frames after it, by how many
  \<open>m_w_pos\<close> moves, and \<open>wlen\<close>. A frame that has become full hands over to the next one; a frame
  that has not took all that was left, and the last frame, once full, ends the loop, so in
  both cases the loop test fails.
\<close>

fun write_frames :: "frame list \<Rightarrow> bytes \<Rightarrow> nat \<Rightarrow> nat \<Rightarrow> frame list \<times> nat \<times> nat" where
  "write_frames [] buf len wlen = ([], 0, wlen)"
| "write_frames (f # fs) buf len wlen =
     (if len > wlen \<and> \<not> full f then
        (let (ret, f') = frame_write f (Some (drop wlen buf)) (len - wlen)
         in if full f' \<and> fs \<noteq> [] then
              (let (fs', adv, wlen') = write_frames fs buf len (wlen + ret)
               in (f' # fs', Suc adv, wlen'))
            else (f' # fs, 0, wlen + ret))
      else (f # fs, 0, wlen))"

definition lb_write :: "loop_buf \<Rightarrow> bytes \<Rightarrow> nat \<Rightarrow> loop_buf \<times> nat" where
  "lb_write lb buf len =
     (let (fs, adv, wlen) = write_frames (drop (m_w_pos lb) (lb_frames lb)) buf len 0
      in (lb\<lparr>lb_frames := take (m_w_pos lb) (lb_frames lb) @ fs,
             m_w_pos := m_w_pos lb + adv,
             lb_size := lb_size lb + wlen\<rparr>, wlen))"

text \<open>
  \<^verbatim>\<open>write(NULL, len)\<close>: the first frame is only counted up. When bytes are left over, the next
  frame would be written from \<^verbatim>\<open>NULL + wlen\<close>, which is not NULL.
\<close>

definition lb_write_null :: "loop_buf \<Rightarrow> nat \<Rightarrow> loop_buf outcome" where
  "lb_write_null lb len =
     (let w = m_w_pos lb; f = lb_frames lb ! w
      in if len > 0 \<and> \<not> full f then
           (let (ret, f') = frame_write f None len;
                w' = (if full f' \<and> Suc w < length (lb_frames lb) then Suc w else w);
                lb' = lb\<lparr>lb_frames := (lb_frames lb)[w := f'], m_w_pos := w',
                         lb_size := lb_size lb + ret\<rparr>
            in if len > ret \<and> \<not> full (lb_frames lb' ! w') then Fault else Done lb')
         else Done lb)"

definition lb_extend :: "loop_buf \<Rightarrow> nat \<Rightarrow> loop_buf" where
  "lb_extend lb sz =
     (let f = allocFrame sz
      in lb\<lparr>lb_frames := lb_frames lb @ [f],
            m_w_pos := (if full (lb_frames lb ! m_w_pos lb) then Suc (m_w_pos lb) else m_w_pos lb)\<rparr>)"

definition autoResizeWrite :: "loop_buf \<Rightarrow> bytes \<Rightarrow> nat \<Rightarrow> loop_buf \<times> nat" where
  "autoResizeWrite lb buf len =
     (let (lb, ret) = lb_write lb buf len
      in if len > ret
         then (fst (lb_write (lb_extend lb (len - ret)) (drop ret buf) (len - ret)), len)
         else (lb, len))"

text \<open>
  \<open>peek\<close> walks from \<open>m_head\<close> up to and including \<open>m_w_pos\<close> (it stops at \<open>m_w_pos->m_next\<close>).
\<close>

fun peek_frames :: "frame list \<Rightarrow> nat \<Rightarrow> bytes \<Rightarrow> bytes" where
  "peek_frames [] len out = out"
| "peek_frames (f # fs) len out =
     (if len > length out
      then peek_frames fs len (out @ frame_peek f (len - length out)) else out)"

definition lb_peek :: "loop_buf \<Rightarrow> nat \<Rightarrow> bytes" where
  "lb_peek lb len = peek_frames (take (Suc (m_w_pos lb)) (lb_frames lb)) len []"

text \<open>
  The loop of \<open>read\<close>. Its frame \<open>f\<close> is always the head of the chain: the loop goes on only after
  a frame was emptied, and an emptied frame that is not the tail is moved behind the tail, which
  makes \<open>n\<close> the new head; an emptied tail has \<open>n == NULL\<close> and ends the loop. The test
  \<open>f != m_w_pos->m_next\<close> therefore always holds, a head being nobody's successor. When the
  frame that moves is the write frame itself, \<open>m_w_pos\<close> moves with it.
\<close>

fun read_loop :: "nat \<Rightarrow> loop_buf \<Rightarrow> bool \<Rightarrow> nat \<Rightarrow> bytes \<Rightarrow> (loop_buf \<times> bytes) outcome" where
  "read_loop 0 lb null len out = NoFuel"
| "read_loop (Suc fuel) lb null len out =
     (if len > length out then
        (case lb_frames lb of
           [] \<Rightarrow> Done (lb, out)
         | f # fs \<Rightarrow>
             (let (got, f') = frame_read f (len - length out)
              in if null \<and> out \<noteq> [] \<and> got \<noteq> [] then Fault
                 else if m_fsize f' = 0 \<and> fs \<noteq> [] then
                   read_loop fuel
                     (lb\<lparr>lb_frames := fs @ [f'],
                         m_w_pos := (if m_w_pos lb = 0 then length fs else m_w_pos lb - 1)\<rparr>)
                     null len (out @ got)
                 else if fs = [] then Done (lb\<lparr>lb_frames := [f']\<rparr>, out @ got)
                 else Done (lb\<lparr>lb_frames := f' # fs\<rparr>, out @ got)))
      else Done (lb, out))"

text \<open>After the loop, \<open>m_size -= rlen\<close>. The fuel is enough for every read that ends (below).\<close>

definition lb_read_fuel :: "nat \<Rightarrow> loop_buf \<Rightarrow> bool \<Rightarrow> nat \<Rightarrow> (loop_buf \<times> bytes) outcome" where
  "lb_read_fuel fuel lb null len =
     (case read_loop fuel lb null len [] of
        Done (lb', out) \<Rightarrow> Done (lb'\<lparr>lb_size := lb_size lb' - length out\<rparr>, out)
      | Fault \<Rightarrow> Fault
      | NoFuel \<Rightarrow> NoFuel)"

definition lb_read :: "loop_buf \<Rightarrow> bool \<Rightarrow> nat \<Rightarrow> (loop_buf \<times> bytes) outcome" where
  "lb_read lb null len = lb_read_fuel (length (lb_frames lb) + 1) lb null len"

text \<open>\<open>find\<close>: the offset of the first byte \<open>c\<close>, counted over all frames, or \<open>None\<close> for -1.\<close>

fun find_in_frame :: "frame \<Rightarrow> byte \<Rightarrow> nat \<Rightarrow> nat \<Rightarrow> nat option" where
  "find_in_frame f c i 0 = None"
| "find_in_frame f c i (Suc n) =
     (if c = m_buf f ! (m_start f + i) then Some i else find_in_frame f c (Suc i) n)"

fun find_frames :: "frame list \<Rightarrow> byte \<Rightarrow> nat \<Rightarrow> nat option" where
  "find_frames [] c ret = None"
| "find_frames (f # fs) c ret =
     (case find_in_frame f c 0 (m_fsize f) of
        Some i \<Rightarrow> Some (ret + i)
      | None \<Rightarrow> find_frames fs c (ret + m_fsize f))"

definition lb_find :: "loop_buf \<Rightarrow> byte \<Rightarrow> nat option" where
  "lb_find lb c = find_frames (lb_frames lb) c 0"

text \<open>\<open>clear\<close> empties every frame but leaves \<open>m_w_pos\<close> where it is.\<close>

definition lb_clear :: "loop_buf \<Rightarrow> loop_buf" where
  "lb_clear lb = lb\<lparr>lb_frames := map frame_clear (lb_frames lb), lb_size := 0\<rparr>"

subsection \<open>The abstract queue and the invariant\<close>

text \<open>
  The queue stands for the bytes of its frames, head first. The invariant: every frame keeps
  its bytes inside its storage, an empty frame starts at 0, the frames after \<open>m_w_pos\<close> are empty
  (so that what is written there comes last), and \<open>m_size\<close> counts the bytes.
\<close>

definition frame_data :: "frame \<Rightarrow> bytes" where
  "frame_data f = take (m_fsize f) (drop (m_start f) (m_buf f))"

definition frame_ok :: "frame \<Rightarrow> bool" where
  "frame_ok f \<longleftrightarrow> m_start f + m_fsize f \<le> m_cap f \<and> 0 < m_cap f \<and> (m_fsize f = 0 \<longrightarrow> m_start f = 0)"

definition frames_data :: "frame list \<Rightarrow> bytes" where
  "frames_data fs = concat (map frame_data fs)"

definition lb_data :: "loop_buf \<Rightarrow> bytes" where
  "lb_data lb = frames_data (lb_frames lb)"

definition lb_inv :: "loop_buf \<Rightarrow> bool" where
  "lb_inv lb \<longleftrightarrow>
     (\<forall>f \<in> set (lb_frames lb). frame_ok f) \<and>
     m_w_pos lb < length (lb_frames lb) \<and>
     (\<forall>f \<in> set (drop (Suc (m_w_pos lb)) (lb_frames lb)). m_fsize f = 0) \<and>
     lb_size lb = length (lb_data lb)"

lemma frames_data_simps [simp]:
  "frames_data [] = []"
  "frames_data (f # fs) = frame_data f @ frames_data fs"
  "frames_data (fs @ gs) = frames_data fs @ frames_data gs"
  by (simp_all add: frames_data_def)

lemma length_frame_data [simp]: "frame_ok f \<Longrightarrow> length (frame_data f) = m_fsize f"
  by (auto simp: frame_data_def frame_ok_def m_cap_def min_def)

lemma frame_data_empty: "m_fsize f = 0 \<Longrightarrow> frame_data f = []"
  by (simp add: frame_data_def)

lemma frames_data_empty: "\<forall>f \<in> set fs. m_fsize f = 0 \<Longrightarrow> frames_data fs = []"
  by (induction fs) (simp_all add: frame_data_empty)

subsection \<open>One frame\<close>

lemma frame_peek_data: "frame_peek f len = take len (frame_data f)"
  by (simp add: frame_peek_def frame_data_def Let_def min_def)

lemma frame_read_spec:
  assumes "frame_ok f" "frame_read f len = (out, f')"
  shows "out = take len (frame_data f)" "frame_data f' = drop len (frame_data f)"
    "frame_ok f'" "m_fsize f' = m_fsize f - len" "m_cap f' = m_cap f"
proof -
  have out: "out = take len (frame_data f)"
    using assms(2) by (auto simp: frame_read_def frame_peek_data Let_def split: if_splits)
  have n: "length out = min len (m_fsize f)"
    using assms(1) by (simp add: out min.commute)
  have sz: "m_fsize f - min len (m_fsize f) = m_fsize f - len" by simp
  show "m_cap f' = m_cap f"
    using assms(2) by (auto simp: frame_read_def Let_def m_cap_def split: if_splits)
  show "m_fsize f' = m_fsize f - len"
    using assms(2) n out by (auto simp: frame_read_def frame_peek_data Let_def split: if_splits)
  show "out = take len (frame_data f)" by (rule out)
  show "frame_ok f'"
    using assms n out
    by (auto simp: frame_read_def frame_peek_data Let_def frame_ok_def m_cap_def split: if_splits)
  show "frame_data f' = drop len (frame_data f)"
    using assms n out
    by (auto simp: frame_read_def frame_peek_data Let_def frame_data_def min_def drop_take
        add.commute split: if_splits)
qed

lemma frame_write_spec:
  assumes ok: "frame_ok f" and "len \<le> length bs" and w: "frame_write f (Some bs) len = (r, f')"
  shows "r = min len (freeSize f)" "frame_data f' = frame_data f @ take r bs"
    "frame_ok f'" "m_fsize f' = m_fsize f + r" "m_cap f' = m_cap f" "m_start f' = m_start f"
proof -
  have r: "r = min len (freeSize f)"
    using w by (auto simp: frame_write_def Let_def min_def split: if_splits)
  have f': "f' = f\<lparr>m_buf := take (m_start f + m_fsize f) (m_buf f) @ take r bs
      @ drop (m_start f + m_fsize f + r) (m_buf f), m_fsize := m_fsize f + r\<rparr>"
    using w by (auto simp: frame_write_def Let_def min_def r split: if_splits)
  have room: "m_start f + m_fsize f + r \<le> length (m_buf f)" "r \<le> length bs"
    using ok assms(2) r by (auto simp: frame_ok_def freeSize_def m_cap_def)
  show "r = min len (freeSize f)" by (rule r)
  show cap: "m_cap f' = m_cap f" using room by (simp add: f' m_cap_def)
  show "m_fsize f' = m_fsize f + r" "m_start f' = m_start f" by (simp_all add: f')
  show "frame_ok f'" using ok room cap by (auto simp: frame_ok_def m_cap_def f')
  have "drop (m_start f) (take (m_start f + m_fsize f) (m_buf f)) = frame_data f"
    by (simp add: frame_data_def drop_take)
  moreover have "length (take (m_start f + m_fsize f) (m_buf f)) = m_start f + m_fsize f"
    using room by simp
  ultimately have "drop (m_start f) (m_buf f') =
      frame_data f @ take r bs @ drop (m_start f + m_fsize f + r) (m_buf f)"
    by (simp add: f')
  then have "frame_data f' = take (m_fsize f + r)
      (frame_data f @ take r bs @ drop (m_start f + m_fsize f + r) (m_buf f))"
    by (simp only: frame_data_def [of f']) (simp add: f')
  with ok room show "frame_data f' = frame_data f @ take r bs"
    by simp
qed

lemma frame_full_after_write:
  assumes "frame_ok f" "len \<le> length bs" "frame_write f (Some bs) len = (r, f')"
  shows "full f' \<longleftrightarrow> freeSize f \<le> len" "freeSize f' = freeSize f - r"
proof -
  note spec = frame_write_spec [OF assms]
  show free: "freeSize f' = freeSize f - r"
    by (simp add: freeSize_def spec(4,5,6))
  have "full f' \<longleftrightarrow> freeSize f' = 0"
    using spec(3) by (auto simp: full_def freeSize_def frame_ok_def)
  also have "\<dots> \<longleftrightarrow> freeSize f \<le> len"
    unfolding free spec(1) by auto
  finally show "full f' \<longleftrightarrow> freeSize f \<le> len" .
qed

lemma full_freeSize: "frame_ok f \<Longrightarrow> full f \<longleftrightarrow> freeSize f = 0"
  by (auto simp: full_def freeSize_def frame_ok_def)

lemma frame_ok_empty: "frame_ok f \<Longrightarrow> m_fsize f = 0 \<Longrightarrow> freeSize f = m_cap f \<and> \<not> full f"
  by (auto simp: full_def freeSize_def frame_ok_def)

subsection \<open>Writing\<close>

definition frames_free :: "frame list \<Rightarrow> nat" where
  "frames_free fs = sum_list (map freeSize fs)"

lemma frames_free_simps [simp]:
  "frames_free [] = 0"
  "frames_free (f # fs) = freeSize f + frames_free fs"
  "frames_free (fs @ gs) = frames_free fs + frames_free gs"
  by (simp_all add: frames_free_def)

text \<open>What the loop of \<open>write\<close> achieves on the frames from \<open>m_w_pos\<close> on.\<close>

definition wrote :: "frame list \<Rightarrow> bytes \<Rightarrow> nat \<Rightarrow> nat \<Rightarrow> frame list \<Rightarrow> nat \<Rightarrow> nat \<Rightarrow> bool" where
  "wrote fs buf len wlen fs' adv wlen' \<longleftrightarrow>
     length fs' = length fs \<and> adv < length fs \<and> (\<forall>f \<in> set fs'. frame_ok f) \<and>
     (\<forall>f \<in> set (drop (Suc adv) fs'). m_fsize f = 0) \<and>
     map m_cap fs' = map m_cap fs \<and>
     wlen \<le> wlen' \<and> wlen' \<le> len \<and>
     frames_data fs' = frames_data fs @ take (wlen' - wlen) (drop wlen buf) \<and>
     wlen' = (if full (hd fs) then wlen else min len (wlen + frames_free fs)) \<and>
     (wlen' < len \<longrightarrow> full (fs' ! adv))"

lemma write_frames_wrote:
  assumes "fs \<noteq> []" "\<forall>f \<in> set fs. frame_ok f" "\<forall>f \<in> set (tl fs). m_fsize f = 0"
    "len \<le> length buf" "wlen \<le> len"
    "write_frames fs buf len wlen = (fs', adv, wlen')"
  shows "wrote fs buf len wlen fs' adv wlen'"
  using assms
proof (induction fs arbitrary: wlen fs' adv wlen')
  case (Cons f fs)
  note ok = Cons.prems(2) and empty = Cons.prems(3) and prem = Cons.prems
  show ?case
  proof (cases "len > wlen \<and> \<not> full f")
    case False
    have "wlen < len \<longrightarrow> full f" using False by auto
    then show ?thesis
      using prem False by (auto simp: wrote_def)
  next
    case True
    obtain r f' where w: "frame_write f (Some (drop wlen buf)) (len - wlen) = (r, f')"
      by fastforce
    have okf: "frame_ok f" and le: "len - wlen \<le> length (drop wlen buf)"
      using prem by auto
    note spec = frame_write_spec [OF okf le w]
    note fulls = frame_full_after_write [OF okf le w]
    show ?thesis
    proof (cases "full f' \<and> fs \<noteq> []")
      case goon: True
      obtain gs a n where rec: "write_frames fs buf len (wlen + r) = (gs, a, n)"
        by (metis prod.exhaust)
      have r: "r = freeSize f" "wlen + r \<le> len"
        using goon spec(1) fulls(1) True by auto
      obtain g hs where fs: "fs = g # hs" using goon by (cases fs) auto
      have "\<forall>f \<in> set (tl fs). m_fsize f = 0"
        using empty fs by simp
      then have IH: "wrote fs buf len (wlen + r) gs a n"
        using Cons.IH [OF _ _ _ _ r(2) rec] ok prem(4) goon by auto
      have hdfs: "\<not> full (hd fs)"
        using fs ok empty frame_ok_empty by auto
      have res: "fs' = f' # gs" "adv = Suc a" "wlen' = n"
        using prem(6) True w goon rec by auto
      have nodata: "frames_data fs = []"
        using empty by (intro frames_data_empty) simp
      have "wlen + r \<le> n" using IH by (simp add: wrote_def)
      then have "n - wlen = r + (n - (wlen + r))" by simp
      then have "take r (drop wlen buf) @ take (n - (wlen + r)) (drop (wlen + r) buf)
          = take (n - wlen) (drop wlen buf)"
        by (simp only: take_add drop_drop add.commute)
      moreover have "n = min len (wlen + frames_free (f # fs))"
        using IH hdfs r(1) unfolding wrote_def by auto
      ultimately show ?thesis
        using IH True spec nodata unfolding wrote_def res by auto
    next
      case stop: False
      have res: "fs' = f' # fs" "adv = 0" "wlen' = wlen + r"
        using prem(6) True w stop by auto
      have nodata: "frames_data fs = []"
        using empty by (intro frames_data_empty) simp
      have "wlen + r = min len (wlen + frames_free (f # fs))"
        using stop spec(1) fulls(1) True by auto
      then show ?thesis
        using True spec nodata fulls prem stop unfolding wrote_def res by auto
    qed
  qed
qed simp

definition lb_free :: "loop_buf \<Rightarrow> nat" where
  "lb_free lb = frames_free (drop (m_w_pos lb) (lb_frames lb))"

abbreviation w_frame :: "loop_buf \<Rightarrow> frame" where
  "w_frame lb \<equiv> lb_frames lb ! m_w_pos lb"

lemma lb_inv_w_frame: "lb_inv lb \<Longrightarrow> frame_ok (w_frame lb)"
  by (auto simp: lb_inv_def)

lemma lb_invD:
  assumes "lb_inv lb"
  shows "\<forall>f \<in> set (lb_frames lb). frame_ok f" "m_w_pos lb < length (lb_frames lb)"
    "\<forall>f \<in> set (drop (Suc (m_w_pos lb)) (lb_frames lb)). m_fsize f = 0"
    "lb_size lb = length (lb_data lb)" "lb_frames lb \<noteq> []"
  using assms by (auto simp: lb_inv_def)

lemma lb_invI:
  "lb_frames lb = fs \<Longrightarrow> m_w_pos lb = w \<Longrightarrow> \<forall>f \<in> set fs. frame_ok f \<Longrightarrow> w < length fs \<Longrightarrow>
    \<forall>f \<in> set (drop (Suc w) fs). m_fsize f = 0 \<Longrightarrow> lb_size lb = length (lb_data lb) \<Longrightarrow> lb_inv lb"
  by (simp add: lb_inv_def)

lemma lb_write_spec:
  assumes inv: "lb_inv lb" and len: "len \<le> length buf" and w: "lb_write lb buf len = (lb', n)"
  shows "lb_inv lb'" "lb_data lb' = lb_data lb @ take n buf"
    "n = (if full (w_frame lb) then 0 else min len (lb_free lb))"
    "n < len \<Longrightarrow> full (w_frame lb')" "map m_cap (lb_frames lb') = map m_cap (lb_frames lb)"
proof -
  let ?w = "m_w_pos lb" and ?fs = "lb_frames lb"
  note I = lb_invD [OF inv]
  obtain gs adv k where wf: "write_frames (drop ?w ?fs) buf len 0 = (gs, adv, k)"
    by (metis prod.exhaust)
  have ne: "drop ?w ?fs \<noteq> []" and hd: "hd (drop ?w ?fs) = w_frame lb"
    using I(2) by (simp_all add: hd_drop_conv_nth)
  have "tl (drop ?w ?fs) = drop (Suc ?w) ?fs"
    by (simp add: drop_Suc tl_drop)
  then have W: "wrote (drop ?w ?fs) buf len 0 gs adv k"
    using write_frames_wrote [OF ne _ _ len _ wf] I(1,3) by (auto dest: in_set_dropD)
  have res: "lb' = lb\<lparr>lb_frames := take ?w ?fs @ gs, m_w_pos := ?w + adv, lb_size := lb_size lb + k\<rparr>"
      "n = k"
    using w wf by (auto simp: lb_write_def)
  have data: "frames_data (take ?w ?fs) @ frames_data (drop ?w ?fs) = lb_data lb"
    by (simp only: lb_data_def append_take_drop_id flip: frames_data_simps(3))
  show D: "lb_data lb' = lb_data lb @ take n buf"
  proof -
    have "frames_data gs = frames_data (drop ?w ?fs) @ take k buf"
      using W by (simp add: wrote_def)
    moreover have "lb_data lb' = frames_data (take ?w ?fs) @ frames_data gs"
      by (simp add: lb_data_def res)
    ultimately show ?thesis by (simp add: res(2) data [symmetric])
  qed
  have lens: "length (take ?w ?fs) = ?w" "?w + adv < length (take ?w ?fs @ gs)"
    using I(2) W by (auto simp: wrote_def)
  have nth: "(take ?w ?fs @ gs) ! (?w + adv) = gs ! adv"
    using lens(1) by (metis nth_append_length_plus)
  have "drop (Suc (?w + adv)) (take ?w ?fs @ gs) = drop (Suc adv) gs"
    using lens(1) by simp
  moreover have "k \<le> length buf" using W len by (simp add: wrote_def)
  ultimately show "lb_inv lb'"
    using W lens I D by (auto simp: lb_inv_def res wrote_def dest: in_set_takeD)
  show "n = (if full (w_frame lb) then 0 else min len (lb_free lb))"
    using W hd by (simp add: wrote_def res lb_free_def)
  show "full (w_frame lb')" if "n < len"
    using W that nth by (simp add: wrote_def res)
  show "map m_cap (lb_frames lb') = map m_cap (lb_frames lb)"
  proof -
    have "map m_cap gs = map m_cap (drop ?w ?fs)" using W by (simp add: wrote_def)
    then have "map m_cap (take ?w ?fs @ gs) = map m_cap (take ?w ?fs @ drop ?w ?fs)"
      by (simp only: map_append)
    then show ?thesis by (simp only: append_take_drop_id) (simp add: res)
  qed
qed

lemma alignSize_bounds: "l < alignSize l" "2048 \<le> alignSize l" "alignSize l mod 2048 = 0"
proof -
  have "l mod 2048 < 2048" by simp
  then show "l < alignSize l" by (simp add: alignSize_def DEFAUTLT_ALIGN_SIZE_def)
  have eq: "alignSize l = 2048 * (l div 2048) + 2048"
    using mult_div_mod_eq [of 2048 l] unfolding alignSize_def DEFAUTLT_ALIGN_SIZE_def by linarith
  then show "2048 \<le> alignSize l" "alignSize l mod 2048 = 0" by simp_all
qed

lemma allocFrame_simps [simp]:
  "m_fsize (allocFrame l) = 0" "m_start (allocFrame l) = 0"
  "m_cap (allocFrame l) = alignSize l - 32"
  by (simp_all add: allocFrame_def constructFrame_def m_cap_def sizeof_frame_def)

lemma allocFrame_ok [simp]: "frame_ok (allocFrame l)"
  using alignSize_bounds(2) [of l] by (simp add: frame_ok_def)

text \<open>
  The capacity of a new frame against the size asked for: the header takes 32 of the aligned
  bytes, which the alignment does not always leave.
\<close>

lemma allocFrame_cap: "m_cap (allocFrame l) + l mod 2048 = l + 2016"
proof -
  have "2048 * (l div 2048) + l mod 2048 = l" by simp
  moreover have "l mod 2048 < 2048" by simp
  ultimately show ?thesis
    by (simp add: alignSize_def DEFAUTLT_ALIGN_SIZE_def)
qed

lemma LoopBuf_inv [simp, inv_intros]: "lb_inv LoopBuf" and LoopBuf_data [simp]: "lb_data LoopBuf = []"
  by (simp_all add: LoopBuf_def lb_inv_def lb_data_def frame_data_empty)

lemma lb_extend_spec:
  assumes inv: "lb_inv lb"
  shows "lb_inv (lb_extend lb sz)" "lb_data (lb_extend lb sz) = lb_data lb"
    "full (w_frame lb) \<Longrightarrow> \<not> full (w_frame (lb_extend lb sz))
      \<and> m_cap (allocFrame sz) \<le> lb_free (lb_extend lb sz)"
proof -
  note I = lb_invD [OF inv]
  let ?fs = "lb_frames lb" and ?f = "allocFrame sz"
  show D: "lb_data (lb_extend lb sz) = lb_data lb"
    by (simp add: lb_extend_def lb_data_def frame_data_empty)
  have "\<forall>f \<in> set (drop (Suc (m_w_pos (lb_extend lb sz))) (?fs @ [?f])). m_fsize f = 0"
    using I(3) by (auto simp: lb_extend_def drop_Cons' dest: in_set_dropD)
      (metis drop_Suc drop_drop in_set_dropD plus_1_eq_Suc tl_drop)+
  then show "lb_inv (lb_extend lb sz)"
    using I D by (auto simp: lb_inv_def lb_extend_def)
  assume full: "full (w_frame lb)"
  let ?v = "Suc (m_w_pos lb)"
  have v: "w_frame (lb_extend lb sz) = (?fs @ [?f]) ! ?v" "?v < length (?fs @ [?f])"
    using full I(2) by (simp_all add: lb_extend_def)
  have "(?fs @ [?f]) ! ?v \<in> set (drop ?v (?fs @ [?f]))"
    using v(2) by (metis Cons_nth_drop_Suc list.set_intros(1))
  then have "(?fs @ [?f]) ! ?v \<in> set (drop ?v ?fs) \<or> (?fs @ [?f]) ! ?v = ?f"
    using I(2) by auto
  then have "m_fsize ((?fs @ [?f]) ! ?v) = 0 \<and> frame_ok ((?fs @ [?f]) ! ?v)"
    using I(1,3) by (auto dest: in_set_dropD)
  moreover have "drop ?v (?fs @ [?f]) = drop ?v ?fs @ [?f]"
    using I(2) by simp
  moreover have "freeSize ?f = m_cap ?f" by (simp add: freeSize_def)
  ultimately show "\<not> full (w_frame (lb_extend lb sz)) \<and> m_cap ?f \<le> lb_free (lb_extend lb sz)"
    using full v frame_ok_empty by (simp add: lb_free_def lb_extend_def)
qed

text \<open>
  \<open>autoResizeWrite\<close> appends a prefix of the data: all of it, unless the part that did not fit
  asks for a frame whose header the alignment leaves no room for; then at most 31 bytes go.
\<close>

lemma autoResizeWrite_prefix:
  assumes inv: "lb_inv lb" and w: "lb_write lb buf (length buf) = (lb1, ret)"
  defines "rest \<equiv> length buf - ret"
  shows "lb_inv (fst (autoResizeWrite lb buf (length buf)))"
    "\<exists>k. lb_data (fst (autoResizeWrite lb buf (length buf))) = lb_data lb @ take k buf
      \<and> k \<le> length buf \<and> length buf + 2016 \<le> k + max 2016 (rest mod 2048)"
proof -
  note W = lb_write_spec [OF inv order_refl w]
  have ret_le: "ret \<le> length buf" using W(3) by auto
  have "lb_inv (fst (autoResizeWrite lb buf (length buf))) \<and>
    (\<exists>k. lb_data (fst (autoResizeWrite lb buf (length buf))) = lb_data lb @ take k buf
      \<and> k \<le> length buf \<and> length buf + 2016 \<le> k + max 2016 (rest mod 2048))"
  proof (cases "length buf > ret")
    case False
    then show ?thesis
      using W(1,2) w ret_le by (auto simp: autoResizeWrite_def intro!: exI [of _ "length buf"])
  next
    case True
    note X = lb_extend_spec [OF W(1), of rest]
    obtain lb3 m where w2: "lb_write (lb_extend lb1 rest) (drop ret buf) rest = (lb3, m)"
      by fastforce
    note V = lb_write_spec [OF X(1) _ w2]
    have len: "rest \<le> length (drop ret buf)" by (simp add: rest_def)
    have "m = min rest (lb_free (lb_extend lb1 rest))" "m_cap (allocFrame rest) \<le> lb_free (lb_extend lb1 rest)"
      using V(3) [OF len] X(3) W(4) True by auto
    then have m: "m \<le> rest" "rest + 2016 \<le> m + max 2016 (rest mod 2048)"
      using allocFrame_cap [of rest] by auto
    have "lb_data lb3 = lb_data lb @ take (ret + m) buf"
      using V(2) [OF len] X(2) W(2) by (simp add: take_add)
    then show ?thesis
      using V(1) [OF len] True w w2 m ret_le
      by (auto simp: autoResizeWrite_def rest_def intro!: exI [of _ "ret + m"])
  qed
  then show "lb_inv (fst (autoResizeWrite lb buf (length buf)))"
    "\<exists>k. lb_data (fst (autoResizeWrite lb buf (length buf))) = lb_data lb @ take k buf
      \<and> k \<le> length buf \<and> length buf + 2016 \<le> k + max 2016 (rest mod 2048)"
    by auto
qed

lemma autoResizeWrite_inv [inv_intros]:
  "lb_inv lb \<Longrightarrow> lb_inv (fst (autoResizeWrite lb buf (length buf)))"
  using autoResizeWrite_prefix(1) by (metis surj_pair)

lemma autoResizeWrite_lossless:
  assumes "lb_inv lb" "(length buf - snd (lb_write lb buf (length buf))) mod 2048 \<le> 2016"
  shows "lb_data (fst (autoResizeWrite lb buf (length buf))) = lb_data lb @ buf"
proof -
  obtain lb1 ret where w: "lb_write lb buf (length buf) = (lb1, ret)" by fastforce
  with autoResizeWrite_prefix(2) [OF assms(1) w] assms(2) show ?thesis
    by (auto simp: max_def split: if_splits)
qed

subsection \<open>Reading\<close>

text \<open>The part of the invariant that the loop keeps while \<open>m_size\<close> is still the old one.\<close>

definition lb_shape :: "loop_buf \<Rightarrow> bool" where
  "lb_shape lb \<longleftrightarrow>
     (\<forall>f \<in> set (lb_frames lb). frame_ok f) \<and>
     m_w_pos lb < length (lb_frames lb) \<and>
     (\<forall>f \<in> set (drop (Suc (m_w_pos lb)) (lb_frames lb)). m_fsize f = 0)"

lemma lb_inv_shape: "lb_inv lb \<longleftrightarrow> lb_shape lb \<and> lb_size lb = length (lb_data lb)"
  by (auto simp: lb_inv_def lb_shape_def)

definition rotate_head :: "loop_buf \<Rightarrow> frame \<Rightarrow> loop_buf" where
  "rotate_head lb f' =
     lb\<lparr>lb_frames := tl (lb_frames lb) @ [f'],
        m_w_pos := (if m_w_pos lb = 0 then length (tl (lb_frames lb)) else m_w_pos lb - 1)\<rparr>"

lemma rotate_head_shape:
  assumes shape: "lb_shape lb" and fs: "lb_frames lb = f # fs" and "frame_ok f'" "m_fsize f' = 0"
  shows "lb_shape (rotate_head lb f')" "lb_data (rotate_head lb f') = frames_data fs"
    "m_w_pos lb = 0 \<Longrightarrow> frames_data fs = []"
proof -
  have empty: "\<forall>f \<in> set fs. m_fsize f = 0" if "m_w_pos lb = 0"
    using shape fs that by (simp add: lb_shape_def)
  show "m_w_pos lb = 0 \<Longrightarrow> frames_data fs = []"
    using empty by (rule frames_data_empty)
  show "lb_data (rotate_head lb f') = frames_data fs"
    using assms(4) fs by (simp add: rotate_head_def lb_data_def frame_data_empty)
  show "lb_shape (rotate_head lb f')"
  proof (cases "m_w_pos lb")
    case 0
    with assms show ?thesis by (simp add: lb_shape_def rotate_head_def)
  next
    case (Suc w)
    with assms show ?thesis by (auto simp: lb_shape_def rotate_head_def)
  qed
qed

lemma replace_head_shape:
  assumes "lb_shape lb" "lb_frames lb = f # fs" "frame_ok f'"
  shows "lb_shape (lb\<lparr>lb_frames := f' # fs\<rparr>)"
  using assms by (auto simp: lb_shape_def)

lemma read_loop_done:
  assumes "lb_shape lb" "length out \<le> len" "len - length out \<le> length (lb_data lb)"
    "m_w_pos lb + 1 < fuel"
  shows "\<exists>lb'. read_loop fuel lb False len out = Done (lb', out @ take (len - length out) (lb_data lb))
    \<and> lb_shape lb' \<and> lb_data lb' = drop (len - length out) (lb_data lb) \<and> lb_size lb' = lb_size lb
    \<and> length (lb_frames lb') = length (lb_frames lb)"
  using assms
proof (induction fuel arbitrary: lb out)
  case (Suc fuel)
  show ?case
  proof (cases "len > length out")
    case False
    with Suc.prems show ?thesis by auto
  next
    case True
    obtain f fs where fs: "lb_frames lb = f # fs"
      using Suc.prems(1) by (cases "lb_frames lb") (auto simp: lb_shape_def)
    obtain got f' where rd: "frame_read f (len - length out) = (got, f')" by fastforce
    have okf: "frame_ok f" using Suc.prems(1) fs by (simp add: lb_shape_def)
    note R = frame_read_spec [OF okf rd]
    have data: "lb_data lb = frame_data f @ frames_data fs" by (simp add: lb_data_def fs)
    show ?thesis
    proof (cases "m_fsize f' = 0 \<and> fs \<noteq> []")
      case rot: True
      let ?lb = "rotate_head lb f'"
      note S = rotate_head_shape [OF Suc.prems(1) fs R(3)]
      have le: "m_fsize f \<le> len - length out" using R(4) rot by simp
      then have got: "got = frame_data f" using R(1) okf by simp
      have step: "read_loop (Suc fuel) lb False len out = read_loop fuel ?lb False len (out @ got)"
        using True fs rd rot by (simp add: rotate_head_def)
      have left: "len - length (out @ got) = len - length out - m_fsize f"
        using got okf by simp
      have ?thesis if more: "len > length (out @ got)"
      proof -
        have "m_w_pos lb \<noteq> 0"
        proof
          assume "m_w_pos lb = 0"
          then have "frames_data fs = []" using S(3) rot by simp
          then show False using Suc.prems(3) data more got okf by simp
        qed
        then have "m_w_pos ?lb + 1 < fuel"
          using Suc.prems(4) by (simp add: rotate_head_def)
        moreover have "len - length (out @ got) \<le> length (lb_data ?lb)"
          using Suc.prems(3) data left S(2) rot okf by simp
        ultimately obtain lb' where IH:
          "read_loop fuel ?lb False len (out @ got) =
             Done (lb', (out @ got) @ take (len - length (out @ got)) (lb_data ?lb))"
          "lb_shape lb'" "lb_data lb' = drop (len - length (out @ got)) (lb_data ?lb)"
          "lb_size lb' = lb_size ?lb" "length (lb_frames lb') = length (lb_frames ?lb)"
          using Suc.IH [of ?lb "out @ got"] S(1) rot more by auto
        have "take (len - length out) (lb_data lb) = got @ take (len - length (out @ got)) (lb_data ?lb)"
          "drop (len - length out) (lb_data lb) = drop (len - length (out @ got)) (lb_data ?lb)"
          using data S(2) rot left got okf le by simp_all
        with IH show ?thesis
          unfolding step using fs by (auto simp: rotate_head_def)
      qed
      moreover have ?thesis if fin: "\<not> len > length (out @ got)"
      proof -
        have len: "len - length out = m_fsize f" using fin True le got okf by simp
        obtain k where "fuel = Suc k" using Suc.prems(4) by (cases fuel) auto
        then have "read_loop fuel ?lb False len (out @ got) = Done (?lb, out @ got)"
          using fin by simp
        then show ?thesis
          unfolding step using len got data S rot okf fs by (auto simp: rotate_head_def)
      qed
      ultimately show ?thesis by blast
    next
      case stop: False
      let ?lb = "lb\<lparr>lb_frames := f' # fs\<rparr>"
      have "len - length out \<le> m_fsize f"
      proof (cases "fs = []")
        case True
        then show ?thesis using Suc.prems(3) data okf by simp
      next
        case False
        then show ?thesis using stop R(4) by simp
      qed
      moreover have "read_loop (Suc fuel) lb False len out = Done (?lb, out @ got)"
        using True fs rd stop by auto
      moreover have "lb_shape ?lb" by (rule replace_head_shape [OF Suc.prems(1) fs R(3)])
      ultimately show ?thesis
        using R data okf fs by (auto simp: lb_data_def)
    qed
  qed
qed simp

lemma lb_read_fuel_done:
  assumes inv: "lb_inv lb" and len: "len \<le> length (lb_data lb)" and fuel: "m_w_pos lb + 1 < fuel"
  shows "\<exists>lb'. lb_read_fuel fuel lb False len = Done (lb', take len (lb_data lb))
    \<and> lb_inv lb' \<and> lb_data lb' = drop len (lb_data lb) \<and> length (lb_frames lb') = length (lb_frames lb)"
proof -
  have shape: "lb_shape lb" and size: "lb_size lb = length (lb_data lb)"
    using inv by (simp_all add: lb_inv_shape)
  obtain lb' where L: "read_loop fuel lb False len [] = Done (lb', [] @ take (len - length []) (lb_data lb))"
    "lb_shape lb'" "lb_data lb' = drop (len - length []) (lb_data lb)" "lb_size lb' = lb_size lb"
    "length (lb_frames lb') = length (lb_frames lb)"
    using read_loop_done [OF shape _ _ fuel, of "[]" len] len by auto
  let ?lb = "lb'\<lparr>lb_size := lb_size lb' - len\<rparr>"
  have "lb_inv ?lb"
    using L size len by (simp add: lb_inv_shape lb_shape_def lb_data_def)
  then show ?thesis
    using L len by (intro exI [of _ ?lb]) (simp add: lb_read_fuel_def lb_data_def)
qed

lemma lb_read_done:
  assumes "lb_inv lb" "len \<le> length (lb_data lb)"
  shows "\<exists>lb'. lb_read lb False len = Done (lb', take len (lb_data lb))
    \<and> lb_inv lb' \<and> lb_data lb' = drop len (lb_data lb) \<and> length (lb_frames lb') = length (lb_frames lb)"
  unfolding lb_read_def
  using lb_read_fuel_done [OF assms, of "length (lb_frames lb) + 1"] lb_invD(2) [OF assms(1)] by simp

text \<open>
  Asking for more than there is never returns once the chain has two frames: every frame is
  emptied and moved behind the tail for ever.
\<close>

lemma read_loop_diverges:
  assumes "lb_shape lb" "length out + length (lb_data lb) < len" "2 \<le> length (lb_frames lb)"
  shows "read_loop fuel lb False len out = NoFuel"
  using assms
proof (induction fuel arbitrary: lb out)
  case (Suc fuel)
  obtain f fs where fs: "lb_frames lb = f # fs" "fs \<noteq> []"
    using Suc.prems(3) by (cases "lb_frames lb"; cases "tl (lb_frames lb)") auto
  obtain got f' where rd: "frame_read f (len - length out) = (got, f')" by fastforce
  have okf: "frame_ok f" using Suc.prems(1) fs by (simp add: lb_shape_def)
  note R = frame_read_spec [OF okf rd]
  have data: "lb_data lb = frame_data f @ frames_data fs" by (simp add: lb_data_def fs)
  have emptied: "m_fsize f' = 0" and got: "got = frame_data f"
    using R(1,4) Suc.prems(2) data okf by simp_all
  note S = rotate_head_shape [OF Suc.prems(1) fs(1) R(3) emptied]
  have "read_loop (Suc fuel) lb False len out = read_loop fuel (rotate_head lb f') False len (out @ got)"
    using Suc.prems(2) fs rd emptied by (simp add: rotate_head_def)
  also have "\<dots> = NoFuel"
    using Suc.prems S(2) data got fs
    by (intro Suc.IH [OF S(1)]) (simp_all add: rotate_head_def)
  finally show ?case .
qed simp

lemma lb_read_diverges:
  assumes "lb_inv lb" "length (lb_data lb) < len" "2 \<le> length (lb_frames lb)"
  shows "lb_read_fuel fuel lb False len = NoFuel"
  using read_loop_diverges [of lb "[]" len fuel] assms
  by (simp add: lb_read_fuel_def lb_inv_shape)

text \<open>With a NULL buffer the read is the same as long as it stays in the first frame.\<close>

lemma read_loop_null_first:
  assumes "lb_shape lb" "len \<le> firstFrameLen lb" "2 \<le> fuel"
  shows "read_loop fuel lb True len [] = read_loop fuel lb False len []"
proof -
  obtain f fs where fs: "lb_frames lb = f # fs"
    using assms(1) by (cases "lb_frames lb") (auto simp: lb_shape_def)
  obtain k where k: "fuel = Suc (Suc k)"
    using assms(3) by (metis One_nat_def Suc_1 Suc_le_D Suc_le_mono)
  obtain got f' where rd: "frame_read f len = (got, f')" by fastforce
  have okf: "frame_ok f" using assms(1) fs by (simp add: lb_shape_def)
  have "length got = len"
    using frame_read_spec(1) [OF okf rd] assms(2) okf fs by (simp add: firstFrameLen_def)
  then show ?thesis using fs rd k by simp
qed

lemma lb_read_null_first:
  assumes "lb_inv lb" "len \<le> firstFrameLen lb"
  shows "lb_read lb True len = lb_read lb False len"
proof -
  have "2 \<le> length (lb_frames lb) + 1"
    using lb_invD(5) [OF assms(1)] by (cases "lb_frames lb") auto
  then show ?thesis
    using assms unfolding lb_read_def lb_read_fuel_def lb_inv_shape
    by (simp only: read_loop_null_first)
qed

lemma firstFrame_data:
  assumes "lb_inv lb"
  shows "firstFrameData lb = take (firstFrameLen lb) (lb_data lb)"
    "firstFrameLen lb \<le> length (lb_data lb)" "length (firstFrameData lb) = firstFrameLen lb"
proof -
  obtain f fs where fs: "lb_frames lb = f # fs"
    using lb_invD(5) [OF assms] by (cases "lb_frames lb") auto
  moreover have "frame_ok f" using assms fs by (simp add: lb_inv_def)
  ultimately show "firstFrameData lb = take (firstFrameLen lb) (lb_data lb)"
    "firstFrameLen lb \<le> length (lb_data lb)" "length (firstFrameData lb) = firstFrameLen lb"
    by (simp_all add: firstFrameData_def firstFrameLen_def lb_data_def flip: frame_data_def)
qed

subsection \<open>Peeking, finding, clearing, receiving in place\<close>

lemma peek_frames_data:
  "length out \<le> len \<Longrightarrow> peek_frames fs len out = out @ take (len - length out) (frames_data fs)"
proof (induction fs arbitrary: out)
  case (Cons f fs)
  let ?out = "out @ take (len - length out) (frame_data f)"
  have le: "length ?out \<le> len" using Cons.prems by simp
  have "len - length ?out = len - length out - length (frame_data f)" by simp
  with Cons.IH [OF le] Cons.prems show ?case
    by (auto simp: frame_peek_data simp del: length_append length_take)
qed simp

lemma lb_peek_data:
  assumes "lb_inv lb"
  shows "lb_peek lb len = take len (lb_data lb)"
proof -
  let ?w = "Suc (m_w_pos lb)"
  have "frames_data (drop ?w (lb_frames lb)) = []"
    using lb_invD(3) [OF assms] by (rule frames_data_empty)
  moreover have "lb_data lb = frames_data (take ?w (lb_frames lb)) @ frames_data (drop ?w (lb_frames lb))"
    by (simp only: lb_data_def append_take_drop_id flip: frames_data_simps(3))
  ultimately show ?thesis
    by (simp add: lb_peek_def peek_frames_data)
qed

lemma lb_clear_spec:
  assumes "lb_inv lb"
  shows "lb_inv (lb_clear lb)" "lb_data (lb_clear lb) = []"
proof -
  have empty: "\<forall>f \<in> set (map frame_clear (lb_frames lb)). m_fsize f = 0"
    by (simp add: frame_clear_def)
  then show D: "lb_data (lb_clear lb) = []"
    by (simp add: lb_clear_def lb_data_def frames_data_empty)
  have "frame_ok f \<Longrightarrow> frame_ok (frame_clear f)" for f
    by (simp add: frame_ok_def frame_clear_def m_cap_def)
  moreover have "\<forall>f \<in> set (drop k (map frame_clear (lb_frames lb))). m_fsize f = 0" for k
    using empty by (meson in_set_dropD)
  ultimately show "lb_inv (lb_clear lb)"
    using assms D by (auto simp: lb_inv_def lb_clear_def)
qed

lemma find_in_frame_spec:
  assumes "i + n = length (frame_data f)" "frame_ok f"
  shows "find_in_frame f c i n =
    map_option (\<lambda>j. i + j) (str_find (drop i (frame_data f)) [c])"
  using assms
proof (induction n arbitrary: i)
  case (Suc n)
  then have i: "i < length (frame_data f)" by simp
  have "frame_data f ! i = m_buf f ! (m_start f + i)"
    using i Suc.prems(2) by (simp add: frame_data_def frame_ok_def m_cap_def)
  moreover have "drop i (frame_data f) = frame_data f ! i # drop (Suc i) (frame_data f)"
    using i by (rule Cons_nth_drop_Suc [symmetric])
  ultimately show ?case
    using Suc.IH [of "Suc i"] Suc.prems by (auto simp: option.map_comp comp_def)
qed simp

lemma str_find_append_single:
  "str_find (xs @ ys) [c] =
    (case str_find xs [c] of Some i \<Rightarrow> Some i | None \<Rightarrow> map_option (\<lambda>i. length xs + i) (str_find ys [c]))"
  by (induction xs; cases "str_find ys [c]") (auto split: option.splits)

lemma find_frames_spec:
  "\<forall>f \<in> set fs. frame_ok f \<Longrightarrow>
    find_frames fs c ret = map_option (\<lambda>j. ret + j) (str_find (frames_data fs) [c])"
proof (induction fs arbitrary: ret)
  case (Cons f fs)
  then show ?case
    using find_in_frame_spec [of 0 "m_fsize f" f c]
    by (cases "str_find (frames_data fs) [c]")
      (auto simp: str_find_append_single option.map_comp comp_def option.map_ident split: option.splits)
qed simp

lemma lb_find_data: "lb_inv lb \<Longrightarrow> lb_find lb c = str_find (lb_data lb) [c]"
  using find_frames_spec [of "lb_frames lb" c 0]
  by (simp add: lb_inv_def lb_find_def lb_data_def option.map_ident)

text \<open>
  \<^verbatim>\<open>recv\<close> into the free part of the write frame, then \<^verbatim>\<open>write(NULL, n)\<close>: the received bytes
  are appended and the call never touches a second frame.
\<close>

lemma recv_in_place:
  assumes inv: "lb_inv lb" and room: "length bs \<le> freeFrameLen lb"
  shows "\<exists>lb'. lb_write_null (freeFrameBuf_store lb bs) (length bs) = Done lb'
    \<and> lb_inv lb' \<and> lb_data lb' = lb_data lb @ bs"
proof (cases "bs = []")
  case True
  have "freeFrameBuf_store lb bs = lb"
    by (simp add: freeFrameBuf_store_def True Let_def)
  then show ?thesis using True inv by (auto simp: lb_write_null_def Let_def)
next
  case False
  let ?w = "m_w_pos lb" and ?fs = "lb_frames lb" and ?f = "w_frame lb"
  let ?pre = "take ?w ?fs" and ?post = "drop (Suc ?w) ?fs"
  note I = lb_invD [OF inv] and okf = lb_inv_w_frame [OF inv]
  have split: "?fs = ?pre @ ?f # ?post" using I(2) by (rule id_take_nth_drop)
  have free: "length bs \<le> freeSize ?f" using room by (simp add: freeFrameLen_def freeSize_def Let_def)
  let ?g = "?f\<lparr>m_buf := take (m_start ?f + m_fsize ?f) (m_buf ?f) @ bs
      @ drop (m_start ?f + m_fsize ?f + length bs) (m_buf ?f)\<rparr>"
  let ?h = "?g\<lparr>m_fsize := m_fsize ?f + length bs\<rparr>"
  have w: "frame_write ?f (Some bs) (length bs) = (length bs, ?h)"
    using free by (simp add: frame_write_def Let_def)
  note spec = frame_write_spec [OF okf order_refl w]
  have notfull: "\<not> full ?f" using free False full_freeSize [OF okf] by auto
  have capg: "m_cap ?g = m_cap ?f"
    using spec(5) by (simp add: m_cap_def)
  have wn: "frame_write ?g None (length bs) = (length bs, ?h)" "\<not> full ?g"
    using free capg notfull by (simp_all add: frame_write_def Let_def freeSize_def full_def)
  let ?w' = "if full ?h \<and> Suc ?w < length ?fs then Suc ?w else ?w"
  let ?lb = "lb\<lparr>lb_frames := ?fs[?w := ?h], m_w_pos := ?w', lb_size := lb_size lb + length bs\<rparr>"
  have "lb_write_null (freeFrameBuf_store lb bs) (length bs) = Done ?lb"
    using wn False I(2) by (simp add: lb_write_null_def freeFrameBuf_store_def Let_def)
  moreover have upd: "?fs[?w := ?h] = ?pre @ ?h # ?post"
    using I(2) by (simp add: upd_conv_take_nth_drop)
  moreover have nodata: "frames_data ?post = []" using I(3) by (rule frames_data_empty)
  moreover have D: "lb_data ?lb = lb_data lb @ bs"
  proof -
    have "lb_data lb = frames_data ?pre @ frame_data ?f"
      using arg_cong [OF split, of frames_data] nodata by (simp add: lb_data_def)
    moreover have "lb_data ?lb = frames_data ?pre @ frame_data ?h"
      using upd nodata by (simp add: lb_data_def)
    ultimately show ?thesis using spec(2) by simp
  qed
  moreover have "lb_inv ?lb"
  proof -
    have oks: "\<forall>f \<in> set (?fs[?w := ?h]). frame_ok f"
      using I(1) spec(3) by (auto dest: set_update_subset_insert [THEN subsetD])
    have "length ?pre = ?w" using I(2) by simp
    then have "drop (Suc ?w) (?fs[?w := ?h]) = ?post" "drop (Suc (Suc ?w)) (?fs[?w := ?h]) = drop 1 ?post"
      unfolding upd by simp_all
    then have "drop (Suc ?w') (?fs[?w := ?h]) \<in> {?post, drop 1 ?post}"
      by (cases "full ?h \<and> Suc ?w < length ?fs") (simp_all only: if_True if_False insert_iff simp_thms)
    moreover have "\<forall>f \<in> set (drop 1 ?post). m_fsize f = 0"
      using I(3) by (meson in_set_dropD)
    ultimately have post: "\<forall>f \<in> set (drop (Suc ?w') (?fs[?w := ?h])). m_fsize f = 0"
      using I(3) by (elim insertE emptyE) (simp_all only:)
    have "?w' < length (?fs[?w := ?h])" using I(2) by simp
    moreover have "lb_size ?lb = length (lb_data ?lb)" unfolding D using I(4) by simp
    moreover have "lb_frames ?lb = ?fs[?w := ?h]" "m_w_pos ?lb = ?w'" by simp_all
    ultimately show ?thesis using oks post by (intro lb_invI [of ?lb "?fs[?w := ?h]" ?w'])
  qed
  ultimately show ?thesis by blast
qed

subsection \<open>The queue as an interface\<close>

text \<open>
  What the connections and the event loop rely on: an invariant, the bytes held, and peeking
  and reading in order of arrival. The client facts are proved once, over the laws only.
\<close>

locale byte_queue =
  fixes inv :: "'q \<Rightarrow> bool"
    and data :: "'q \<Rightarrow> bytes"
    and qsize :: "'q \<Rightarrow> nat"
    and peek :: "'q \<Rightarrow> nat \<Rightarrow> bytes"
    and rd :: "'q \<Rightarrow> nat \<Rightarrow> ('q \<times> bytes) outcome"
  assumes size_law: "inv q \<Longrightarrow> qsize q = length (data q)"
    and peek_law: "inv q \<Longrightarrow> peek q n = take n (data q)"
    and read_law: "inv q \<Longrightarrow> n \<le> length (data q) \<Longrightarrow>
      \<exists>q'. rd q n = Done (q', take n (data q)) \<and> inv q' \<and> data q' = drop n (data q)"
begin

text \<open>What was peeked is what the next read returns, and reads compose.\<close>

lemma peek_then_read:
  assumes "inv q" "n \<le> qsize q"
  shows "\<exists>q'. rd q n = Done (q', peek q n) \<and> inv q' \<and> qsize q' = qsize q - n"
  using read_law [OF assms(1), of n] assms by (auto simp: size_law peek_law)

lemma read_read:
  assumes "inv q" "m + n \<le> qsize q" "rd q m = Done (q1, out1)"
  shows "\<exists>q2 out2. rd q1 n = Done (q2, out2) \<and> inv q2 \<and> out1 @ out2 = take (m + n) (data q)
    \<and> data q2 = drop (m + n) (data q)"
proof -
  have "m \<le> length (data q)" using assms by (simp add: size_law)
  with read_law [OF assms(1)] assms(3) have q1: "inv q1" "data q1 = drop m (data q)" "out1 = take m (data q)"
    by fastforce+
  have "n \<le> length (data q1)" using assms q1 by (simp add: size_law)
  from read_law [OF q1(1) this] show ?thesis
    using q1 by (auto simp: take_add add.commute)
qed

text \<open>Reading everything leaves the queue empty.\<close>

lemma read_all:
  assumes "inv q"
  shows "\<exists>q'. rd q (qsize q) = Done (q', data q) \<and> inv q' \<and> qsize q' = 0"
  using read_law [OF assms, of "qsize q"] assms by (auto simp: size_law)

end

interpretation lbq: byte_queue lb_inv lb_data lb_size lb_peek "\<lambda>q n. lb_read q False n"
proof unfold_locales
  fix q n
  assume inv: "lb_inv q"
  show "lb_size q = length (lb_data q)" using inv by (rule lb_invD(4))
  show "lb_peek q n = take n (lb_data q)" using inv by (rule lb_peek_data)
  assume "n \<le> length (lb_data q)"
  then show "\<exists>q'. lb_read q False n = Done (q', take n (lb_data q)) \<and> lb_inv q' \<and> lb_data q' = drop n (lb_data q)"
    using lb_read_done [OF inv] by blast
qed

end
