(* ===== verification/Wire.thy ===== *)
theory Wire
  imports LoopBuf
begin

unbundle bit_operations_syntax

text \<open>
  The packet format of \<^verbatim>\<open>head/msg_head.h\<close> and the code that frames it:
  \<^verbatim>\<open>connect_server/src/common.cpp\<close> (\<open>checkLen\<close>, \<open>constructPacket\<close>), the copies of the same
  check in \<^verbatim>\<open>push_server/src/server_conn.cpp\<close> and \<^verbatim>\<open>listen_conn.cpp\<close>, and the numbers of
  \<^verbatim>\<open>head/err_no.h\<close>. A packet is a head of three 32-bit words, \<open>magic\<close>, \<open>len\<close> (which counts the
  head) and \<open>cmd\<close>, and a body. A word in memory is little-endian, as on the x86 hosts the
  code is written for; \<^verbatim>\<open>htonl\<close> swaps its bytes, so \<open>len\<close> and \<open>cmd\<close> travel big-endian.
\<close>

subsection \<open>32-bit words in memory\<close>

definition store_le :: "u32 \<Rightarrow> bytes" where
  "store_le w = [ucast w, ucast (drop_bit 8 w), ucast (drop_bit 16 w), ucast (drop_bit 24 w)]"

fun load_le :: "bytes \<Rightarrow> u32" where
  "load_le (b0 # b1 # b2 # b3 # _) =
     ucast b0 OR push_bit 8 (ucast b1) OR push_bit 16 (ucast b2) OR push_bit 24 (ucast b3)"
| "load_le _ = 0"

definition htonl :: "u32 \<Rightarrow> u32" where
  \<comment> \<open>the same four bytes in the opposite order\<close>
  "htonl w = load_le (rev (store_le w))"

lemma length_store_le [simp]: "length (store_le w) = 4"
  by (simp add: store_le_def)

lemma load_store_le [simp]: "load_le (store_le w @ bs) = w"
proof (rule bit_word_eqI)
  fix n assume "n < LENGTH(32)"
  then consider "n < 8" | "8 \<le> n" "n < 16" | "16 \<le> n" "n < 24" | "24 \<le> n" "n < 32"
    by fastforce
  then show "bit (load_le (store_le w @ bs)) n = bit w n"
    by cases (auto simp: store_le_def bit_simps)
qed

lemma store_load_le: "store_le (load_le (b0 # b1 # b2 # b3 # bs)) = [b0, b1, b2, b3]"
  by (auto simp: store_le_def intro!: bit_word_eqI) (auto simp: bit_simps dest: bit_imp_le_length)

lemma load_le_take: "4 \<le> n \<Longrightarrow> load_le (take n bs) = load_le bs"
proof -
  assume "4 \<le> n"
  then obtain m where "n = Suc (Suc (Suc (Suc m)))"
    by (auto simp: le_iff_add)
  then show ?thesis
    by (cases bs rule: load_le.cases) auto
qed

lemma htonl_htonl [simp]: "htonl (htonl w) = w"
proof -
  have "rev (store_le (load_le (rev (store_le w)))) = store_le w"
    by (simp only: store_le_def rev.simps append.simps store_load_le [unfolded store_le_def])
  then show ?thesis
    using load_store_le [of w "[]"] by (simp add: htonl_def)
qed

subsection \<open>The head\<close>

record head =
  h_magic :: u32
  h_len :: u32
  h_cmd :: u32

definition sizeof_head :: nat where
  "sizeof_head = 12"

definition KEEPALIVE_REQ :: int where "KEEPALIVE_REQ = 0"
definition KEEPALIVE_RESP :: int where "KEEPALIVE_RESP = KEEPALIVE_REQ + 1"
definition LOGIN_REQ :: int where "LOGIN_REQ = 100"
definition LOGIN_RESP :: int where "LOGIN_RESP = LOGIN_REQ + 1"
definition PUSH_REQ :: int where "PUSH_REQ = 200"
definition PUSH_RESP :: int where "PUSH_RESP = PUSH_REQ + 1"
definition KICK_CLIENT :: int where "KICK_CLIENT = 400"
definition JSON_PUSH_REQ :: int where "JSON_PUSH_REQ = 600"
definition JSON_PUSH_RESP :: int where "JSON_PUSH_RESP = PUSH_REQ + 1"
definition REDIRECT_RESP :: int where "REDIRECT_RESP = 1001"
definition MAGIC_NUMBER :: u32 where "MAGIC_NUMBER = 0x20141228"

lemmas cmd_defs = KEEPALIVE_REQ_def KEEPALIVE_RESP_def LOGIN_REQ_def LOGIN_RESP_def PUSH_REQ_def
  PUSH_RESP_def KICK_CLIENT_def JSON_PUSH_REQ_def JSON_PUSH_RESP_def REDIRECT_RESP_def

text \<open>\<^verbatim>\<open>*(head*)p\<close>: the three words at the front of a buffer.\<close>

definition load_head :: "bytes \<Rightarrow> head" where
  "load_head bs =
     \<lparr>h_magic = load_le bs, h_len = load_le (drop 4 bs), h_cmd = load_le (drop 8 bs)\<rparr>"

definition checkLen :: "loop_buf \<Rightarrow> int" where
  "checkLen c =
     (if lb_size c < sizeof_head then 0
      else let h = load_head (lb_peek c sizeof_head);
               h = h\<lparr>h_magic := htonl (h_magic h)\<rparr>;
               h = h\<lparr>h_len := htonl (h_len h)\<rparr>;
               len = sint (h_len h)
           in if len < int sizeof_head \<or> len > 1024 * 1024 then -1
              else if len \<le> int (lb_size c) then len
              else 0)"

definition constructPacket :: "head \<Rightarrow> bytes \<Rightarrow> bytes" where
  "constructPacket h body =
     (let rh = \<lparr>h_magic = h_magic h,
               h_len = htonl (of_nat (sizeof_head + length body)),
               h_cmd = htonl (h_cmd h)\<rparr>
      in store_le (h_magic rh) @ store_le (h_len rh) @ store_le (h_cmd rh) @ body)"

text \<open>
  \<open>SvCon\<close> and \<open>ListenCon\<close> carry their own copies of the check, with a result variable instead of
  the early returns (and a log line for a packet that is not there yet).
\<close>

definition sv_checkPackLen :: "loop_buf \<Rightarrow> int" where
  "sv_checkPackLen c =
     (if lb_size c < sizeof_head then 0
      else let h = load_head (lb_peek c sizeof_head);
               h = h\<lparr>h_magic := htonl (h_magic h)\<rparr>;
               h = h\<lparr>h_len := htonl (h_len h)\<rparr>
           in (if sint (h_len h) < int sizeof_head \<or> sint (h_len h) > 1024 * 1024 then -1
               else if sint (h_len h) \<le> int (lb_size c) then sint (h_len h) else 0))"

definition listen_checkPackLen :: "loop_buf \<Rightarrow> int" where
  "listen_checkPackLen c =
     (if lb_size c < sizeof_head then 0
      else let h = load_head (lb_peek c sizeof_head);
               h = h\<lparr>h_magic := htonl (h_magic h)\<rparr>;
               h = h\<lparr>h_len := htonl (h_len h)\<rparr>
           in (if sint (h_len h) < int sizeof_head \<or> sint (h_len h) > 1024 * 1024 then -1
               else if sint (h_len h) \<le> int (lb_size c) then sint (h_len h) else 0))"

lemma checkPackLen_copies: "sv_checkPackLen c = checkLen c" "listen_checkPackLen c = checkLen c"
  by (simp_all add: sv_checkPackLen_def listen_checkPackLen_def checkLen_def Let_def)

subsection \<open>The check as a function of the bytes received\<close>

definition chk_len :: "bytes \<Rightarrow> int" where
  "chk_len d =
     (if length d < sizeof_head then 0
      else let len = sint (htonl (load_le (drop 4 d)))
           in if len < int sizeof_head \<or> len > 1024 * 1024 then -1
              else if len \<le> int (length d) then len else 0)"

lemma checkLen_data: "lb_inv c \<Longrightarrow> checkLen c = chk_len (lb_data c)"
  by (simp add: checkLen_def chk_len_def Let_def lb_peek_data lb_invD(4) load_head_def
      sizeof_head_def drop_take load_le_take)

subsection \<open>Splitting a byte stream into packets\<close>

text \<open>
  The specification of what a receiver does with the bytes of a stream, for any check \<open>chk\<close> of the
  contract of \<^verbatim>\<open>checkPackLen\<close> (negative: error, 0: wait, positive: the length of the packet in
  front): the packets in front, and the bytes that are left.
\<close>

function split_packets :: "(bytes \<Rightarrow> int) \<Rightarrow> bytes \<Rightarrow> bytes list \<times> bytes" where
  "split_packets chk d =
     (if 0 < chk d \<and> chk d \<le> int (length d)
      then (let (ps, r) = split_packets chk (drop (nat (chk d)) d) in (take (nat (chk d)) d # ps, r))
      else ([], d))"
  by pat_completeness auto
termination
  by (relation "measure (\<lambda>(chk, d). length d)") auto

declare split_packets.simps [simp del]

text \<open>Receiving in chunks: each chunk is put behind what the last one left.\<close>

definition feed_chunk :: "(bytes \<Rightarrow> int) \<Rightarrow> bytes list \<times> bytes \<Rightarrow> bytes \<Rightarrow> bytes list \<times> bytes" where
  "feed_chunk chk st chunk =
     (let (ps, r) = st; (qs, r') = split_packets chk (r @ chunk) in (ps @ qs, r'))"

text \<open>
  The contract of a framing check: it never announces more than there is, and its answer,
  once it is not "wait", does not change when more bytes arrive.
\<close>

locale framing =
  fixes chk :: "bytes \<Rightarrow> int"
  assumes fits: "chk d \<le> int (length d)"
    and stable: "chk d \<noteq> 0 \<Longrightarrow> chk (d @ e) = chk d"
begin

lemma split_pos:
  "0 < chk d \<Longrightarrow> split_packets chk d =
    (let (ps, r) = split_packets chk (drop (nat (chk d)) d) in (take (nat (chk d)) d # ps, r))"
  using fits [of d] by (subst split_packets.simps) simp

lemma split_stop: "chk d \<le> 0 \<Longrightarrow> split_packets chk d = ([], d)"
  by (subst split_packets.simps) simp

lemma split_append:
  "split_packets chk d = (ps, r) \<Longrightarrow> split_packets chk (r @ e) = (qs, r') \<Longrightarrow>
    split_packets chk (d @ e) = (ps @ qs, r')"
proof (induction d arbitrary: ps rule: length_induct)
  case (1 d)
  show ?case
  proof (cases "0 < chk d")
    case True
    let ?n = "nat (chk d)"
    have n: "0 < ?n" "?n \<le> length d" using True fits [of d] by linarith+
    obtain ps' where rest: "split_packets chk (drop ?n d) = (ps', r)" and ps: "ps = take ?n d # ps'"
      using "1.prems"(1) split_pos [OF True] by (auto simp: Let_def split: prod.splits)
    have "length (drop ?n d) < length d" using n by simp
    then have "split_packets chk (drop ?n d @ e) = (ps' @ qs, r')"
      using "1.IH" rest "1.prems"(2) by blast
    moreover have "chk (d @ e) = chk d" using True by (intro stable) simp
    ultimately show ?thesis using n ps split_pos [of "d @ e"] True by (simp add: Let_def)
  next
    case False
    with "1.prems" split_stop [of d] show ?thesis by simp
  qed
qed

text \<open>The packets do not depend on how the stream was cut into chunks.\<close>

lemma feed_chunks:
  "foldl (feed_chunk chk) (split_packets chk d) chunks = split_packets chk (d @ concat chunks)"
proof (induction chunks arbitrary: d)
  case (Cons c cs)
  obtain ps r where d: "split_packets chk d = (ps, r)" by fastforce
  obtain qs r' where rc: "split_packets chk (r @ c) = (qs, r')" by fastforce
  have "feed_chunk chk (split_packets chk d) c = split_packets chk (d @ c)"
    using split_append [OF d rc] rc by (simp add: feed_chunk_def d)
  with Cons.IH [of "d @ c"] show ?case by simp
qed simp

text \<open>A stream of packets, each of which the check measures exactly, is split into them.\<close>

lemma split_concat:
  assumes "\<forall>p \<in> set ps. p \<noteq> [] \<and> chk p = int (length p)" "chk r \<le> 0"
  shows "split_packets chk (concat ps @ r) = (ps, r)"
  using assms
proof (induction ps)
  case Nil
  then show ?case by (simp add: split_stop)
next
  case (Cons p ps)
  then have "chk (p @ concat ps @ r) = int (length p)" "0 < length p"
    by (auto simp: stable)
  with Cons show ?case by (simp add: split_pos Let_def)
qed

end

interpretation gpush: framing chk_len
proof
  show "chk_len d \<le> int (length d)" for d
    by (simp add: chk_len_def Let_def)
next
  fix d e :: bytes
  assume nz: "chk_len d \<noteq> 0"
  then have len: "sizeof_head \<le> length d" by (auto simp: chk_len_def split: if_splits)
  have "load_le (drop 4 (d @ e)) = load_le (drop 4 d)"
    using len load_le_take [of "length (drop 4 d)" "drop 4 d @ e"] by (simp add: sizeof_head_def)
  with nz len show "chk_len (d @ e) = chk_len d"
    by (auto simp: chk_len_def Let_def split: if_splits)
qed

subsection \<open>Constructed packets\<close>

lemma length_constructPacket [simp]: "length (constructPacket h body) = sizeof_head + length body"
  by (simp add: constructPacket_def Let_def sizeof_head_def)

lemma sint_of_nat_u32: "n < 2 ^ 31 \<Longrightarrow> sint (of_nat n :: u32) = int n"
  by (simp add: signed_of_nat signed_take_bit_int_eq_self)

lemma load_head_constructPacket:
  "load_head (constructPacket h body) =
    \<lparr>h_magic = h_magic h, h_len = htonl (of_nat (sizeof_head + length body)), h_cmd = htonl (h_cmd h)\<rparr>"
  using load_store_le [of "htonl (h_cmd h)" body]
  by (simp add: load_head_def constructPacket_def Let_def)

lemma chk_len_constructPacket:
  assumes "sizeof_head + length body \<le> 1024 * 1024"
  shows "chk_len (constructPacket h body) = int (length (constructPacket h body))"
proof -
  have "load_le (drop 4 (constructPacket h body)) = htonl (of_nat (sizeof_head + length body))"
    using load_head_constructPacket [of h body] by (simp add: load_head_def)
  moreover have "sint (of_nat (sizeof_head + length body) :: u32) = int (sizeof_head + length body)"
    using assms by (intro sint_of_nat_u32) simp
  ultimately show ?thesis using assms by (simp add: chk_len_def Let_def)
qed

lemma chk_len_oversize:
  assumes "1024 * 1024 < sizeof_head + length body" "sizeof_head + length body < 2 ^ 31"
  shows "chk_len (constructPacket h body) = -1"
proof -
  have "load_le (drop 4 (constructPacket h body)) = htonl (of_nat (sizeof_head + length body))"
    using load_head_constructPacket [of h body] by (simp add: load_head_def)
  moreover have "sint (of_nat (sizeof_head + length body) :: u32) = int (sizeof_head + length body)"
    using assms(2) by (intro sint_of_nat_u32) simp
  ultimately show ?thesis using assms by (simp add: chk_len_def Let_def)
qed



end
