(* ===== verification/Utility.thy ===== *)
theory Utility
  imports GP_Prelude
begin

text \<open>
  \<^verbatim>\<open>efnfw/base/ef_utility.cpp\<close>: \<open>trim\<close>, \<open>split\<close>, \<open>itostr\<close>, \<open>htonll\<close> and the arithmetic on
  \<^verbatim>\<open>struct timeval\<close>. An iterator into a string is an index. \<open>sleep_ms\<close> and \<open>gettime_ms\<close> only
  call the system and are not modelled.
\<close>

subsection \<open>trim\<close>

text \<open>\<^verbatim>\<open>iswspace\<close> in the "C" locale: blank, tab, newline, vertical tab, form feed, return.\<close>

definition iswspace :: "byte \<Rightarrow> bool" where
  "iswspace c \<longleftrightarrow> c \<in> {32, 9, 10, 11, 12, 13}"

text \<open>\<^verbatim>\<open>for (c = s.begin(); c != s.end() && iswspace(*c++););\<close> leaves \<open>c\<close> one behind the last character looked at.\<close>

function trim_scan :: "bytes \<Rightarrow> nat \<Rightarrow> nat" where
  "trim_scan s c =
     (if c < length s then (if iswspace (s ! c) then trim_scan s (Suc c) else Suc c) else c)"
  by pat_completeness auto
termination by (relation "measure (\<lambda>(s, c). length s - c)") auto

text \<open>\<^verbatim>\<open>for (c = s.end(); c != s.begin() && iswspace(*--c););\<close>\<close>

fun trim_scan_back :: "bytes \<Rightarrow> nat \<Rightarrow> nat" where
  "trim_scan_back s 0 = 0"
| "trim_scan_back s (Suc c) = (if iswspace (s ! c) then trim_scan_back s c else c)"

definition trim :: "bytes \<Rightarrow> bytes" where
  "trim s =
     (if s = [] then s
      else let c = trim_scan s 0;
               s = drop (c - 1) s;
               c = trim_scan_back s (length s)
           in take (c + 1) s)"

declare trim_scan.simps [simp del]

lemma trim_scan_shift: "trim_scan (x # s) (Suc c) = Suc (trim_scan s c)"
proof (induction s c rule: trim_scan.induct)
  case (1 s c)
  show ?case
    using 1 by (subst (1 2) trim_scan.simps) auto
qed

lemma trim_scan_0:
  "trim_scan s 0 = (if \<exists>x \<in> set s. \<not> iswspace x
    then Suc (length (takeWhile iswspace s)) else length s)"
proof (induction s)
  case Nil
  then show ?case by (subst trim_scan.simps) simp
next
  case (Cons x s)
  then show ?case by (subst trim_scan.simps) (auto simp: trim_scan_shift)
qed

lemma trim_scan_back_less: "0 < n \<Longrightarrow> trim_scan_back s n < n"
proof (induction n)
  case (Suc n)
  then show ?case by (cases n) (auto intro: less_SucI)
qed simp

lemma trim_scan_back_last:
  assumes "s \<noteq> []" "\<not> iswspace (hd s)"
  shows "take (Suc (trim_scan_back s (length s))) s = rev (dropWhile iswspace (rev s))"
  using assms
proof (induction s rule: rev_induct)
  case (snoc x s)
  have agree: "trim_scan_back (s @ [x]) n = trim_scan_back s n" if "n \<le> length s" for n
    using that by (induction n) (auto simp: nth_append)
  show ?case
  proof (cases "iswspace x")
    case True
    with snoc.prems have "s \<noteq> []" by (cases s) auto
    with snoc.prems have "\<not> iswspace (hd s)" by simp
    have "trim_scan_back s (length s) < length s"
      using \<open>s \<noteq> []\<close> by (intro trim_scan_back_less) simp
    with snoc.IH True agree [of "length s"] \<open>s \<noteq> []\<close> \<open>\<not> iswspace (hd s)\<close> show ?thesis by simp
  next
    case False
    then show ?thesis by simp
  qed
qed simp

text \<open>
  On a string with something in it, white space goes at both ends. On a string of white space
  only, the two scans meet at its last character, which stays.
\<close>

lemma trim_strips:
  assumes "\<exists>x \<in> set s. \<not> iswspace x"
  shows "trim s = rev (dropWhile iswspace (rev (dropWhile iswspace s)))"
proof -
  let ?s = "dropWhile iswspace s"
  have ne: "?s \<noteq> []" using assms by (simp add: dropWhile_eq_Nil_conv)
  then have "\<not> iswspace (hd ?s)" by (rule hd_dropWhile)
  moreover have "drop (trim_scan s 0 - 1) s = ?s"
    using assms by (simp add: trim_scan_0 dropWhile_eq_drop)
  moreover have "s \<noteq> []" using assms by auto
  ultimately show ?thesis
    using trim_scan_back_last [OF ne] by (simp add: trim_def Let_def del: length_drop)
qed

lemma trim_blank:
  assumes "s \<noteq> []" "\<forall>x \<in> set s. iswspace x"
  shows "trim s = [last s]"
proof -
  have "trim_scan s 0 = length s" using assms by (simp add: trim_scan_0)
  moreover have "drop (length s - 1) s = [last s]"
    using assms(1) by (cases s rule: rev_cases) auto
  ultimately show ?thesis using assms by (simp add: trim_def Let_def)
qed

subsection \<open>split\<close>

text \<open>
  The loop of \<open>split\<close> over what \<open>pos_begin\<close> still has before it. \<^verbatim>\<open>comma_pos\<close> is the next occurrence
  of the whole separator; an empty piece is not stored. \<open>NoFuel\<close>: the loop has not ended.
\<close>

fun split_loop :: "nat \<Rightarrow> bytes \<Rightarrow> bytes \<Rightarrow> bytes list \<Rightarrow> bytes list outcome" where
  "split_loop 0 rest sep ret = NoFuel"
| "split_loop (Suc fuel) rest sep ret =
     (case str_find rest sep of
        Some k \<Rightarrow>
          (let tmp = take k rest
           in split_loop fuel (drop (k + length sep) rest) sep (if tmp \<noteq> [] then ret @ [tmp] else ret))
      | None \<Rightarrow> Done (if rest \<noteq> [] then ret @ [rest] else ret))"

definition split_fuel :: "nat \<Rightarrow> bytes \<Rightarrow> bytes \<Rightarrow> bytes list outcome" where
  "split_fuel fuel str sep =
     (if str = [] then Done []
      else case find_first_not_of str sep of
             None \<Rightarrow> Done []
           | Some pos \<Rightarrow> split_loop fuel (drop pos str) sep [])"

definition split :: "bytes \<Rightarrow> bytes \<Rightarrow> bytes list outcome" where
  "split str sep = split_fuel (length str + 1) str sep"

lemma str_find_some_length:
  "str_find s sep = Some k \<Longrightarrow> k + length sep \<le> length s"
proof (induction s arbitrary: k)
  case Nil
  then show ?case by (subst (asm) str_find.simps) (auto split: if_splits)
next
  case (Cons x s)
  show ?case
  proof (cases "take (length sep) (x # s) = sep")
    case True
    then have "length sep \<le> length (x # s)" by (metis length_take min.cobounded1)
    with Cons.prems True show ?thesis by (subst (asm) str_find.simps) simp
  next
    case False
    with Cons.prems show ?thesis
      by (subst (asm) str_find.simps) (auto dest: Cons.IH)
  qed
qed

lemma split_loop_ends:
  "sep \<noteq> [] \<Longrightarrow> length rest < fuel \<Longrightarrow> \<exists>ps. split_loop fuel rest sep ret = Done ps"
proof (induction fuel arbitrary: rest ret)
  case (Suc fuel)
  show ?case
  proof (cases "str_find rest sep")
    case (Some k)
    with str_find_some_length [OF Some] Suc.prems
    have "length (drop (k + length sep) rest) < fuel"
      by (cases sep) auto
    with Suc.IH Suc.prems(1) Some show ?thesis by (simp add: Let_def)
  qed simp
qed simp

lemma split_ends: "sep \<noteq> [] \<Longrightarrow> \<exists>ps. split str sep = Done ps"
  using split_loop_ends [of sep]
  by (auto simp: split_def split_fuel_def split: option.splits)

text \<open>With an empty separator the loop finds it at its own position for ever.\<close>

lemma split_loop_empty_sep: "split_loop fuel rest [] ret = NoFuel"
proof (induction fuel arbitrary: ret)
  case (Suc fuel)
  then show ?case by (simp add: str_find.simps)
qed simp

lemma split_empty_sep: "str \<noteq> [] \<Longrightarrow> split_fuel fuel str [] = NoFuel"
  by (cases str) (simp_all add: split_fuel_def split_loop_empty_sep)

text \<open>With a one-character separator: the non-empty fields, in order.\<close>

fun fields :: "byte \<Rightarrow> bytes \<Rightarrow> bytes list" where
  "fields c s =
     (case str_find s [c] of None \<Rightarrow> [s]
      | Some k \<Rightarrow> take k s # (if k < length s then fields c (drop (Suc k) s) else []))"

declare fields.simps [simp del]

lemma str_find_single_lt: "str_find s [c] = Some k \<Longrightarrow> k < length s"
  using str_find_some_length [of s "[c]" k] by simp

lemma split_loop_fields:
  "length rest < fuel \<Longrightarrow>
    split_loop fuel rest [c] ret = Done (ret @ filter (\<lambda>p. p \<noteq> []) (fields c rest))"
proof (induction fuel arbitrary: rest ret)
  case (Suc fuel)
  show ?case
  proof (cases "str_find rest [c]")
    case None
    then show ?thesis by (subst fields.simps) simp
  next
    case (Some k)
    with str_find_single_lt [OF Some] Suc.prems have "length (drop (Suc k) rest) < fuel" by simp
    from Suc.IH [OF this] str_find_single_lt [OF Some] Some show ?thesis
      by (subst fields.simps) (simp add: Let_def)
  qed
qed simp

lemma fields_skip: "fields c (c # s) = [] # fields c s"
  by (subst fields.simps) simp

lemma fields_leading:
  "find_first_not_of s [c] = Some pos \<Longrightarrow>
    filter (\<lambda>p. p \<noteq> []) (fields c (drop pos s)) = filter (\<lambda>p. p \<noteq> []) (fields c s)"
proof (induction s arbitrary: pos)
  case (Cons x s)
  then show ?case by (auto simp: fields_skip split: if_splits)
qed simp

lemma fields_blank:
  "find_first_not_of s [c] = None \<Longrightarrow> filter (\<lambda>p. p \<noteq> []) (fields c s) = []"
proof (induction s)
  case Nil
  then show ?case by (subst fields.simps) simp
next
  case (Cons x s)
  then show ?case by (auto simp: fields_skip split: if_splits)
qed

lemma split_single:
  "split s [c] = Done (filter (\<lambda>p. p \<noteq> []) (fields c s))"
proof (cases "find_first_not_of s [c]")
  case None
  then show ?thesis by (simp add: split_def split_fuel_def fields_blank)
next
  case (Some pos)
  have "length (drop pos s) < length s + 1" by simp
  from split_loop_fields [OF this] have
    "split_loop (length s + 1) (drop pos s) [c] [] = Done (filter (\<lambda>p. p \<noteq> []) (fields c s))"
    by (simp add: fields_leading [OF Some] del: length_drop)
  with Some show ?thesis by (auto simp: split_def split_fuel_def)
qed

fun join_fields :: "byte \<Rightarrow> bytes list \<Rightarrow> bytes" where
  "join_fields c [] = []"
| "join_fields c [p] = p"
| "join_fields c (p # ps) = p @ c # join_fields c ps"

lemma fields_no_sep: "c \<notin> set p \<Longrightarrow> fields c p = [p]"
  by (subst fields.simps) (simp add: str_find_single_None [THEN iffD2])

lemma fields_append: "c \<notin> set p \<Longrightarrow> fields c (p @ c # s) = p # fields c s"
  by (subst fields.simps) (simp add: str_find_single_append)

lemma fields_join:
  "ps \<noteq> [] \<Longrightarrow> \<forall>p \<in> set ps. c \<notin> set p \<Longrightarrow> fields c (join_fields c ps) = ps"
  by (induction c ps rule: join_fields.induct) (simp_all add: fields_no_sep fields_append)

lemma split_join:
  assumes "\<forall>p \<in> set ps. p \<noteq> [] \<and> c \<notin> set p"
  shows "split (join_fields c ps) [c] = Done ps"
proof (cases "ps = []")
  case True
  then show ?thesis by (simp add: split_def split_fuel_def)
next
  case False
  have "filter (\<lambda>p. p \<noteq> []) ps = ps" using assms by (intro filter_True) blast
  with False assms show ?thesis by (simp add: split_single fields_join)
qed

text \<open>One field in front.\<close>

lemma split_field: "c \<notin> set p \<Longrightarrow> p \<noteq> [] \<Longrightarrow> split s [c] = Done ps \<Longrightarrow> split (p @ c # s) [c] = Done (p # ps)"
  by (auto simp: split_single fields_append)

lemma split_whole: "c \<notin> set p \<Longrightarrow> p \<noteq> [] \<Longrightarrow> split p [c] = Done [p]"
  by (simp add: split_single fields_no_sep)

lemma split_Nil: "split [] sep = Done []"
  by (simp add: split_def split_fuel_def)

text \<open>
  Splitting what was joined with a separator character gives the pieces back, provided they
  are not empty and do not hold the separator; the split always returns.
\<close>

theorem split_join_roundtrip:
  assumes "\<forall>p \<in> set ps. p \<noteq> [] \<and> c \<notin> set p"
  shows "split (join_fields c ps) [c] = Done ps"
  using assms by (rule split_join)

theorem split_join_roundtrip_witness:
  "split [49, 38, 50] [38] = Done [[49], [50]]"
  using split_join_roundtrip [of "[[49], [50]]" 38] by simp

subsection \<open>Numbers\<close>

text \<open>\<^verbatim>\<open>stringstream << i\<close>: the decimal digits, with a minus sign in front of a negative number.\<close>

fun nat_digits :: "nat \<Rightarrow> bytes" where
  "nat_digits n =
     (if n < 10 then [of_nat (48 + n)] else nat_digits (n div 10) @ [of_nat (48 + n mod 10)])"

declare nat_digits.simps [simp del]

definition itostr :: "int \<Rightarrow> bytes" where
  "itostr i = (if i < 0 then 45 # nat_digits (nat (- i)) else nat_digits (nat i))"

text \<open>
  \<^verbatim>\<open>atoi\<close> of the C library, which the callers read such numbers back with: an optional sign, then
  digits up to the first character that is none.
\<close>

fun atoi_digits :: "int \<Rightarrow> bytes \<Rightarrow> int" where
  "atoi_digits acc [] = acc"
| "atoi_digits acc (c # cs) =
     (if 48 \<le> uint c \<and> uint c \<le> 57 then atoi_digits (10 * acc + (uint c - 48)) cs else acc)"

definition atoi :: "bytes \<Rightarrow> int" where
  "atoi s =
     (case dropWhile iswspace s of
        [] \<Rightarrow> 0
      | c # cs \<Rightarrow> if c = 45 then - atoi_digits 0 cs
                  else if c = 43 then atoi_digits 0 cs
                  else atoi_digits 0 (c # cs))"

definition is_digit :: "byte \<Rightarrow> bool" where
  "is_digit c \<longleftrightarrow> 48 \<le> uint c \<and> uint c \<le> 57"

lemma uint_digit: "d < 10 \<Longrightarrow> uint (of_nat (48 + d) :: byte) = 48 + int d"
proof -
  assume "d < 10"
  then have "uint (word_of_int (48 + int d) :: byte) = 48 + int d"
    by (intro uint_word_of_int_byte) simp_all
  then show ?thesis by simp
qed

lemma nat_digits_digits: "\<forall>c \<in> set (nat_digits n). is_digit c"
proof (induction n rule: nat_digits.induct)
  case (1 n)
  show ?case
  proof (cases "n < 10")
    case True
    then show ?thesis
      using uint_digit [OF True] by (subst nat_digits.simps) (simp add: is_digit_def)
  next
    case False
    have "n mod 10 < 10" by simp
    from 1 [OF False] uint_digit [OF this] False show ?thesis
      by (subst nat_digits.simps) (auto simp: is_digit_def)
  qed
qed

lemma nat_digits_nonempty: "nat_digits n \<noteq> []"
  by (subst nat_digits.simps) simp

lemma length_nat_digits: "n < 10 ^ k \<Longrightarrow> length (nat_digits n) \<le> max 1 k"
proof (induction n arbitrary: k rule: nat_digits.induct)
  case (1 n)
  show ?case
  proof (cases "n < 10")
    case True
    then show ?thesis by (subst nat_digits.simps) simp
  next
    case False
    with "1.prems" obtain k' where k: "k = Suc k'" by (cases k) simp_all
    with "1.prems" have "n div 10 < 10 ^ k'" by (simp add: less_mult_imp_div_less mult.commute)
    with "1.IH" [OF False this] False k show ?thesis
      by (cases k') (subst nat_digits.simps; simp)+
  qed
qed

lemma atoi_digits_append:
  "\<forall>c \<in> set xs. is_digit c \<Longrightarrow> atoi_digits acc (xs @ ys) = atoi_digits (atoi_digits acc xs) ys"
  by (induction xs arbitrary: acc) (auto simp: is_digit_def)

lemma atoi_digits_nat_digits: "atoi_digits 0 (nat_digits n) = int n"
proof (induction n rule: nat_digits.induct)
  case (1 n)
  show ?case
  proof (cases "n < 10")
    case True
    then show ?thesis
      using uint_digit [OF True] by (subst nat_digits.simps) simp
  next
    case False
    have "n mod 10 < 10" by simp
    note d = uint_digit [OF this]
    have "atoi_digits 0 (nat_digits n) = atoi_digits (int (n div 10)) [of_nat (48 + n mod 10)]"
      using False 1 [OF False] nat_digits_digits [of "n div 10"]
      by (subst nat_digits.simps) (simp add: atoi_digits_append del: of_nat_add)
    also have "\<dots> = 10 * int (n div 10) + int (n mod 10)"
      using d by (simp del: of_nat_add)
    also have "\<dots> = int (10 * (n div 10) + n mod 10)" by (simp only: of_nat_add of_nat_mult of_nat_numeral)
    finally show ?thesis by simp
  qed
qed

lemma is_digit_not_space: "is_digit c \<Longrightarrow> \<not> iswspace c \<and> c \<noteq> 45 \<and> c \<noteq> 43"
  by (auto simp: is_digit_def iswspace_def)

lemma atoi_itostr: "atoi (itostr i) = i"
proof (cases "i < 0")
  case True
  then show ?thesis
    by (simp add: atoi_def itostr_def iswspace_def atoi_digits_nat_digits)
next
  case False
  obtain c cs where c: "nat_digits (nat i) = c # cs"
    using nat_digits_nonempty by (cases "nat_digits (nat i)") auto
  with nat_digits_digits [of "nat i"] is_digit_not_space [of c] False atoi_digits_nat_digits [of "nat i"]
  show ?thesis by (simp add: atoi_def itostr_def)
qed

text \<open>\<open>htonll\<close> on the eight bytes of its argument in memory: four swaps from the outside in.\<close>

definition htonll :: "bytes \<Rightarrow> bytes" where
  "htonll p = foldl (\<lambda>p i. let c = p ! i in (p[i := p ! (7 - i)])[7 - i := c]) p [0, 1, 2, 3]"

lemma htonll_rev: "length p = 8 \<Longrightarrow> htonll p = rev p"
  by (auto simp: htonll_def Let_def numeral_eq_Suc length_Suc_conv)

subsection \<open>Times\<close>

record timeval =
  tv_sec :: int
  tv_usec :: int

definition tv_diff_ms :: "timeval \<Rightarrow> timeval \<Rightarrow> int" where
  "tv_diff_ms t1 t2 = (tv_sec t1 - tv_sec t2) * 1000 + c_div (tv_usec t1 - tv_usec t2) 1000"

definition tv_diff :: "timeval \<Rightarrow> timeval \<Rightarrow> timeval" where
  "tv_diff t1 t2 =
     (let ret_sec = tv_sec t1 - tv_sec t2;
          (ret_sec, t1_usec) =
            (if tv_usec t1 < tv_usec t2 then (ret_sec - 1, tv_usec t1 + 1000000)
             else (ret_sec, tv_usec t1))
      in \<lparr>tv_sec = ret_sec, tv_usec = t1_usec - tv_usec t2\<rparr>)"

definition gettime_ms :: "timeval \<Rightarrow> int" where
  \<comment> \<open>of the time \<^verbatim>\<open>gettimeofday\<close> gave\<close>
  "gettime_ms tp = tv_sec tp * 1000 + c_div (tv_usec tp) 1000"

text \<open>A time in microseconds, and the normal form that the system delivers.\<close>

definition tv_us :: "timeval \<Rightarrow> int" where
  "tv_us t = tv_sec t * 1000000 + tv_usec t"

definition tv_ok :: "timeval \<Rightarrow> bool" where
  "tv_ok t \<longleftrightarrow> 0 \<le> tv_usec t \<and> tv_usec t < 1000000"

lemma tv_diff_exact:
  "tv_us (tv_diff t1 t2) = tv_us t1 - tv_us t2"
  "tv_ok t1 \<Longrightarrow> tv_ok t2 \<Longrightarrow> tv_ok (tv_diff t1 t2)"
  by (auto simp: tv_diff_def tv_us_def tv_ok_def Let_def)

text \<open>The millisecond difference is the exact one rounded towards its whole seconds.\<close>

lemma c_div_bounds:
  assumes "0 < b"
  shows "a - b < b * c_div a b" "b * c_div a b < a + b"
    "0 \<le> a \<Longrightarrow> b * c_div a b \<le> a" "a \<le> 0 \<Longrightarrow> a \<le> b * c_div a b"
proof -
  have pos: "x - b < b * (x div b) \<and> b * (x div b) \<le> x" for x
    using assms pos_mod_bound [of b x] pos_mod_sign [of b x] mult_div_mod_eq [of b x] by linarith
  show "a - b < b * c_div a b" "b * c_div a b < a + b"
    "0 \<le> a \<Longrightarrow> b * c_div a b \<le> a" "a \<le> 0 \<Longrightarrow> a \<le> b * c_div a b"
    using assms pos [of a] pos [of "- a"] by (cases "0 \<le> a"; simp add: c_div_neg)+
qed

lemma tv_diff_ms_bounds:
  "\<bar>1000 * tv_diff_ms t1 t2 - (tv_us t1 - tv_us t2)\<bar> < 1000"
  using c_div_bounds(1,2) [of 1000 "tv_usec t1 - tv_usec t2"]
  by (simp add: tv_diff_ms_def tv_us_def algebra_simps abs_less_iff)

end
