(* ===== verification/Sock.thy ===== *)
theory Sock
  imports Utility
begin

text \<open>
  \<^verbatim>\<open>efnfw/net/ef_sock.cpp\<close>: the address helpers and the non-blocking receive that feeds every
  connection. What the socket calls return is an argument: a script of the results of
  \<^verbatim>\<open>recv\<close>, and the list of interface addresses of \<^verbatim>\<open>getIPs\<close>. An \<^verbatim>\<open>in_addr_t\<close> is its four
  bytes in memory, in network order.
\<close>

subsection \<open>Addresses\<close>

type_synonym in_addr = "byte \<times> byte \<times> byte \<times> byte"

fun ipStr :: "in_addr \<Rightarrow> bytes" where
  "ipStr (p0, p1, p2, p3) =
     itostr (uint p0) @ bytes_of ''.'' @ itostr (uint p1) @ bytes_of ''.'' @
     itostr (uint p2) @ bytes_of ''.'' @ itostr (uint p3)"

text \<open>The overload on strings looks at the first field only; \<^verbatim>\<open>ret[0]\<close> of an empty vector is undefined.\<close>

definition isLocalIP_str :: "bytes \<Rightarrow> bool outcome" where
  "isLocalIP_str ip =
     bind_outcome (split ip (bytes_of ''.''))
       (\<lambda>ret. if ret = [] then Fault
              else Done (ret ! 0 = bytes_of ''10'' \<or> ret ! 0 = bytes_of ''172'' \<or> ret ! 0 = bytes_of ''192''))"

fun isLocalIP :: "in_addr \<Rightarrow> bool" where
  "isLocalIP (p0, p1, p2, p3) =
     (let fr1 = uint p0; fr2 = uint p1
      in if fr1 = 10 then True
         else if fr1 = 172 then 16 \<le> fr2 \<and> fr2 \<le> 31
         else if fr1 = 192 then fr2 = 168
         else False)"

text \<open>
  \<open>getLocalIPs\<close> and \<open>getPublicIPs\<close> filter the interface addresses; the array versions stop when
  the caller's array of \<open>asize\<close> entries is full.
\<close>

fun pick_ips :: "(in_addr \<Rightarrow> bool) \<Rightarrow> in_addr list \<Rightarrow> nat \<Rightarrow> nat \<Rightarrow> in_addr list" where
  "pick_ips p [] j asize = []"
| "pick_ips p (a # as) j asize =
     (if j < asize then (if p a then a # pick_ips p as (Suc j) asize else pick_ips p as j asize)
      else [])"

definition getLocalIPs :: "in_addr list \<Rightarrow> nat \<Rightarrow> in_addr list" where
  "getLocalIPs a asize = pick_ips isLocalIP a 0 asize"

definition getPublicIPs :: "in_addr list \<Rightarrow> nat \<Rightarrow> in_addr list" where
  "getPublicIPs a asize = pick_ips (\<lambda>x. \<not> isLocalIP x) a 0 asize"

definition getIPs_str :: "in_addr list \<Rightarrow> bytes list" where
  "getIPs_str addrs = map ipStr addrs"

definition getLocalIPs_str :: "in_addr list \<Rightarrow> bytes list" where
  "getLocalIPs_str addrs = map ipStr (filter isLocalIP addrs)"

definition getPublicIPs_str :: "in_addr list \<Rightarrow> bytes list" where
  "getPublicIPs_str addrs = map ipStr (filter (\<lambda>a. \<not> isLocalIP a) addrs)"

lemma pick_ips_take: "j \<le> asize \<Longrightarrow> pick_ips p as j asize = take (asize - j) (filter p as)"
proof (induction as arbitrary: j)
  case (Cons a as)
  show ?case
  proof (cases "j < asize")
    case True
    then have "asize - j = Suc (asize - Suc j)" by simp
    with Cons True show ?thesis by simp
  qed (use Cons.prems in simp)
qed simp

lemma nat_digits_no_dot: "46 \<notin> set (nat_digits n)"
  using nat_digits_digits [of n] by (auto simp: is_digit_def)

lemma itostr_byte: "itostr (uint (b::byte)) = nat_digits (nat (uint b))"
  using uint_byte_range [of b] by (simp add: itostr_def del: uint_byte_range)

text \<open>The first field of a printed address is its first number.\<close>

lemma split_ipStr:
  "split (ipStr (p0, p1, p2, p3)) (bytes_of ''.'') =
    Done [itostr (uint p0), itostr (uint p1), itostr (uint p2), itostr (uint p3)]"
  using split_join [of "[itostr (uint p0), itostr (uint p1), itostr (uint p2), itostr (uint p3)]" 46]
  by (simp add: itostr_byte nat_digits_nonempty nat_digits_no_dot)

lemma isLocalIP_str_ipStr:
  "isLocalIP_str (ipStr (p0, p1, p2, p3)) = Done (uint p0 \<in> {10, 172, 192})"
proof -
  have inj: "itostr (uint p0) = itostr i \<longleftrightarrow> uint p0 = i" for i
    using atoi_itostr by metis
  have lits: "bytes_of ''10'' = itostr 10" "bytes_of ''172'' = itostr 172" "bytes_of ''192'' = itostr 192"
    by (simp_all add: itostr_def nat_digits.simps)
  show ?thesis
    unfolding isLocalIP_str_def split_ipStr by (simp add: lits inj del: bytes_of_simps)
qed

text \<open>
  The address test is right on the private ranges of RFC 1918; the string test says yes to all of
  10/8, 172/8 and 192/8, so it accepts every local address and some public ones.
\<close>

lemma isLocalIP_implies_str:
  "isLocalIP a \<Longrightarrow> isLocalIP_str (ipStr a) = Done True"
  by (cases a) (auto simp: isLocalIP_str_ipStr Let_def simp del: ipStr.simps split: if_splits)

lemma isLocalIP_str_disagrees:
  "isLocalIP_str (ipStr (172, 1, 0, 1)) = Done True" "\<not> isLocalIP (172, 1, 0, 1)"
  by (simp_all add: isLocalIP_str_ipStr Let_def del: ipStr.simps)

lemma isLocalIP_str_empty: "isLocalIP_str [] = Fault"
  by (simp add: isLocalIP_str_def split_def split_fuel_def)

lemma getLocalIPs_spec: "getLocalIPs a asize = take asize (filter isLocalIP a)"
  by (simp add: getLocalIPs_def pick_ips_take)

lemma getPublicIPs_spec: "getPublicIPs a asize = take asize (filter (\<lambda>x. \<not> isLocalIP x) a)"
  by (simp add: getPublicIPs_def pick_ips_take)

subsection \<open>The non-blocking receive\<close>

datatype recv_result = RecvData bytes | RecvClosed | RecvIntr | RecvAgain | RecvError

text \<open>
  \<open>tcpNbReceive fd bufsize\<close> runs \<^verbatim>\<open>recv\<close> until the buffer is full, the socket has no more data, the
  peer has closed or an error occurs. The script gives what each \<^verbatim>\<open>recv\<close> returns, at most as much as
  the space offered; the result is the value returned and the bytes stored so far
  (\<^verbatim>\<open>*actrcvnum\<close> is their number).
\<close>

fun nb_recv_loop :: "recv_result list \<Rightarrow> nat \<Rightarrow> bytes \<Rightarrow> (int \<times> bytes) outcome" where
  "nb_recv_loop [] bufsize got = NoFuel"
| "nb_recv_loop (r # rs) bufsize got =
     (case r of
        RecvData bs \<Rightarrow>
          (let bs = take bufsize bs; got = got @ bs
           in if bufsize - length bs > 0 then nb_recv_loop rs (bufsize - length bs) got
              else Done (int (length got), got))
      | RecvClosed \<Rightarrow> Done (-1, got)
      | RecvIntr \<Rightarrow> nb_recv_loop rs bufsize got
      | RecvAgain \<Rightarrow> Done (int (length got), got)
      | RecvError \<Rightarrow> Done (-1, got))"

definition tcpNbReceive :: "bool \<Rightarrow> recv_result list \<Rightarrow> nat \<Rightarrow> (int \<times> bytes) outcome" where
  "tcpNbReceive fd_valid rs bufsize =
     (if \<not> fd_valid \<or> bufsize = 0 then Done (-1, []) else nb_recv_loop rs bufsize [])"

lemma nb_recv_loop_extends:
  "nb_recv_loop rs n got = Done (ret, out) \<Longrightarrow>
    \<exists>bs. out = got @ bs \<and> length bs \<le> n \<and> (ret = -1 \<or> ret = int (length out))"
proof (induction rs arbitrary: n got)
  case (Cons r rs)
  show ?case
  proof (cases r)
    case (RecvData bs)
    show ?thesis
    proof (cases "length bs < n")
      case True
      then have "nb_recv_loop rs (n - length bs) (got @ bs) = Done (ret, out)"
        using RecvData Cons.prems by (simp add: Let_def)
      from Cons.IH [OF this] obtain bs' where
        "out = got @ bs @ bs'" "length bs' \<le> n - length bs" "ret = -1 \<or> ret = int (length out)" by auto
      with True show ?thesis by (intro exI [of _ "bs @ bs'"]) auto
    next
      case False
      with RecvData Cons.prems show ?thesis by (auto simp: Let_def)
    qed
  qed (use Cons in auto)
qed simp

lemma tcpNbReceive_fits:
  "tcpNbReceive v rs n = Done (ret, out) \<Longrightarrow> length out \<le> n \<and> (ret = -1 \<or> ret = int (length out))"
  by (auto simp: tcpNbReceive_def split: if_splits dest: nb_recv_loop_extends)

text \<open>
  Data that arrives together with the end of the stream is stored but reported as an error: the
  caller sees -1.
\<close>

lemma tcpNbReceive_data_then_close:
  "length bs < n \<Longrightarrow> tcpNbReceive True [RecvData bs, RecvClosed] n = Done (-1, bs)"
  by (simp add: tcpNbReceive_def Let_def)

lemma tcpNbReceive_data_then_wait:
  "length bs < n \<Longrightarrow> tcpNbReceive True [RecvData bs, RecvAgain] n = Done (int (length bs), bs)"
  by (simp add: tcpNbReceive_def Let_def)

end
