(* ===== verification/Connection.thy ===== *)
theory Connection
  imports Wire Sock
begin

unbundle bit_operations_syntax

text \<open>
  \<^verbatim>\<open>efnfw/net/ef_connection.cpp\<close> with the notification part of \<^verbatim>\<open>ef_device.cpp\<close>: receiving and
  splitting into packets, and the outgoing queue. System calls are arguments: the results of
  \<^verbatim>\<open>send\<close> and \<^verbatim>\<open>recv\<close> are scripts, the result of the one \<^verbatim>\<open>epoll_ctl\<close> of an operation a number.
  What \<^verbatim>\<open>send\<close> takes goes to the wire, which an operation returns. The timers of a connection
  are in the theory \<open>Timers\<close>.
\<close>

definition READ_EVENT :: int where "READ_EVENT = 1"
definition WRITE_EVENT :: int where "WRITE_EVENT = 2"
definition FLAG_NULL :: int where "FLAG_NULL = 0"
definition FLAG_SAFE_CLOSE :: int where "FLAG_SAFE_CLOSE = 1"

record con =
  c_id :: int
  c_fd_valid :: bool
  c_noti :: int
  c_buf :: loop_buf
  c_send_buf :: loop_buf
  c_flag :: int
  c_rd_shut :: bool

definition Connection_init :: "int \<Rightarrow> con" where
  "Connection_init i =
     \<lparr>c_id = i, c_fd_valid = False, c_noti = 0, c_buf = LoopBuf, c_send_buf = LoopBuf,
      c_flag = FLAG_NULL, c_rd_shut = False\<rparr>"

text \<open>
  \<open>Device\<close>: the mask is remembered only when \<^verbatim>\<open>epoll_ctl\<close> (its result is \<open>ctl\<close>) accepted it.
\<close>

definition addNotify :: "con \<Rightarrow> int \<Rightarrow> int \<Rightarrow> con \<times> int" where
  "addNotify c noti ctl = (if ctl < 0 then (c, ctl) else (c\<lparr>c_noti := noti\<rparr>, ctl))"

definition clearNotify :: "con \<Rightarrow> int \<Rightarrow> con \<times> int" where
  "clearNotify c ctl = (if ctl < 0 then (c, ctl) else (c\<lparr>c_noti := 0\<rparr>, ctl))"

definition modifyNotify :: "con \<Rightarrow> int \<Rightarrow> int \<Rightarrow> con \<times> int" where
  "modifyNotify c noti ctl = (if ctl < 0 then (c, ctl) else (c\<lparr>c_noti := noti\<rparr>, ctl))"

subsection \<open>Sending\<close>

datatype errno = E_INTR | E_AGAIN | E_OTHER

text \<open>The value \<^verbatim>\<open>send\<close> returns and the \<^verbatim>\<open>errno\<close> found after it (a stale one when nothing failed).\<close>

type_synonym send_result = "int \<times> errno"

fun send_sock :: "send_result list \<Rightarrow> nat \<Rightarrow> (int \<times> send_result list) outcome" where
  "send_sock [] len = NoFuel"
| "send_sock ((r, e) # rs) len =
     (let ret = min r (int len)
      in if ret > 0 then Done (ret, rs)
         else (case e of
                 E_INTR \<Rightarrow> send_sock rs len
               | E_AGAIN \<Rightarrow> Done (0, rs)
               | E_OTHER \<Rightarrow> Done (-1, rs)))"

text \<open>
  The loop of \<open>doSend\<close>: send what the first frame holds, drop what went out, go on while whole
  frames go out. Result: the value returned, the queue, the rest of the script, the wire.
\<close>

fun doSend_loop :: "nat \<Rightarrow> loop_buf \<Rightarrow> send_result list \<Rightarrow> int \<Rightarrow> bytes \<Rightarrow>
    (int \<times> loop_buf \<times> send_result list \<times> bytes) outcome" where
  "doSend_loop 0 sb rs sendlen wire = NoFuel"
| "doSend_loop (Suc fuel) sb rs sendlen wire =
     (let len = firstFrameLen sb
      in bind_outcome (send_sock rs len)
        (\<lambda>(ret, rs).
           if ret < 0 then Done (ret, sb, rs, wire)
           else
             let wire = wire @ take (nat ret) (firstFrameData sb);
                 sendlen = sendlen + ret
             in bind_outcome (lb_read sb True (nat ret))
               (\<lambda>(sb, _).
                  if ret < int len then Done (sendlen, sb, rs, wire)
                  else if ret > 0 then doSend_loop fuel sb rs sendlen wire
                  else Done (sendlen, sb, rs, wire))))"

definition doSend :: "loop_buf \<Rightarrow> send_result list \<Rightarrow>
    (int \<times> loop_buf \<times> send_result list \<times> bytes) outcome" where
  "doSend sb rs =
     (if firstFrameLen sb > 0 then doSend_loop (length rs + 1) sb rs 0 []
      else Done (0, sb, rs, []))"

text \<open>
  \<open>sendMessage\<close>: while the connection waits for \<^verbatim>\<open>WRITE_EVENT\<close> the message is queued; otherwise it is
  sent at once and what \<^verbatim>\<open>send\<close> did not take is queued and \<^verbatim>\<open>WRITE_EVENT\<close> asked for.
\<close>

definition sendMessage :: "con \<Rightarrow> bytes \<Rightarrow> send_result list \<Rightarrow> int \<Rightarrow>
    (int \<times> con \<times> send_result list \<times> bytes) outcome" where
  "sendMessage c msg rs ctl =
     (if c_noti c AND WRITE_EVENT \<noteq> 0
      then Done (0, c\<lparr>c_send_buf := fst (autoResizeWrite (c_send_buf c) msg (length msg))\<rparr>, rs, [])
      else bind_outcome (send_sock rs (length msg))
        (\<lambda>(ret, rs).
           if ret < 0 then Done (ret, c, rs, [])
           else if ret \<ge> int (length msg) then Done (ret, c, rs, take (nat ret) msg)
           else
             let rest = drop (nat ret) msg;
                 c = c\<lparr>c_send_buf := fst (autoResizeWrite (c_send_buf c) rest (length msg - nat ret))\<rparr>;
                 (c, _) = modifyNotify c (READ_EVENT OR WRITE_EVENT) ctl
             in Done (ret, c, rs, take (nat ret) msg)))"

definition handleWrite :: "con \<Rightarrow> send_result list \<Rightarrow> int \<Rightarrow>
    (int \<times> con \<times> send_result list \<times> bytes) outcome" where
  "handleWrite c rs ctl =
     bind_outcome (doSend (c_send_buf c) rs)
       (\<lambda>(ret, sb, rs, wire).
          let c = c\<lparr>c_send_buf := sb\<rparr>
          in if ret < 0 then Done (ret, c, rs, wire)
             else if lb_size (c_send_buf c) = 0 then
               (if c_flag c = FLAG_SAFE_CLOSE then Done (-2, c, rs, wire)
                else Done (ret, fst (modifyNotify c READ_EVENT ctl), rs, wire))
             else Done (ret, c, rs, wire))"

text \<open>
  \<open>safeClose\<close> of a connection that an event loop owns: an empty queue recycles it at once
  (\<open>None\<close>), otherwise it stops reading and drains the queue under \<^verbatim>\<open>FLAG_SAFE_CLOSE\<close>.
\<close>

definition safeClose :: "con \<Rightarrow> send_result list \<Rightarrow> int \<Rightarrow>
    (int \<times> con option \<times> send_result list \<times> bytes) outcome" where
  "safeClose c rs ctl =
     (if lb_size (c_send_buf c) = 0 then Done (0, None, rs, [])
      else
        let (c, _) = modifyNotify c WRITE_EVENT ctl;
            c = c\<lparr>c_rd_shut := True\<rparr>;
            c = c\<lparr>c_flag := FLAG_SAFE_CLOSE\<rparr>
        in bind_outcome (doSend (c_send_buf c) rs)
          (\<lambda>(ret, sb, rs, wire). Done (ret, Some (c\<lparr>c_send_buf := sb\<rparr>), rs, wire)))"

subsection \<open>Receiving\<close>

text \<open>
  The inner loop of \<open>handleRead\<close>: packets are taken off the buffer while \<open>checkPackLen\<close> announces
  one. \<open>Inl ret\<close>: the function returns \<open>ret\<close> from inside the loop; \<open>Inr ret\<close>: the loop was left
  by \<^verbatim>\<open>break\<close> and \<open>ret\<close> holds the last handler's result. The handler works on the rest of the
  program's state.
\<close>

fun packet_loop :: "nat \<Rightarrow> (loop_buf \<Rightarrow> int) \<Rightarrow> ('a \<Rightarrow> bytes \<Rightarrow> 'a \<times> int) \<Rightarrow> loop_buf \<Rightarrow> 'a \<Rightarrow> int \<Rightarrow>
    (loop_buf \<times> 'a \<times> (int + int)) outcome" where
  "packet_loop 0 check handle buf a ret = NoFuel"
| "packet_loop (Suc fuel) check handle buf a ret =
     (let len = check buf
      in if len < 0 then Done (buf, a, Inl len)
         else if len = 0 then Done (buf, a, Inr ret)
         else bind_outcome (lb_read buf False (nat len))
           (\<lambda>(buf, req).
              let (a, ret) = handle a req
              in if ret < 0 then Done (buf, a, Inl ret)
                 else packet_loop fuel check handle buf a ret))"

text \<open>
  \<open>handleRead\<close> as it is built (\<^verbatim>\<open>READ_ALL\<close> is not defined): one \<open>tcpNbReceive\<close> into the free part of
  the write frame, extended by 16 KB when that is full. Each packet takes at least one byte, so
  the buffered bytes and one more turn are fuel enough.
\<close>

definition handleRead :: "(loop_buf \<Rightarrow> int) \<Rightarrow> ('a \<Rightarrow> bytes \<Rightarrow> 'a \<times> int) \<Rightarrow> con \<Rightarrow> 'a \<Rightarrow>
    recv_result list \<Rightarrow> (con \<times> 'a \<times> int) outcome" where
  "handleRead check handle c a rs =
     (let buf = (if freeFrameLen (c_buf c) = 0 then lb_extend (c_buf c) (16 * 1024) else c_buf c);
          wantlen = freeFrameLen buf
      in bind_outcome (tcpNbReceive (c_fd_valid c) rs wantlen)
        (\<lambda>(ret, got).
           let buf = freeFrameBuf_store buf got; actrcv = length got
           in if ret < 0 \<or> actrcv = 0 then Done (c\<lparr>c_buf := buf\<rparr>, a, -1)
              else bind_outcome (lb_write_null buf actrcv)
                (\<lambda>buf. bind_outcome (packet_loop (lb_size buf + 1) check handle buf a ret)
                   (\<lambda>(buf, a, res). case res of
                      Inl r \<Rightarrow> Done (c\<lparr>c_buf := buf\<rparr>, a, r)
                    | Inr r \<Rightarrow> Done (c\<lparr>c_buf := buf\<rparr>, a, r)))))"

subsection \<open>What a send takes\<close>

lemma send_sock_range:
  "send_sock rs len = Done (ret, rs') \<Longrightarrow> -1 \<le> ret \<and> ret \<le> int len \<and> length rs' < length rs"
  by (induction rs len rule: send_sock.induct) (force simp: Let_def split: if_splits errno.splits)+

text \<open>The entries of a script that end a call of \<open>send_sock\<close> whatever their first component.\<close>

abbreviation ends_call :: "send_result \<Rightarrow> bool" where
  "ends_call r \<equiv> snd r \<noteq> E_INTR"

lemma send_sock_done:
  "filter ends_call rs \<noteq> [] \<Longrightarrow> \<exists>ret rs'. send_sock rs len = Done (ret, rs')
    \<and> length (filter ends_call rs) \<le> Suc (length (filter ends_call rs'))"
  by (induction rs len rule: send_sock.induct) (auto simp: Let_def split: errno.splits)

lemma send_sock_no_fault [simp]: "send_sock rs len \<noteq> Fault"
  by (induction rs len rule: send_sock.induct) (auto simp: Let_def split: errno.splits)

subsection \<open>Draining the queue\<close>

text \<open>One turn of the loop drops from the queue exactly the bytes that \<^verbatim>\<open>send\<close> took.\<close>

lemma drop_sent:
  assumes "lb_inv sb" "n \<le> firstFrameLen sb"
  shows "\<exists>sb'. lb_read sb True n = Done (sb', take n (lb_data sb)) \<and> lb_inv sb'
    \<and> lb_data sb' = drop n (lb_data sb) \<and> take n (firstFrameData sb) = take n (lb_data sb)"
proof -
  note F = firstFrame_data [OF assms(1)]
  have "n \<le> length (lb_data sb)" using assms(2) F(2) by simp
  from lb_read_done [OF assms(1) this] show ?thesis
    using lb_read_null_first [OF assms] assms(2) by (auto simp: F(1) min_absorb1)
qed

lemma doSend_loop_stream:
  assumes "doSend_loop fuel sb rs n wire = Done (ret, sb', rs', wire')" "lb_inv sb"
  shows "\<exists>sent. wire' = wire @ sent \<and> lb_data sb = sent @ lb_data sb' \<and> lb_inv sb'
    \<and> (ret \<ge> 0 \<longrightarrow> 0 \<le> n \<longrightarrow> ret = n + int (length sent))"
  using assms
proof (induction fuel arbitrary: sb rs n wire)
  case (Suc fuel)
  let ?len = "firstFrameLen sb"
  from Suc.prems(1) obtain k rs1 where snd: "send_sock rs ?len = Done (k, rs1)"
    by (cases "send_sock rs ?len") (auto simp: Let_def)
  note R = send_sock_range [OF snd]
  show ?case
  proof (cases "k < 0")
    case True
    with Suc.prems snd show ?thesis by (auto simp: Let_def)
  next
    case False
    then have k: "nat k \<le> ?len" using R by linarith
    from drop_sent [OF Suc.prems(2) k] obtain sb1 where sb1:
      "lb_read sb True (nat k) = Done (sb1, take (nat k) (lb_data sb))" "lb_inv sb1"
      "lb_data sb1 = drop (nat k) (lb_data sb)"
      "take (nat k) (firstFrameData sb) = take (nat k) (lb_data sb)" by blast
    let ?s = "take (nat k) (lb_data sb)"
    have lens: "length ?s = nat k" using k firstFrame_data(2) [OF Suc.prems(2)] by simp
    have split: "lb_data sb = ?s @ lb_data sb1" by (simp add: sb1(3))
    show ?thesis
    proof (cases "k < int ?len \<or> k = 0")
      case True
      with Suc.prems(1) snd sb1 False have
        "ret = n + k \<and> sb' = sb1 \<and> rs' = rs1 \<and> wire' = wire @ ?s"
        by (auto simp: Let_def split: if_splits)
      with split lens sb1(2) False show ?thesis by auto
    next
      case go: False
      with Suc.prems(1) snd sb1 False have
        "doSend_loop fuel sb1 rs1 (n + k) (wire @ ?s) = Done (ret, sb', rs', wire')"
        by (auto simp: Let_def split: if_splits)
      from Suc.IH [OF this sb1(2)] obtain sent where
        "wire' = wire @ ?s @ sent" "lb_data sb1 = sent @ lb_data sb'" "lb_inv sb'"
        "ret \<ge> 0 \<longrightarrow> 0 \<le> n + k \<longrightarrow> ret = n + k + int (length sent)" by auto
      with split lens False show ?thesis
        by (intro exI [of _ "?s @ sent"]) auto
    qed
  qed
qed simp

lemma doSend_stream:
  assumes "doSend sb rs = Done (ret, sb', rs', wire)" "lb_inv sb"
  shows "lb_data sb = wire @ lb_data sb'" "lb_inv sb'" "ret \<ge> 0 \<Longrightarrow> ret = int (length wire)"
  using assms doSend_loop_stream [of "length rs + 1" sb rs 0 "[]" ret sb' rs' wire]
  by (auto simp: doSend_def split: if_splits)

text \<open>
  The loop ends: each turn takes an entry of the script, and a turn that is not the last sends
  at least one byte, so a script with more than \<open>length (lb_data sb)\<close> entries that are no
  interrupts is enough.
\<close>

lemma doSend_loop_done:
  assumes "lb_inv sb" "length rs < fuel" "length (lb_data sb) < length (filter ends_call rs)"
  shows "\<exists>r. doSend_loop fuel sb rs n wire = Done r"
  using assms
proof (induction fuel arbitrary: sb rs n wire)
  case (Suc fuel)
  let ?len = "firstFrameLen sb"
  have "filter ends_call rs \<noteq> []" using Suc.prems(3) by auto
  from send_sock_done [OF this, of ?len] obtain k rs1 where
    snd: "send_sock rs ?len = Done (k, rs1)"
    and more: "length (filter ends_call rs) \<le> Suc (length (filter ends_call rs1))" by blast
  note R = send_sock_range [OF snd]
  show ?case
  proof (cases "k < 0")
    case True
    with snd show ?thesis by (simp add: Let_def)
  next
    case False
    then have k: "nat k \<le> ?len" using R by linarith
    from drop_sent [OF Suc.prems(1) k] obtain sb1 where sb1:
      "lb_read sb True (nat k) = Done (sb1, take (nat k) (lb_data sb))" "lb_inv sb1"
      "lb_data sb1 = drop (nat k) (lb_data sb)" by blast
    show ?thesis
    proof (cases "k < int ?len \<or> k = 0")
      case True
      with snd sb1(1) False show ?thesis by (auto simp: Let_def)
    next
      case go: False
      have "?len \<le> length (lb_data sb)" using firstFrame_data(2) [OF Suc.prems(1)] .
      then have "0 < nat k" "nat k \<le> length (lb_data sb)" using go False k by linarith+
      then have "length (lb_data sb1) < length (lb_data sb)" by (simp add: sb1(3))
      then have enough: "length (lb_data sb1) < length (filter ends_call rs1)" and fl: "length rs1 < fuel"
        using more Suc.prems(2,3) R by linarith+
      from Suc.IH [OF sb1(2) fl enough] go False snd sb1(1) show ?thesis
        by (auto simp: Let_def)
    qed
  qed
qed simp

lemma doSend_done:
  assumes "lb_inv sb" "length (lb_data sb) < length (filter ends_call rs)"
  shows "\<exists>r. doSend sb rs = Done r"
  using doSend_loop_done [of sb rs "length rs + 1"] assms by (simp add: doSend_def)

subsection \<open>The outgoing side as a state machine\<close>

text \<open>
  A message fits when the extension that takes what the frames have no room for is as large as
  it has to be (theory \<open>LoopBuf\<close>); messages of up to 2016 bytes always fit.
\<close>

definition queue_fits :: "loop_buf \<Rightarrow> bytes \<Rightarrow> bool" where
  "queue_fits sb bs \<longleftrightarrow> (length bs - snd (lb_write sb bs (length bs))) mod 2048 \<le> 2016"

definition msg_fits :: "loop_buf \<Rightarrow> bytes \<Rightarrow> bool" where
  "msg_fits sb msg \<longleftrightarrow> (\<forall>k \<in> {0..<length msg}. queue_fits sb (drop k msg))"

lemma short_msg_fits: "length msg \<le> 2016 \<Longrightarrow> msg_fits sb msg"
  by (auto simp: msg_fits_def queue_fits_def)

lemma queue_write:
  "lb_inv sb \<Longrightarrow> queue_fits sb bs \<Longrightarrow>
    lb_inv (fst (autoResizeWrite sb bs (length bs))) \<and>
    lb_data (fst (autoResizeWrite sb bs (length bs))) = lb_data sb @ bs"
  by (simp add: queue_fits_def autoResizeWrite_lossless autoResizeWrite_inv)

text \<open>
  The invariant of the outgoing side: while bytes are queued the connection waits for
  \<^verbatim>\<open>WRITE_EVENT\<close>, so nothing is sent past the queue and the loop will drain it.
\<close>

definition con_ok :: "con \<Rightarrow> bool" where
  "con_ok c \<longleftrightarrow> lb_inv (c_send_buf c) \<and>
     (lb_data (c_send_buf c) \<noteq> [] \<longrightarrow> c_noti c AND WRITE_EVENT \<noteq> 0)"

lemma con_okD:
  "con_ok c \<Longrightarrow> lb_inv (c_send_buf c)"
  "con_ok c \<Longrightarrow> c_noti c AND WRITE_EVENT = 0 \<Longrightarrow> lb_data (c_send_buf c) = []"
  by (auto simp: con_ok_def)

lemma event_bits [simp]:
  "(READ_EVENT OR WRITE_EVENT) AND WRITE_EVENT \<noteq> 0" "WRITE_EVENT \<noteq> 0"
  by (simp_all add: READ_EVENT_def WRITE_EVENT_def)

lemma Connection_init_ok: "con_ok (Connection_init i)"
  by (simp add: con_ok_def Connection_init_def)

lemma sendMessage_stream:
  assumes "sendMessage c msg rs ctl = Done (ret, c', rs', wire)" "con_ok c" "0 \<le> ret" "0 \<le> ctl"
    and fits: "msg_fits (c_send_buf c) msg"
  shows "con_ok c'" "wire @ lb_data (c_send_buf c') = lb_data (c_send_buf c) @ msg"
proof -
  note inv = con_okD(1) [OF assms(2)]
  have "con_ok c' \<and> wire @ lb_data (c_send_buf c') = lb_data (c_send_buf c) @ msg"
  proof (cases "c_noti c AND WRITE_EVENT = 0")
    case False
    moreover have "msg = [] \<or> queue_fits (c_send_buf c) msg"
      using fits by (cases msg) (auto simp: msg_fits_def dest: bspec [of _ _ 0])
    ultimately show ?thesis
      using assms(1) queue_write [OF inv, of msg] queue_write [OF inv, of "[]"]
      by (auto simp: sendMessage_def con_ok_def queue_fits_def)
  next
    case True
    note empty = con_okD(2) [OF assms(2) True]
    obtain k rs1 where snd: "send_sock rs (length msg) = Done (k, rs1)"
      using assms(1) True by (cases "send_sock rs (length msg)") (auto simp: sendMessage_def)
    note R = send_sock_range [OF snd]
    show ?thesis
    proof (cases "k < 0 \<or> int (length msg) \<le> k")
      case True
      with assms(1,2,3) \<open>c_noti c AND WRITE_EVENT = 0\<close> snd empty R show ?thesis
        by (auto simp: sendMessage_def split: if_splits)
    next
      case False
      then have k: "0 \<le> k" "nat k < length msg" by linarith+
      have "queue_fits (c_send_buf c) (drop (nat k) msg)" using fits k by (simp add: msg_fits_def)
      from queue_write [OF inv this] show ?thesis
        using assms(1,4) True snd False k empty
        by (auto simp: sendMessage_def modifyNotify_def Let_def con_ok_def)
    qed
  qed
  then show "con_ok c'" "wire @ lb_data (c_send_buf c') = lb_data (c_send_buf c) @ msg" by blast+
qed

lemma handleWrite_stream:
  assumes "handleWrite c rs ctl = Done (ret, c', rs', wire)" "con_ok c" "0 \<le> ctl"
  shows "con_ok c'" "wire @ lb_data (c_send_buf c') = lb_data (c_send_buf c)"
proof -
  obtain k sb rs1 w where d: "doSend (c_send_buf c) rs = Done (k, sb, rs1, w)"
    using assms(1) by (cases "doSend (c_send_buf c) rs") (auto simp: handleWrite_def)
  note S = doSend_stream [OF d con_okD(1) [OF assms(2)]]
  have size: "lb_size sb = length (lb_data sb)" using S(2) by (rule lb_invD(4))
  have "con_ok c' \<and> wire @ lb_data (c_send_buf c') = lb_data (c_send_buf c)"
  proof (cases "lb_data sb = []")
    case True
    with assms(1,3) d S size show ?thesis
      by (auto simp: handleWrite_def Let_def modifyNotify_def con_ok_def split: if_splits)
  next
    case False
    then have "c_noti c AND WRITE_EVENT \<noteq> 0" using S(1) assms(2) by (auto simp: con_ok_def)
    with assms(1) d S size False show ?thesis
      by (auto simp: handleWrite_def Let_def con_ok_def split: if_splits)
  qed
  then show "con_ok c'" "wire @ lb_data (c_send_buf c') = lb_data (c_send_buf c)" by blast+
qed

lemma safeClose_stream:
  assumes "safeClose c rs ctl = Done (ret, Some c', rs', wire)" "con_ok c" "0 \<le> ctl"
  shows "con_ok c'" "wire @ lb_data (c_send_buf c') = lb_data (c_send_buf c)"
proof -
  obtain k sb rs1 w where d: "doSend (c_send_buf c) rs = Done (k, sb, rs1, w)"
    using assms(1,3)
    by (cases "doSend (c_send_buf c) rs") (auto simp: safeClose_def modifyNotify_def split: if_splits)
  note S = doSend_stream [OF d con_okD(1) [OF assms(2)]]
  show "con_ok c'" "wire @ lb_data (c_send_buf c') = lb_data (c_send_buf c)"
    using assms(1,3) d S by (auto simp: safeClose_def Let_def modifyNotify_def con_ok_def split: if_splits)
qed

lemma safeClose_drained: "lb_size (c_send_buf c) = 0 \<Longrightarrow> safeClose c rs ctl = Done (0, None, rs, [])"
  by (simp add: safeClose_def)

text \<open>
  The steps of the outgoing side, with the bytes the program handed over (\<open>acc\<close>) and the bytes
  on the wire. A step whose operation reports an error closes the connection and is no step here.
\<close>

inductive con_step :: "con \<times> bytes \<times> bytes \<Rightarrow> con \<times> bytes \<times> bytes \<Rightarrow> bool" where
  step_send: "sendMessage c msg rs ctl = Done (ret, c', rs', w) \<Longrightarrow> 0 \<le> ret \<Longrightarrow> 0 \<le> ctl \<Longrightarrow>
    msg_fits (c_send_buf c) msg \<Longrightarrow> con_step (c, acc, wire) (c', acc @ msg, wire @ w)"
| step_writable: "handleWrite c rs ctl = Done (ret, c', rs', w) \<Longrightarrow> 0 \<le> ret \<Longrightarrow> 0 \<le> ctl \<Longrightarrow>
    con_step (c, acc, wire) (c', acc, wire @ w)"
| step_safe_close: "safeClose c rs ctl = Done (ret, Some c', rs', w) \<Longrightarrow> 0 \<le> ret \<Longrightarrow> 0 \<le> ctl \<Longrightarrow>
    con_step (c, acc, wire) (c', acc, wire @ w)"

inductive_cases con_stepE: "con_step (c, acc, wire) s"

lemma con_step_inv:
  assumes "con_step (c, acc, wire) (c', acc', wire')" "con_ok c" "wire @ lb_data (c_send_buf c) = acc"
  shows "con_ok c' \<and> wire' @ lb_data (c_send_buf c') = acc'"
  using assms(1)
proof (cases rule: con_step.cases)
  case (step_send msg rs ctl ret rs' w)
  from sendMessage_stream [OF this(3) assms(2) this(4,5,6)] step_send(1,2) assms(3) show ?thesis
    by (metis append.assoc)
next
  case (step_writable rs ctl ret rs' w)
  from handleWrite_stream [OF this(3) assms(2) this(5)] step_writable(1,2) assms(3) show ?thesis
    by (metis append.assoc)
next
  case (step_safe_close rs ctl ret rs' w)
  from safeClose_stream [OF this(3) assms(2) this(5)] step_safe_close(1,2) assms(3) show ?thesis
    by (metis append.assoc)
qed

lemma con_steps_inv:
  assumes "con_step\<^sup>*\<^sup>* s s'" "con_ok (fst s)" "snd (snd s) @ lb_data (c_send_buf (fst s)) = fst (snd s)"
  shows "con_ok (fst s') \<and> snd (snd s') @ lb_data (c_send_buf (fst s')) = fst (snd s')"
  using assms
proof (induction rule: rtranclp_induct)
  case (step s1 s2)
  then show ?case by (cases s1; cases s2) (auto dest: con_step_inv)
qed simp

subsection \<open>A queue that is never sent\<close>

text \<open>
  The head of the chain can be empty while bytes wait in the frame \<open>m_w_pos\<close>: draining a chain of
  several frames leaves \<open>m_w_pos\<close> at the tail. \<open>doSend\<close> looks at the head only.
\<close>

definition stalled :: "loop_buf \<Rightarrow> bool" where
  "stalled sb \<longleftrightarrow> firstFrameLen sb = 0 \<and> 0 < m_w_pos sb"

lemma doSend_stalled: "firstFrameLen sb = 0 \<Longrightarrow> doSend sb rs = Done (0, sb, rs, [])"
  by (simp add: doSend_def)

lemma lb_write_head:
  assumes "0 < m_w_pos lb" "lb_frames lb \<noteq> []"
  shows "hd (lb_frames (fst (lb_write lb buf len))) = hd (lb_frames lb)"
    "0 < m_w_pos (fst (lb_write lb buf len))" "lb_frames (fst (lb_write lb buf len)) \<noteq> []"
  using assms by (auto simp: lb_write_def hd_append split: prod.splits)

lemma lb_extend_head:
  assumes "0 < m_w_pos lb" "lb_frames lb \<noteq> []"
  shows "hd (lb_frames (lb_extend lb n)) = hd (lb_frames lb)"
    "0 < m_w_pos (lb_extend lb n)" "lb_frames (lb_extend lb n) \<noteq> []"
  using assms by (simp_all add: lb_extend_def)

lemma stalled_autoResizeWrite:
  assumes "stalled sb" "lb_frames sb \<noteq> []"
  shows "stalled (fst (autoResizeWrite sb buf len))"
proof -
  obtain lb ret where w: "lb_write sb buf len = (lb, ret)" by fastforce
  have lb: "firstFrameLen lb = 0" "0 < m_w_pos lb" "lb_frames lb \<noteq> []"
    using lb_write_head [of sb buf len] assms w by (auto simp: stalled_def firstFrameLen_def)
  then show ?thesis
    using lb_write_head [of "lb_extend lb (len - ret)" "drop ret buf" "len - ret"]
      lb_extend_head [of lb "len - ret"] w
    by (auto simp: autoResizeWrite_def stalled_def firstFrameLen_def)
qed

text \<open>Once bytes are queued behind an empty head, no operation sends any byte any more.\<close>

lemma stalled_step:
  assumes "con_step (c, acc, wire) (c', acc', wire')" "con_ok c"
    "stalled (c_send_buf c)" "lb_data (c_send_buf c) \<noteq> []"
  shows "wire' = wire \<and> stalled (c_send_buf c') \<and> lb_data (c_send_buf c') \<noteq> []"
  using assms(1)
proof (cases rule: con_step.cases)
  case (step_send msg rs ctl ret rs' w)
  have "c_noti c AND WRITE_EVENT \<noteq> 0" using assms(2,4) by (auto simp: con_ok_def)
  then have "c' = c\<lparr>c_send_buf := fst (autoResizeWrite (c_send_buf c) msg (length msg))\<rparr> \<and> w = []"
    using step_send(3) by (simp add: sendMessage_def)
  moreover have "lb_frames (c_send_buf c) \<noteq> []" using lb_invD(5) con_okD(1) assms(2) by blast
  moreover have "lb_data (c_send_buf c') \<noteq> []"
    using sendMessage_stream(2) [OF step_send(3) assms(2) step_send(4,5,6)] calculation(1) assms(4) by auto
  ultimately show ?thesis using stalled_autoResizeWrite [OF assms(3)] step_send(2) by simp
next
  case (step_writable rs ctl ret rs' w)
  have "lb_size (c_send_buf c) \<noteq> 0" using assms(2,4) by (simp add: con_ok_def lb_invD(4))
  then have "c' = c \<and> w = []"
    using step_writable(3) assms(3) by (auto simp: handleWrite_def stalled_def doSend_stalled Let_def)
  with step_writable(2) assms(3,4) show ?thesis by simp
next
  case (step_safe_close rs ctl ret rs' w)
  have "lb_size (c_send_buf c) \<noteq> 0" using assms(2,4) by (simp add: con_ok_def lb_invD(4))
  then have "c_send_buf c' = c_send_buf c \<and> w = []"
    using step_safe_close(3) assms(3)
    by (auto simp: safeClose_def stalled_def doSend_stalled Let_def modifyNotify_def split: if_splits)
  with step_safe_close(2) assms(3,4) show ?thesis by simp
qed

lemma stalled_steps:
  assumes "con_step\<^sup>*\<^sup>* (c, acc, wire) s" "con_ok c" "wire @ lb_data (c_send_buf c) = acc"
    "stalled (c_send_buf c)" "lb_data (c_send_buf c) \<noteq> []"
  shows "snd (snd s) = wire \<and> stalled (c_send_buf (fst s)) \<and> lb_data (c_send_buf (fst s)) \<noteq> []"
  using assms
proof (induction rule: rtranclp_induct)
  case (step s1 s2)
  then have "con_ok (fst s1)" using con_steps_inv [OF step(1)] by simp
  with step show ?case
    by (cases s1; cases s2) (auto dest: stalled_step)
qed simp

text \<open>
  How it comes about: a chain of two frames, both filled once, is drained by a socket that takes
  everything; both frames are now empty, \<open>m_w_pos\<close> is the second.
\<close>

lemma frame_read_all:
  assumes "frame_ok f" shows "frame_read f (m_fsize f) = (frame_data f, f\<lparr>m_start := 0, m_fsize := 0\<rparr>)"
proof -
  have "m_fsize f \<le> length (m_buf f) - m_start f" using assms unfolding frame_ok_def m_cap_def by linarith
  then show ?thesis
    by (simp add: frame_read_def frame_peek_def frame_data_def Let_def min_absorb2)
qed

lemma read_head_frame:
  assumes inv: "lb_inv sb" and fs: "lb_frames sb = A # fs" "fs \<noteq> []"
  shows "lb_read sb True (m_fsize A) =
    (if m_fsize A = 0 then Done (sb, [])
     else Done (sb\<lparr>lb_frames := fs @ [A\<lparr>m_start := 0, m_fsize := 0\<rparr>],
        m_w_pos := (if m_w_pos sb = 0 then length fs else m_w_pos sb - 1),
        lb_size := lb_size sb - m_fsize A\<rparr>, frame_data A))"
proof -
  obtain k where k: "length (lb_frames sb) + 1 = Suc (Suc k)" using fs by simp
  have ok: "frame_ok A" using lb_invD(1) [OF inv] fs by simp
  then have "length (frame_data A) = m_fsize A" by simp
  with k fs frame_read_all [OF ok] show ?thesis
    by (simp add: lb_read_def lb_read_fuel_def)
qed

lemma drained_chain_stalls:
  assumes inv: "lb_inv sb" and fs: "lb_frames sb = [A, B]" "m_w_pos sb = 1"
    and ne: "m_fsize A \<noteq> 0" "m_fsize B \<noteq> 0"
  shows "\<exists>sb'. doSend sb [(int (m_fsize A), e1), (int (m_fsize B), e2), (0, E_AGAIN)]
      = Done (int (m_fsize A) + int (m_fsize B), sb', [], lb_data sb)
    \<and> lb_data sb' = [] \<and> lb_inv sb' \<and> stalled sb'"
proof -
  let ?A = "A\<lparr>m_start := 0, m_fsize := 0\<rparr>" and ?B = "B\<lparr>m_start := 0, m_fsize := 0\<rparr>"
  have ok: "frame_ok A" "frame_ok B" using lb_invD(1) [OF inv] fs by auto
  define s1 where "s1 = sb\<lparr>lb_frames := [B, ?A], m_w_pos := 0, lb_size := lb_size sb - m_fsize A\<rparr>"
  define s2 where "s2 = s1\<lparr>lb_frames := [?A, ?B], m_w_pos := 1, lb_size := lb_size s1 - m_fsize B\<rparr>"
  have r1: "lb_read sb True (m_fsize A) = Done (s1, frame_data A)"
    using read_head_frame [OF inv, of A "[B]"] fs ne by (simp add: s1_def)
  have ilen: "firstFrameLen sb = m_fsize A" "firstFrameLen s1 = m_fsize B" "firstFrameLen s2 = 0"
    by (simp_all add: firstFrameLen_def fs s1_def s2_def)
  have inv1: "lb_inv s1"
    using drop_sent [OF inv, of "m_fsize A"] r1 ilen by auto
  have r2: "lb_read s1 True (m_fsize B) = Done (s2, frame_data B)"
    using read_head_frame [OF inv1, of B "[?A]"] ne by (simp add: s1_def s2_def)
  have inv2: "lb_inv s2"
    using drop_sent [OF inv1, of "m_fsize B"] r2 ilen by auto
  have r3: "lb_read s2 True 0 = Done (s2, [])"
    using read_head_frame [OF inv2, of ?A "[?B]"] by (simp add: s2_def)
  have data: "lb_data sb = frame_data A @ frame_data B" by (simp add: lb_data_def fs)
  have fd: "firstFrameData sb = frame_data A" "firstFrameData s1 = frame_data B"
    by (simp_all add: firstFrameData_def frame_data_def fs s1_def)
  have "doSend sb [(int (m_fsize A), e1), (int (m_fsize B), e2), (0, E_AGAIN)]
      = Done (int (m_fsize A) + int (m_fsize B), s2, [], lb_data sb)"
    using ne ok by (simp add: doSend_def eval_nat_numeral Let_def ilen r1 r2 r3 fd data)
  moreover have "lb_data s2 = []" by (simp add: lb_data_def s2_def frame_data_def)
  ultimately show ?thesis
    using inv2 ilen by (auto simp: stalled_def s2_def)
qed

subsection \<open>Handing over packets\<close>

text \<open>What the packets of a stream do to the program: handlers run in order until one fails.\<close>

fun run_packets :: "('a \<Rightarrow> bytes \<Rightarrow> 'a \<times> int) \<Rightarrow> 'a \<Rightarrow> bytes list \<Rightarrow> int \<Rightarrow> 'a \<times> (int + int)" where
  "run_packets handle a [] ret = (a, Inr ret)"
| "run_packets handle a (p # ps) ret =
     (let (a, ret) = handle a p
      in if ret < 0 then (a, Inl ret) else run_packets handle a ps ret)"

definition packets_result :: "(bytes \<Rightarrow> int) \<Rightarrow> bytes \<Rightarrow> int + int \<Rightarrow> int + int" where
  "packets_result chk r res =
     (case res of Inl e \<Rightarrow> Inl e | Inr k \<Rightarrow> if chk r < 0 then Inl (chk r) else Inr k)"

text \<open>
  A handler that only collects: successive reads hand over the packets of the whole stream
  received so far, whatever its pieces were.
\<close>

inductive reads :: "(loop_buf \<Rightarrow> int) \<Rightarrow> con \<times> bytes list \<Rightarrow> bytes \<Rightarrow> con \<times> bytes list \<Rightarrow> bool"
  for check :: "loop_buf \<Rightarrow> int" where
  reads_none: "reads check s [] s"
| reads_more: "reads check s stream (c, ps) \<Longrightarrow>
    tcpNbReceive (c_fd_valid c) rs (freeFrameLen
      (if freeFrameLen (c_buf c) = 0 then lb_extend (c_buf c) (16 * 1024) else c_buf c)) = Done (k, got) \<Longrightarrow>
    handleRead check (\<lambda>ps p. (ps @ [p], 0)) c ps rs = Done (c', ps', ret) \<Longrightarrow> 0 \<le> ret \<Longrightarrow>
    reads check s (stream @ got) (c', ps')"

text \<open>A framing check as a connection has it: a function of its receive queue's bytes.\<close>

locale packet_reader = framing chk for chk :: "bytes \<Rightarrow> int" +
  fixes check :: "loop_buf \<Rightarrow> int"
  assumes check_data: "lb_inv lb \<Longrightarrow> check lb = chk (lb_data lb)"
begin

text \<open>
  The loop ends, runs the handlers on exactly the packets in front, and unless a handler fails
  leaves exactly the rest of the bytes in the queue.
\<close>

lemma packet_loop_spec:
  assumes "lb_inv buf" "length (lb_data buf) < fuel" "split_packets chk (lb_data buf) = (ps, r)"
  shows "\<exists>buf'. packet_loop fuel check handle buf a ret =
      Done (buf', fst (run_packets handle a ps ret),
        packets_result chk r (snd (run_packets handle a ps ret)))
    \<and> lb_inv buf' \<and> ((\<exists>k. snd (run_packets handle a ps ret) = Inr k) \<longrightarrow> lb_data buf' = r)"
  using assms
proof (induction fuel arbitrary: buf a ret ps)
  case (Suc fuel)
  let ?d = "lb_data buf"
  have check: "check buf = chk ?d" using Suc.prems(1) by (rule check_data)
  show ?case
  proof (cases "0 < chk ?d")
    case False
    then have "ps = [] \<and> r = ?d" using split_stop [of ?d] Suc.prems(3) by simp
    then show ?thesis using False check Suc.prems(1) by (auto simp: packets_result_def)
  next
    case True
    let ?n = "nat (chk ?d)" and ?p = "take (nat (chk ?d)) ?d"
    obtain ps' where rest: "split_packets chk (drop ?n ?d) = (ps', r)" and ps: "ps = ?p # ps'"
      using Suc.prems(3) split_pos [OF True] by (auto simp: Let_def split: prod.splits)
    have n: "0 < ?n" "?n \<le> length ?d" using True fits [of ?d] by linarith+
    from lb_read_done [OF Suc.prems(1) n(2)] obtain buf1 where
      rd: "lb_read buf False ?n = Done (buf1, ?p)" "lb_inv buf1" "lb_data buf1 = drop ?n ?d" by blast
    obtain a1 ret1 where h: "handle a ?p = (a1, ret1)" by fastforce
    show ?thesis
    proof (cases "ret1 < 0")
      case True
      with h rd ps check \<open>0 < chk ?d\<close> show ?thesis by (auto simp: packets_result_def)
    next
      case False
      have "length (lb_data buf1) < fuel" using rd(3) n Suc.prems(2) by simp
      from Suc.IH [OF rd(2) this, of ps' a1 ret1] rest rd(3) obtain buf2 where
        "packet_loop fuel check handle buf1 a1 ret1 = Done (buf2, fst (run_packets handle a1 ps' ret1),
           packets_result chk r (snd (run_packets handle a1 ps' ret1)))" "lb_inv buf2"
        "(\<exists>k. snd (run_packets handle a1 ps' ret1) = Inr k) \<longrightarrow> lb_data buf2 = r"
        by auto
      with h rd(1) ps check \<open>0 < chk ?d\<close> False show ?thesis by simp
    qed
  qed
qed simp

text \<open>One \<open>handleRead\<close> that received something.\<close>

lemma handleRead_spec:
  assumes inv: "lb_inv (c_buf c)"
    and rcv: "tcpNbReceive (c_fd_valid c) rs (freeFrameLen
      (if freeFrameLen (c_buf c) = 0 then lb_extend (c_buf c) (16 * 1024) else c_buf c)) = Done (ret, got)"
    and ok: "0 \<le> ret" "got \<noteq> []"
    and split: "split_packets chk (lb_data (c_buf c) @ got) = (ps, r)"
  shows "\<exists>buf'. handleRead check handle c a rs =
      Done (c\<lparr>c_buf := buf'\<rparr>, fst (run_packets handle a ps ret),
        case packets_result chk r (snd (run_packets handle a ps ret)) of Inl k \<Rightarrow> k | Inr k \<Rightarrow> k)
    \<and> lb_inv buf' \<and> ((\<exists>k. snd (run_packets handle a ps ret) = Inr k) \<longrightarrow> lb_data buf' = r)"
proof -
  let ?buf = "if freeFrameLen (c_buf c) = 0 then lb_extend (c_buf c) (16 * 1024) else c_buf c"
  have b: "lb_inv ?buf" "lb_data ?buf = lb_data (c_buf c)"
    using inv lb_extend_spec(1,2) [OF inv] by simp_all
  have room: "length got \<le> freeFrameLen ?buf" using tcpNbReceive_fits [OF rcv] by simp
  from recv_in_place [OF b(1) room] obtain buf1 where
    w: "lb_write_null (freeFrameBuf_store ?buf got) (length got) = Done buf1"
    and i1: "lb_inv buf1" "lb_data buf1 = lb_data (c_buf c) @ got" using b(2) by auto
  have fuel: "length (lb_data buf1) < lb_size buf1 + 1" using lb_invD(4) [OF i1(1)] by simp
  have sp: "split_packets chk (lb_data buf1) = (ps, r)" using split i1(2) by simp
  from packet_loop_spec [OF i1(1) fuel sp, of handle a ret] obtain buf' where
    "packet_loop (lb_size buf1 + 1) check handle buf1 a ret =
      Done (buf', fst (run_packets handle a ps ret), packets_result chk r (snd (run_packets handle a ps ret)))"
    "lb_inv buf'" "(\<exists>k. snd (run_packets handle a ps ret) = Inr k) \<longrightarrow> lb_data buf' = r" by blast
  then show ?thesis
    using rcv w ok by (auto simp: handleRead_def Let_def split: sum.split)
qed

lemma run_collect:
  "run_packets (\<lambda>ps p. (ps @ [p], 0)) a ps ret = (a @ ps, Inr (if ps = [] then ret else 0))"
  by (induction ps arbitrary: a ret) auto

lemma reads_split:
  assumes "reads check s stream (c', ps')" "fst s = c" "snd s = []" "lb_inv (c_buf c)" "lb_data (c_buf c) = []"
  shows "lb_inv (c_buf c') \<and> split_packets chk stream = (ps', lb_data (c_buf c'))"
  using assms
proof (induction s stream "(c', ps')" arbitrary: c' ps' rule: reads.induct)
  case (reads_none)
  have "chk [] \<le> 0" using fits [of "[]"] by simp
  with reads_none show ?case by (auto simp: split_stop)
next
  case (reads_more s stream c1 ps1 rs k got c' ps' ret)
  have IH: "lb_inv (c_buf c1)" "split_packets chk stream = (ps1, lb_data (c_buf c1))"
    using reads_more by auto
  have ok: "0 \<le> k" "got \<noteq> []"
    using reads_more(3,4,5) by (auto simp: handleRead_def Let_def split: if_splits)
  obtain qs r where sp: "split_packets chk (lb_data (c_buf c1) @ got) = (qs, r)" by fastforce
  from handleRead_spec [OF IH(1) reads_more(3) ok sp, of "\<lambda>ps p. (ps @ [p], 0)" ps1]
  obtain buf' where "c' = c1\<lparr>c_buf := buf'\<rparr>" "ps' = ps1 @ qs" "lb_inv buf'" "lb_data buf' = r"
    using reads_more(4) by (auto simp: run_collect)
  with split_append [OF IH(2) sp] show ?case by simp
qed

end

interpretation gp_reader: packet_reader chk_len checkLen
  by unfold_locales (rule checkLen_data)

text \<open>
  Data that came with the end of the stream in one receive is not handed over: the read reports
  -1 and the connection is closed with the packets in its storage.
\<close>

lemma handleRead_final_data:
  assumes "c_fd_valid c" "0 < freeFrameLen (c_buf c)" "length bs < freeFrameLen (c_buf c)"
  shows "\<exists>c'. handleRead check handle c a [RecvData bs, RecvClosed] = Done (c', a, -1)"
  using tcpNbReceive_data_then_close [OF assms(3)] assms by (simp add: handleRead_def Let_def)

subsection \<open>Properties\<close>


text \<open>Partial send: two bytes of three go out, the third is queued.\<close>

lemma send_abc:
  "\<exists>c. con_step\<^sup>*\<^sup>* (Connection_init 1, [], []) (c, [97, 98, 99], [97, 98])"
proof -
  let ?c = "Connection_init 1"
  let ?c1 = "?c\<lparr>c_send_buf := fst (autoResizeWrite (c_send_buf ?c) [99] 1), c_noti := READ_EVENT OR WRITE_EVENT\<rparr>"
  have "sendMessage ?c [97, 98, 99] [(2, E_OTHER)] 0 = Done (2, ?c1, [], [97, 98])"
    by (simp add: sendMessage_def Connection_init_def modifyNotify_def)
  from step_send [OF this, of "[]" "[]"] have
    "con_step (?c, [], []) (?c1, [97, 98, 99], [97, 98])" by (simp add: short_msg_fits)
  then show ?thesis by blast
qed


text \<open>
  C2: the incoming stream. Successive reads of a fresh connection hand over exactly the packets in
  the bytes received so far and keep the rest, however the reads cut the stream.
\<close>

theorem connection_packets:
  assumes "reads checkLen (Connection_init i\<lparr>c_fd_valid := v\<rparr>, []) stream (c, ps)"
  shows "split_packets chk_len stream = (ps, lb_data (c_buf c))"
  using gp_reader.reads_split [OF assms] by (simp add: Connection_init_def)

lemma one_read:
  assumes "0 < length bs" "length bs < 2000" "chk_len bs = int (length bs)"
  shows "\<exists>c. reads checkLen (Connection_init i\<lparr>c_fd_valid := True\<rparr>, []) bs (c, [bs])"
proof -
  let ?c = "Connection_init i\<lparr>c_fd_valid := True\<rparr>"
  have c: "c_fd_valid ?c" "c_buf ?c = LoopBuf" by (simp_all add: Connection_init_def)
  have free: "freeFrameLen LoopBuf = 2016"
    by (simp add: freeFrameLen_def LoopBuf_def alignSize_def DEFAUTLT_ALIGN_SIZE_def)
  have rcv: "tcpNbReceive (c_fd_valid ?c) [RecvData bs, RecvAgain] (freeFrameLen
      (if freeFrameLen (c_buf ?c) = 0 then lb_extend (c_buf ?c) (16 * 1024) else c_buf ?c))
      = Done (int (length bs), bs)"
    using tcpNbReceive_data_then_wait [of bs 2016] assms(2) by (simp add: c free)
  have "split_packets chk_len (concat [bs] @ []) = ([bs], [])"
    using assms by (intro gpush.split_concat) (auto simp: chk_len_def sizeof_head_def)
  then have sp: "split_packets chk_len (lb_data (c_buf ?c) @ bs) = ([bs], [])" by (simp add: c)
  from assms(1) have ok: "0 \<le> int (length bs)" "bs \<noteq> []" by auto
  have chk0: "chk_len [] = 0" by (simp add: chk_len_def sizeof_head_def)
  from gp_reader.handleRead_spec [OF _ rcv ok sp, of "\<lambda>ps p. (ps @ [p], 0)" "[]"] chk0 obtain c1 where
    "handleRead checkLen (\<lambda>ps p. (ps @ [p], 0)) ?c [] [RecvData bs, RecvAgain] = Done (c1, [bs], 0)"
    by (auto simp: c packets_result_def)
  from reads_more [OF reads_none rcv this] show ?thesis by auto
qed

theorem connection_packets_witness:
  "\<exists>c :: con. split_packets chk_len (constructPacket \<lparr>h_magic = MAGIC_NUMBER, h_len = 0, h_cmd = 100\<rparr> [1, 2])
     = ([constructPacket \<lparr>h_magic = MAGIC_NUMBER, h_len = 0, h_cmd = 100\<rparr> [1, 2]], lb_data (c_buf c))"
proof -
  let ?p = "constructPacket \<lparr>h_magic = MAGIC_NUMBER, h_len = 0, h_cmd = 100\<rparr> [1, 2]"
  have "chk_len ?p = int (length ?p)" by (rule chk_len_constructPacket) (simp add: sizeof_head_def)
  moreover have "length ?p = 14" by (simp add: sizeof_head_def)
  ultimately obtain c where "reads checkLen (Connection_init 1\<lparr>c_fd_valid := True\<rparr>, []) ?p (c, [?p])"
    using one_read [of ?p 1] by auto
  from connection_packets [OF this] show ?thesis by blast
qed

text \<open>
  C4: a queue that has grown to two frames and was drained by a willing socket leaves the
  connection in a state from which no queued byte is ever sent: whatever is queued then, and
  however often the socket becomes writable, the wire does not move.
\<close>

theorem drained_queue_stalls:
  assumes "lb_inv sb" "lb_frames sb = [A, B]" "m_w_pos sb = 1" "m_fsize A \<noteq> 0" "m_fsize B \<noteq> 0"
  shows "\<exists>sb'. doSend sb [(int (m_fsize A), e1), (int (m_fsize B), e2), (0, E_AGAIN)]
      = Done (int (length (lb_data sb)), sb', [], lb_data sb) \<and>
    (\<forall>msg c wire s. msg \<noteq> [] \<and> queue_fits sb' msg \<and> c_noti c AND WRITE_EVENT \<noteq> 0 \<and>
       c_send_buf c = fst (autoResizeWrite sb' msg (length msg)) \<and>
       con_step\<^sup>*\<^sup>* (c, wire @ msg, wire) s \<longrightarrow> snd (snd s) = wire)"
proof -
  have ok: "frame_ok A" "frame_ok B" using lb_invD(1) [OF assms(1)] assms(2) by auto
  then have len: "length (lb_data sb) = m_fsize A + m_fsize B"
    using assms(2) by (simp add: lb_data_def)
  from drained_chain_stalls [OF assms, of e1 e2] obtain sb' where
    d: "doSend sb [(int (m_fsize A), e1), (int (m_fsize B), e2), (0, E_AGAIN)]
      = Done (int (length (lb_data sb)), sb', [], lb_data sb)"
    and sb': "lb_data sb' = []" "lb_inv sb'" "stalled sb'" using len by auto
  have "snd (snd s) = wire" if a: "msg \<noteq> []" "queue_fits sb' msg" "c_noti c AND WRITE_EVENT \<noteq> 0"
      "c_send_buf c = fst (autoResizeWrite sb' msg (length msg))"
      "con_step\<^sup>*\<^sup>* (c, wire @ msg, wire) s" for msg c wire s
  proof -
    have q: "lb_inv (c_send_buf c)" "lb_data (c_send_buf c) = msg"
      using queue_write [OF sb'(2) a(2)] sb'(1) a(4) by simp_all
    moreover have "stalled (c_send_buf c)"
      using stalled_autoResizeWrite [OF sb'(3)] lb_invD(5) [OF sb'(2)] a(4) by simp
    ultimately show ?thesis using stalled_steps [OF a(5)] a(1,3) by (simp add: con_ok_def)
  qed
  with d show ?thesis by blast
qed

theorem drained_queue_stalls_witness:
  "\<exists>sb'. doSend \<lparr>lb_frames = [\<lparr>m_buf = [1, 2], m_start = 0, m_fsize = 2\<rparr>, \<lparr>m_buf = [3, 4], m_start = 0, m_fsize = 1\<rparr>],
      m_w_pos = 1, lb_size = 3\<rparr> [(2, E_AGAIN), (1, E_AGAIN), (0, E_AGAIN)] = Done (3, sb', [], [1, 2, 3])"
proof -
  let ?sb = "\<lparr>lb_frames = [\<lparr>m_buf = [1, 2], m_start = 0, m_fsize = 2\<rparr>, \<lparr>m_buf = [3, 4], m_start = 0, m_fsize = 1\<rparr>],
      m_w_pos = 1, lb_size = 3\<rparr> :: loop_buf"
  have "lb_inv ?sb"
    by (simp add: lb_inv_def frame_ok_def m_cap_def lb_data_def frame_data_def)
  moreover have "lb_data ?sb = [1, 2, 3]" by (simp add: lb_data_def frame_data_def)
  ultimately show ?thesis
    using drained_queue_stalls [of ?sb "\<lparr>m_buf = [1, 2], m_start = 0, m_fsize = 2\<rparr>"
      "\<lparr>m_buf = [3, 4], m_start = 0, m_fsize = 1\<rparr>" E_AGAIN E_AGAIN] by auto
qed

end
