(* ===== verification/Containers.thy ===== *)
theory Containers
  imports GP_Prelude
begin

text \<open>
  The ordered containers of the standard library that the program uses: \<^verbatim>\<open>std::set\<close> with a
  comparator is the list of its elements in order, \<^verbatim>\<open>std::map\<close> the list of its entries in the
  order of the keys. Iteration goes from the front of the list.
\<close>

subsection \<open>std::set\<close>

fun set_insert :: "('k \<Rightarrow> 'k \<Rightarrow> bool) \<Rightarrow> 'k \<Rightarrow> 'k list \<Rightarrow> 'k list" where
  "set_insert lt x [] = [x]"
| "set_insert lt x (y # ys) =
     (if lt x y then x # y # ys else if lt y x then y # set_insert lt x ys else y # ys)"

fun set_erase :: "('k \<Rightarrow> 'k \<Rightarrow> bool) \<Rightarrow> 'k \<Rightarrow> 'k list \<Rightarrow> 'k list" where
  "set_erase lt x [] = []"
| "set_erase lt x (y # ys) =
     (if lt x y then y # ys else if lt y x then y # set_erase lt x ys else ys)"

text \<open>The contract of a comparator: a strict total order.\<close>

locale comparator =
  fixes lt :: "'k \<Rightarrow> 'k \<Rightarrow> bool"
  assumes irrefl: "\<not> lt x x"
    and trans: "lt x y \<Longrightarrow> lt y z \<Longrightarrow> lt x z"
    and total: "lt x y \<or> x = y \<or> lt y x"
begin

lemma asym: "lt x y \<Longrightarrow> \<not> lt y x"
  using irrefl trans by blast

lemma set_insert_set [simp]: "set (set_insert lt x xs) = insert x (set xs)"
  using total by (induction xs) auto

lemma set_insert_sorted: "sorted_wrt lt xs \<Longrightarrow> sorted_wrt lt (set_insert lt x xs)"
  by (induction xs) (auto intro: trans)

lemma set_erase_set: "sorted_wrt lt xs \<Longrightarrow> set (set_erase lt x xs) = set xs - {x}"
proof (induction xs)
  case (Cons y ys)
  have le: "\<forall>z \<in> set ys. lt y z" and sorted: "sorted_wrt lt ys" using Cons.prems by auto
  consider "lt x y" | "x = y" | "lt y x" using total by blast
  then show ?case
  proof cases
    case 1
    then have "x \<notin> set (y # ys)" using le trans [of x y] irrefl by auto
    with 1 show ?thesis by simp
  next
    case 2
    then have "x \<notin> set ys" using le irrefl by auto
    with 2 show ?thesis by (simp add: irrefl)
  next
    case 3
    then have "\<not> lt x y" "x \<noteq> y" using asym irrefl by blast+
    with 3 Cons.IH [OF sorted] show ?thesis by auto
  qed
qed simp

lemma set_erase_sorted: "sorted_wrt lt xs \<Longrightarrow> sorted_wrt lt (set_erase lt x xs)"
proof (induction xs)
  case (Cons y ys)
  then show ?case using set_erase_set [of ys x] by auto
qed simp

lemma set_insert_last: "\<forall>y \<in> set xs. lt y x \<Longrightarrow> set_insert lt x xs = xs @ [x]"
  using asym by (induction xs) auto

lemma sorted_distinct: "sorted_wrt lt xs \<Longrightarrow> distinct xs"
  using irrefl by (induction xs) auto

end

subsection \<open>std::map\<close>

type_synonym ('k, 'v) std_map = "('k \<times> 'v) list"

text \<open>\<^verbatim>\<open>m[k] = v\<close>, \<^verbatim>\<open>erase(k)\<close>; \<^verbatim>\<open>find\<close> is \<open>map_of\<close> (the keys are distinct).\<close>

fun map_put :: "'k::linorder \<Rightarrow> 'v \<Rightarrow> ('k, 'v) std_map \<Rightarrow> ('k, 'v) std_map" where
  "map_put k v [] = [(k, v)]"
| "map_put k v ((k', v') # m) =
     (if k < k' then (k, v) # (k', v') # m
      else if k = k' then (k, v) # m
      else (k', v') # map_put k v m)"

definition map_erase :: "'k::linorder \<Rightarrow> ('k, 'v) std_map \<Rightarrow> ('k, 'v) std_map" where
  "map_erase k m = filter (\<lambda>e. fst e \<noteq> k) m"

definition map_ok :: "('k::linorder, 'v) std_map \<Rightarrow> bool" where
  "map_ok m \<longleftrightarrow> sorted_wrt (<) (map fst m)"

lemma map_of_put [simp]: "map_of (map_put k v m) = (map_of m)(k \<mapsto> v)"
  by (induction m) auto

lemma map_of_erase [simp]: "map_of (map_erase k m) = (map_of m)(k := None)"
  by (induction m) (auto simp: map_erase_def)

lemma keys_put: "fst ` set (map_put k v m) = insert k (fst ` set m)"
proof (induction m)
  case (Cons e m)
  then show ?case by (cases e) (simp add: insert_commute)
qed simp

lemma map_ok_put [simp, inv_intros]: "map_ok m \<Longrightarrow> map_ok (map_put k v m)"
proof (induction m)
  case (Cons e m)
  obtain k' v' where e: "e = (k', v')" by fastforce
  have "\<forall>x \<in> fst ` set (map_put k v m). k' < x" if "k' < k"
    using Cons.prems e that unfolding keys_put by (auto simp: map_ok_def)
  with Cons e show ?case by (auto simp: map_ok_def)
qed (simp add: map_ok_def)

lemma map_ok_erase [simp, inv_intros]: "map_ok m \<Longrightarrow> map_ok (map_erase k m)"
  by (induction m) (auto simp: map_ok_def map_erase_def)

lemma map_ok_Nil [simp]: "map_ok []"
  by (simp add: map_ok_def)

lemma map_ok_distinct: "map_ok m \<Longrightarrow> distinct (map fst m)"
  by (simp add: map_ok_def strict_sorted_iff)

lemma length_erase: "map_ok m \<Longrightarrow> map_of m k = Some v \<Longrightarrow> Suc (length (map_erase k m)) = length m"
proof (induction m)
  case (Cons e m)
  show ?case
  proof (cases "fst e = k")
    case True
    then have "filter (\<lambda>e. fst e \<noteq> k) m = m"
      using Cons.prems(1) by (auto simp: map_ok_def filter_id_conv)
    with True show ?thesis by (simp add: map_erase_def)
  next
    case False
    with Cons show ?thesis by (cases e) (auto simp: map_ok_def map_erase_def)
  qed
qed simp

lemma map_put_all: "map_ok m \<Longrightarrow> fold (\<lambda>(k, v). map_put k v) m [] = m"
proof (induction m rule: rev_induct)
  case (snoc e m)
  have "\<forall>x \<in> fst ` set m. x < fst e" "map_ok m" using snoc.prems by (auto simp: map_ok_def sorted_wrt_append)
  moreover have "\<forall>x \<in> fst ` set m. x < k \<Longrightarrow> map_put k v m = m @ [(k, v)]" for k v
    by (induction m) (auto simp: less_le_not_le)
  ultimately show ?case using snoc.IH by (cases e) simp
qed simp

end
