(* ===== verification/EventLoop.thy ===== *)
theory EventLoop
  imports Connection Containers
begin

unbundle bit_operations_syntax

text \<open>
  The connections and the life of an event loop (\<^verbatim>\<open>efnfw/net/ef_event_loop.cpp\<close>,
  \<^verbatim>\<open>ef_operator.cpp\<close>): the map from ids to connections, the operators that act on it, starting and
  stopping. A connection object is identified with its value; deleting one runs the part of
  \<open>Connection::clear\<close> that is seen by the loop. The scripts of \<^verbatim>\<open>send\<close> are given per connection id
  (\<open>io\<close>); \<open>ctl\<close> is the result of \<^verbatim>\<open>epoll_ctl\<close>. Timers are in \<open>Timers\<close>, the queue of operators in
  \<open>OpsQueue\<close>.
\<close>

definition EVL_INIT :: int where "EVL_INIT = 0"
definition EVL_RUNNING :: int where "EVL_RUNNING = 1"
definition EVL_CLOSING :: int where "EVL_CLOSING = 2"
definition EVL_CLOSED :: int where "EVL_CLOSED = 3"

lemmas evl_status_defs = EVL_INIT_def EVL_RUNNING_def EVL_CLOSING_def EVL_CLOSED_def

datatype NetOperator =
    CloseConnectionOp int
  | CloseAllConnectionsOp
  | SendMessageOp int bytes
  | AddConnectionOp con

record evl =
  m_con_map :: "(int, con) std_map"
  e_status :: int
  e_ops :: "NetOperator list"

definition EventLoop_init :: evl where
  "EventLoop_init = \<lparr>m_con_map = [], e_status = EVL_CLOSED, e_ops = []\<rparr>"

subsection \<open>The connection map\<close>

definition getConnection :: "evl \<Rightarrow> int \<Rightarrow> con option" where
  "getConnection l i = map_of (m_con_map l) i"

definition ConnectionsCount :: "evl \<Rightarrow> nat" where
  "ConnectionsCount l = length (m_con_map l)"

definition delConnection :: "evl \<Rightarrow> int \<Rightarrow> evl" where
  "delConnection l i =
     (if map_of (m_con_map l) i \<noteq> None then l\<lparr>m_con_map := map_erase i (m_con_map l)\<rparr> else l)"

text \<open>\<open>recycle\<close> deletes the object; its destructor takes the id, not itself, out of the loop's map.\<close>

definition recycle :: "evl \<Rightarrow> con \<Rightarrow> evl" where
  "recycle l c = delConnection l (c_id c)"

text \<open>\<open>onCreate\<close> is the connection's own; it may register the socket and start timers.\<close>

definition addConnection :: "(con \<Rightarrow> con \<times> int) \<Rightarrow> evl \<Rightarrow> con \<Rightarrow> evl \<times> int" where
  "addConnection onCreate l c =
     (let (c, r) = onCreate c
      in if r < 0 then (recycle l c, -1)
         else if map_of (m_con_map l) (c_id c) = None
         then (l\<lparr>m_con_map := map_put (c_id c) c (m_con_map l)\<rparr>, 0)
         else (l, 0))"

text \<open>A connection of the map is changed in place.\<close>

definition update_con :: "evl \<Rightarrow> int \<Rightarrow> con \<Rightarrow> evl" where
  "update_con l i c = l\<lparr>m_con_map := map_put i c (m_con_map l)\<rparr>"

definition close_con :: "(int \<Rightarrow> send_result list) \<Rightarrow> int \<Rightarrow> evl \<Rightarrow> int \<Rightarrow> con \<Rightarrow> (evl \<times> int) outcome" where
  "close_con io ctl l i c =
     bind_outcome (safeClose c (io i) ctl)
       (\<lambda>(ret, c', rs, wire). case c' of
          None \<Rightarrow> Done (recycle l c, ret)
        | Some c' \<Rightarrow> Done (update_con l i c', ret))"

definition closeConnection :: "(int \<Rightarrow> send_result list) \<Rightarrow> int \<Rightarrow> evl \<Rightarrow> int \<Rightarrow> (evl \<times> int) outcome" where
  "closeConnection io ctl l i =
     (case getConnection l i of
        Some c \<Rightarrow> close_con io ctl l i c
      | None \<Rightarrow> Done (l, 0))"

text \<open>\<open>closeAllConnections\<close> copies the connections out of the map first, then closes each of the copies.\<close>

fun close_list :: "(int \<Rightarrow> send_result list) \<Rightarrow> int \<Rightarrow> evl \<Rightarrow> (int \<times> con) list \<Rightarrow> evl outcome" where
  "close_list io ctl l [] = Done l"
| "close_list io ctl l ((i, c) # cons) =
     bind_outcome (close_con io ctl l i c) (\<lambda>(l, _). close_list io ctl l cons)"

definition closeAllConnections :: "(int \<Rightarrow> send_result list) \<Rightarrow> int \<Rightarrow> evl \<Rightarrow> evl outcome" where
  "closeAllConnections io ctl l = close_list io ctl l (m_con_map l)"

text \<open>\<open>EventLoop::sendMessage\<close>: a failed send deletes the connection; the value is always 0.\<close>

definition evl_sendMessage :: "(int \<Rightarrow> send_result list) \<Rightarrow> int \<Rightarrow> evl \<Rightarrow> int \<Rightarrow> bytes \<Rightarrow> (evl \<times> int) outcome" where
  "evl_sendMessage io ctl l i msg =
     (case getConnection l i of
        Some c \<Rightarrow>
          bind_outcome (sendMessage c msg (io i) ctl)
            (\<lambda>(ret, c', rs, wire).
               if ret < 0 then Done (recycle (update_con l i c') c', 0)
               else Done (update_con l i c', 0))
      | None \<Rightarrow> Done (l, 0))"

subsection \<open>Operators\<close>

definition op_process :: "(con \<Rightarrow> con \<times> int) \<Rightarrow> (int \<Rightarrow> send_result list) \<Rightarrow> int \<Rightarrow> NetOperator \<Rightarrow> evl \<Rightarrow> evl outcome" where
  "op_process onCreate io ctl op l =
     (case op of
        CloseConnectionOp i \<Rightarrow> bind_outcome (closeConnection io ctl l i) (\<lambda>(l, _). Done l)
      | CloseAllConnectionsOp \<Rightarrow> closeAllConnections io ctl l
      | SendMessageOp i msg \<Rightarrow> bind_outcome (evl_sendMessage io ctl l i msg) (\<lambda>(l, _). Done l)
      | AddConnectionOp c \<Rightarrow> Done (fst (addConnection onCreate l c)))"

definition asynAddConnection :: "evl \<Rightarrow> con \<Rightarrow> evl" where
  "asynAddConnection l c = l\<lparr>e_ops := e_ops l @ [AddConnectionOp c]\<rparr>"

definition asynCloseConnection :: "evl \<Rightarrow> int \<Rightarrow> evl" where
  "asynCloseConnection l i = l\<lparr>e_ops := e_ops l @ [CloseConnectionOp i]\<rparr>"

definition asynSendMessage :: "evl \<Rightarrow> int \<Rightarrow> bytes \<Rightarrow> evl" where
  "asynSendMessage l i msg = l\<lparr>e_ops := e_ops l @ [SendMessageOp i msg]\<rparr>"

definition asynCloseAllConnections :: "evl \<Rightarrow> evl" where
  "asynCloseAllConnections l = l\<lparr>e_ops := e_ops l @ [CloseAllConnectionsOp]\<rparr>"

text \<open>\<open>processOps\<close> on the operators that are there: each is taken off the queue, then run.\<close>

fun processOps :: "nat \<Rightarrow> (con \<Rightarrow> con \<times> int) \<Rightarrow> (int \<Rightarrow> send_result list) \<Rightarrow> int \<Rightarrow> evl \<Rightarrow> evl outcome" where
  "processOps 0 onCreate io ctl l = (if e_ops l = [] then Done l else NoFuel)"
| "processOps (Suc n) onCreate io ctl l =
     (case e_ops l of
        [] \<Rightarrow> Done l
      | op # ops \<Rightarrow> bind_outcome (op_process onCreate io ctl op (l\<lparr>e_ops := ops\<rparr>))
          (processOps n onCreate io ctl))"

subsection \<open>Starting and stopping\<close>

definition evl_stop :: "evl \<Rightarrow> evl" where
  "evl_stop l =
     (let status = e_status l;
          l = (if status = EVL_RUNNING then l\<lparr>e_status := EVL_CLOSING\<rparr> else l)
      in if status = EVL_RUNNING then asynCloseAllConnections l else l)"

definition run_start :: "evl \<Rightarrow> evl" where
  "run_start l = l\<lparr>e_status := EVL_RUNNING\<rparr>"

text \<open>The test of \<open>run\<close> after operators and timers: \<open>None\<close> when the loop goes on to wait for events.\<close>

definition run_exit :: "evl \<Rightarrow> evl option" where
  "run_exit l =
     (if e_status l \<noteq> EVL_RUNNING \<and> ConnectionsCount l = 0 then Some (l\<lparr>e_status := EVL_CLOSED\<rparr>) else None)"

text \<open>
  One event of a connection: readable before writable, anything else is an error, and an error
  calls \<open>onFail\<close>, which for a plain connection deletes it. The handlers are parameters.
\<close>

definition handle_event :: "(con \<Rightarrow> con \<times> int) \<Rightarrow> (con \<Rightarrow> con \<times> int) \<Rightarrow> evl \<Rightarrow> int \<Rightarrow> bool \<Rightarrow> bool \<Rightarrow> evl" where
  "handle_event rd wr l i readable writable =
     (case getConnection l i of
        None \<Rightarrow> l
      | Some c \<Rightarrow>
          (let (c', ret) = (if readable then rd c else if writable then wr c else (c, -1));
               l = update_con l i c'
           in if ret < 0 then recycle l c' else l))"

subsection \<open>The invariant of the map\<close>

definition evl_ok :: "evl \<Rightarrow> bool" where
  "evl_ok l \<longleftrightarrow> map_ok (m_con_map l) \<and>
     (\<forall>i c. map_of (m_con_map l) i = Some c \<longrightarrow> c_id c = i \<and> con_ok c)"

lemma evl_ok_init: "evl_ok EventLoop_init"
  by (simp add: evl_ok_def EventLoop_init_def)

lemma safeClose_id: "safeClose c rs ctl = Done (ret, Some c', rs', w) \<Longrightarrow> c_id c' = c_id c"
  by (cases "doSend (c_send_buf c) rs") (auto simp: safeClose_def modifyNotify_def Let_def split: if_splits)

lemma sendMessage_id: "sendMessage c msg rs ctl = Done (ret, c', rs', w) \<Longrightarrow> c_id c' = c_id c"
  by (cases "send_sock rs (length msg)")
    (auto simp: sendMessage_def modifyNotify_def Let_def split: if_splits)

lemma sendMessage_failed:
  "sendMessage c msg rs ctl = Done (ret, c', rs', w) \<Longrightarrow> ret < 0 \<Longrightarrow> c' = c"
  by (cases "send_sock rs (length msg)")
    (auto simp: sendMessage_def modifyNotify_def Let_def split: if_splits)

lemma evl_ok_del: "evl_ok l \<Longrightarrow> evl_ok (delConnection l i)"
  by (auto simp: evl_ok_def delConnection_def)

lemma evl_ok_update: "evl_ok l \<Longrightarrow> c_id c = i \<Longrightarrow> con_ok c \<Longrightarrow> evl_ok (update_con l i c)"
  by (auto simp: evl_ok_def update_con_def)

lemma get_del: "getConnection (delConnection l i) j = (if j = i then None else getConnection l j)"
  by (simp add: getConnection_def delConnection_def)

lemma get_update: "getConnection (update_con l i c) j = (if j = i then Some c else getConnection l j)"
  by (simp add: getConnection_def update_con_def)

lemma evl_okD: "evl_ok l \<Longrightarrow> getConnection l i = Some c \<Longrightarrow> c_id c = i \<and> con_ok c"
  by (simp add: evl_ok_def getConnection_def)

text \<open>Closing one connection: it is gone or draining, and every other one is as it was.\<close>

lemma close_con_spec:
  assumes "close_con io ctl l i c = Done (l', ret)" "evl_ok l" "c_id c = i" "con_ok c" "0 \<le> ctl"
  shows "evl_ok l'" "e_ops l' = e_ops l \<and> e_status l' = e_status l"
    "getConnection l' j = (if j = i then
       (case safeClose c (io i) ctl of Done (_, c', _, _) \<Rightarrow> c' | _ \<Rightarrow> None) else getConnection l j)"
proof -
  obtain r c' rs w where sc: "safeClose c (io i) ctl = Done (r, c', rs, w)"
    using assms(1) by (cases "safeClose c (io i) ctl") (auto simp: close_con_def)
  have "evl_ok l' \<and> (e_ops l' = e_ops l \<and> e_status l' = e_status l) \<and>
    getConnection l' j = (if j = i then c' else getConnection l j)"
  proof (cases c')
    case None
    then have l': "l' = delConnection l i" using assms(1,3) sc by (simp add: close_con_def recycle_def)
    have "e_ops l' = e_ops l \<and> e_status l' = e_status l" by (simp add: l' delConnection_def)
    with None assms(2) show ?thesis by (simp add: l' evl_ok_del get_del)
  next
    case (Some c1)
    have "evl_ok (update_con l i c1)"
      using safeClose_id safeClose_stream(1) sc Some assms by (intro evl_ok_update) auto
    with Some assms(1) sc show ?thesis by (auto simp: close_con_def get_update) (simp_all add: update_con_def)
  qed
  with sc show "evl_ok l'" "e_ops l' = e_ops l \<and> e_status l' = e_status l"
    "getConnection l' j = (if j = i then
       (case safeClose c (io i) ctl of Done (_, c', _, _) \<Rightarrow> c' | _ \<Rightarrow> None) else getConnection l j)"
    by simp_all
qed

lemma close_list_spec:
  assumes "close_list io ctl l cons = Done l'" "evl_ok l" "0 \<le> ctl" "distinct (map fst cons)"
    "\<forall>(i, c) \<in> set cons. c_id c = i \<and> con_ok c"
  shows "evl_ok l' \<and> (e_ops l' = e_ops l \<and> e_status l' = e_status l) \<and>
    getConnection l' j = (case map_of cons j of
       Some c \<Rightarrow> (case safeClose c (io j) ctl of Done (_, c', _, _) \<Rightarrow> c' | _ \<Rightarrow> None)
     | None \<Rightarrow> getConnection l j)"
  using assms
proof (induction cons arbitrary: l)
  case (Cons e cons)
  obtain i c where e: "e = (i, c)" by fastforce
  then obtain l1 r where c1: "close_con io ctl l i c = Done (l1, r)" "close_list io ctl l1 cons = Done l'"
    using Cons.prems(1) by (cases "close_con io ctl l i c") auto
  have ic: "c_id c = i" "con_ok c" using Cons.prems(5) e by auto
  note S = close_con_spec [OF c1(1) Cons.prems(2) ic Cons.prems(3)]
  have "map_of cons i = None" using Cons.prems(4) e by (auto simp: map_of_eq_None_iff)
  with Cons.IH [OF c1(2) S(1) Cons.prems(3)] Cons.prems(4,5) e S(2) S(3) [of j] show ?case by (auto split: option.splits)
qed simp

lemma close_list_finished:
  assumes "close_list io ctl l cons = Done l'" "(i, c) \<in> set cons" "lb_size (c_send_buf c) \<noteq> 0"
  shows "\<exists>r c1 rs w. safeClose c (io i) ctl = Done (r, Some c1, rs, w)"
  using assms
proof (induction cons arbitrary: l)
  case (Cons e cons)
  obtain j d where e: "e = (j, d)" by fastforce
  then obtain l1 r where c1: "close_con io ctl l j d = Done (l1, r)" "close_list io ctl l1 cons = Done l'"
    using Cons.prems(1) by (cases "close_con io ctl l j d") auto
  show ?case
  proof (cases "(i, c) \<in> set cons")
    case True
    then show ?thesis using Cons.IH [OF c1(2)] Cons.prems(3) by blast
  next
    case False
    then have "j = i" "d = c" using Cons.prems(2) e by auto
    with c1(1) Cons.prems(3) show ?thesis
      by (cases "doSend (c_send_buf c) (io i)")
        (auto simp: close_con_def safeClose_def modifyNotify_def Let_def split: if_splits)
  qed
qed simp

lemma closeAllConnections_spec:
  assumes "closeAllConnections io ctl l = Done l'" "evl_ok l" "0 \<le> ctl"
  shows "evl_ok l' \<and> (e_ops l' = e_ops l \<and> e_status l' = e_status l) \<and>
    getConnection l' j = (case getConnection l j of
       Some c \<Rightarrow> (case safeClose c (io j) ctl of Done (_, c', _, _) \<Rightarrow> c' | _ \<Rightarrow> None)
     | None \<Rightarrow> None)"
proof -
  have dist: "distinct (map fst (m_con_map l))" using assms(2) by (simp add: evl_ok_def map_ok_distinct)
  have "\<forall>(i, c) \<in> set (m_con_map l). c_id c = i \<and> con_ok c"
    using assms(2) dist by (auto simp: evl_ok_def dest: map_of_is_SomeI [OF dist])
  with close_list_spec [OF _ assms(2,3) dist, of io l' j] assms(1) show ?thesis
    by (auto simp: closeAllConnections_def getConnection_def split: option.splits)
qed

text \<open>What is left of a connection that was closed safely: it only drains.\<close>

lemma safeClose_result:
  "safeClose c rs ctl = Done (ret, Some c', rs', w) \<Longrightarrow> 0 \<le> ctl \<Longrightarrow>
    c_flag c' = FLAG_SAFE_CLOSE \<and> c_rd_shut c' \<and> c_noti c' = WRITE_EVENT \<and> lb_size (c_send_buf c) \<noteq> 0"
  by (cases "doSend (c_send_buf c) rs") (auto simp: safeClose_def modifyNotify_def Let_def split: if_splits)

lemma evl_sendMessage_spec:
  assumes "evl_sendMessage io ctl l i msg = Done (l', ret)" "evl_ok l" "0 \<le> ctl"
    "\<And>c. getConnection l i = Some c \<Longrightarrow> msg_fits (c_send_buf c) msg"
  shows "evl_ok l'" "j \<noteq> i \<Longrightarrow> getConnection l' j = getConnection l j"
proof -
  have "evl_ok l' \<and> (j \<noteq> i \<longrightarrow> getConnection l' j = getConnection l j)"
  proof (cases "getConnection l i")
    case (Some c)
    then obtain r c' rs w where sm: "sendMessage c msg (io i) ctl = Done (r, c', rs, w)"
      using assms(1) by (cases "sendMessage c msg (io i) ctl") (auto simp: evl_sendMessage_def)
    have c: "c_id c = i" "con_ok c" using evl_okD [OF assms(2) Some] by auto
    have c': "c_id c' = i" using sendMessage_id [OF sm] c by simp
    show ?thesis
    proof (cases "r < 0")
      case True
      with sendMessage_failed [OF sm] have "c' = c" by simp
      with Some sm True assms(1,2) c show ?thesis
        by (auto simp: evl_sendMessage_def recycle_def get_del get_update intro!: evl_ok_del evl_ok_update)
    next
      case False
      with sendMessage_stream(1) [OF sm c(2) _ assms(3) assms(4) [OF Some]] Some sm assms(1,2) c' show ?thesis
        by (auto simp: evl_sendMessage_def get_update intro!: evl_ok_update)
    qed
  qed (use assms in \<open>auto simp: evl_sendMessage_def\<close>)
  then show "evl_ok l'" "j \<noteq> i \<Longrightarrow> getConnection l' j = getConnection l j" by auto
qed

lemma addConnection_ok:
  assumes "evl_ok l" "con_ok (fst (onCreate c))"
  shows "evl_ok (fst (addConnection onCreate l c))"
  using assms by (cases "onCreate c") (auto simp: addConnection_def recycle_def evl_ok_del, auto simp: evl_ok_def)

subsection \<open>Properties\<close>

text \<open>
  Closing all connections of a loop. Every connection with nothing left to send is gone; every
  other one is still there, marked to close, shut for reading, and waits only to be writable, so
  that it can drain; no connection appears, and the map stays consistent.
\<close>

theorem closeAll_drains:
  assumes "closeAllConnections io ctl l = Done l'" "evl_ok l" "0 \<le> ctl"
  shows "evl_ok l' \<and> (\<forall>i. case getConnection l i of
      None \<Rightarrow> getConnection l' i = None
    | Some c \<Rightarrow> if lb_size (c_send_buf c) = 0 then getConnection l' i = None
        else (\<exists>c'. getConnection l' i = Some c' \<and> c_flag c' = FLAG_SAFE_CLOSE \<and> c_rd_shut c' \<and>
          c_noti c' = WRITE_EVENT))"
proof -
  note S = closeAllConnections_spec [OF assms]
  have "case getConnection l i of
      None \<Rightarrow> getConnection l' i = None
    | Some c \<Rightarrow> if lb_size (c_send_buf c) = 0 then getConnection l' i = None
        else (\<exists>c'. getConnection l' i = Some c' \<and> c_flag c' = FLAG_SAFE_CLOSE \<and> c_rd_shut c' \<and>
          c_noti c' = WRITE_EVENT)" for i
  proof (cases "getConnection l i")
    case None
    with S [of i] show ?thesis by simp
  next
    case (Some c)
    show ?thesis
    proof (cases "lb_size (c_send_buf c) = 0")
      case True
      with S [of i] Some show ?thesis by (simp add: safeClose_drained)
    next
      case False
      obtain r c1 rs w where "safeClose c (io i) ctl = Done (r, Some c1, rs, w)"
        using assms(1) Some False close_list_finished [of io ctl l "m_con_map l" l' i c]
        by (auto simp: closeAllConnections_def getConnection_def dest!: map_of_SomeD)
      with S [of i] Some False safeClose_result [OF this assms(3)] show ?thesis by auto
    qed
  qed
  with S show ?thesis by blast
qed

text \<open>A loop with one idle connection (7) and one (8) that has a byte queued.\<close>

definition queued_con :: "int \<Rightarrow> con" where
  "queued_con i = (Connection_init i)\<lparr>c_noti := READ_EVENT OR WRITE_EVENT,
     c_send_buf := fst (autoResizeWrite LoopBuf [99] (length [99 :: byte]))\<rparr>"

lemma queued_con_data:
  "c_id (queued_con i) = i" "lb_inv (c_send_buf (queued_con i))" "lb_data (c_send_buf (queued_con i)) = [99]"
  "con_ok (queued_con i)"
  using queue_write [OF LoopBuf_inv, of "[99]"] by (simp_all add: queued_con_def con_ok_def queue_fits_def Connection_init_def)

definition two_cons :: evl where
  "two_cons = EventLoop_init\<lparr>m_con_map := [(7, Connection_init 7), (8, queued_con 8)], e_status := EVL_RUNNING\<rparr>"

lemma two_cons_ok: "evl_ok two_cons"
  using queued_con_data [of 8] Connection_init_ok [of 7]
  by (simp add: two_cons_def evl_ok_def map_ok_def) (simp add: Connection_init_def)

lemma two_cons_sizes:
  "lb_size (c_send_buf (queued_con i)) = 1" "lb_size (c_send_buf (Connection_init i)) = 0"
  by (simp_all add: lb_invD(4) queued_con_data) (simp add: Connection_init_def LoopBuf_def)

lemma two_cons_get:
  "getConnection two_cons 7 = Some (Connection_init 7)" "getConnection two_cons 8 = Some (queued_con 8)"
  by (simp_all add: getConnection_def two_cons_def)

abbreviation busy_io :: "int \<Rightarrow> send_result list" where
  "busy_io \<equiv> \<lambda>_. [(0, E_AGAIN), (0, E_AGAIN)]"

lemma two_cons_close:
  assumes "m_con_map l = m_con_map two_cons"
  shows "\<exists>l'. closeAllConnections busy_io 0 l = Done l'"
proof -
  have "length (lb_data (c_send_buf (queued_con 8))) < length (filter ends_call (busy_io 8))"
    by (simp add: queued_con_data)
  from doSend_done [OF queued_con_data(2) this] obtain r where
    "doSend (c_send_buf (queued_con 8)) (busy_io 8) = Done r" by blast
  then show ?thesis
    using two_cons_sizes [of 8] two_cons_sizes [of 7] assms
    by (cases r) (auto simp: closeAllConnections_def two_cons_def close_con_def safeClose_drained
        safeClose_def modifyNotify_def Let_def)
qed

theorem closeAll_drains_witness:
  "\<exists>l' c'. getConnection l' 7 = None \<and> getConnection l' 8 = Some c' \<and> c_flag c' = FLAG_SAFE_CLOSE"
proof -
  obtain l' where l': "closeAllConnections busy_io 0 two_cons = Done l'"
    using two_cons_close by blast
  note D = closeAll_drains [OF l' two_cons_ok order_refl, THEN conjunct2, THEN spec]
  from D [of 7] D [of 8] show ?thesis
    unfolding two_cons_get by (auto simp: two_cons_sizes)
qed

lemma no_connection: "ConnectionsCount l = 0 \<longleftrightarrow> (\<forall>i. getConnection l i = None)"
proof
  assume none: "\<forall>i. getConnection l i = None"
  then show "ConnectionsCount l = 0"
    by (cases "m_con_map l") (auto simp: getConnection_def ConnectionsCount_def split: if_splits)
qed (simp add: getConnection_def ConnectionsCount_def)

text \<open>
  A running loop that is stopped. The one operator that \<open>stop\<close> queues closes every connection, and
  the loop ends at once, with status CLOSED, exactly if no connection had bytes left to send;
  otherwise it goes on, with status CLOSING.
\<close>

theorem stop_then_exit:
  assumes "e_status l = EVL_RUNNING" "e_ops l = []" "evl_ok l" "0 \<le> ctl"
    "processOps 1 onCreate io ctl (evl_stop l) = Done l'"
  shows "e_status l' = EVL_CLOSING \<and>
    run_exit l' = (if \<forall>i c. getConnection l i = Some c \<longrightarrow> lb_size (c_send_buf c) = 0
      then Some (l'\<lparr>e_status := EVL_CLOSED\<rparr>) else None)"
proof -
  let ?l = "l\<lparr>e_status := EVL_CLOSING, e_ops := []\<rparr>"
  have ok: "evl_ok ?l" and get: "getConnection ?l i = getConnection l i" for i
    using assms(3) by (simp_all add: evl_ok_def getConnection_def)
  have "evl_stop l = l\<lparr>e_status := EVL_CLOSING, e_ops := [CloseAllConnectionsOp]\<rparr>"
    using assms(1,2) by (simp add: evl_stop_def asynCloseAllConnections_def Let_def)
  then have c: "closeAllConnections io ctl ?l = Done l'"
    using assms(5) by (cases "closeAllConnections io ctl ?l") (auto simp: op_process_def split: if_splits)
  note S = closeAllConnections_spec [OF c ok assms(4)]
  have gone: "getConnection l' i = None \<longleftrightarrow> (\<forall>c. getConnection l i = Some c \<longrightarrow> lb_size (c_send_buf c) = 0)" for i
  proof (cases "getConnection l i")
    case None
    with S [of i] get show ?thesis by simp
  next
    case (Some d)
    show ?thesis
    proof (cases "lb_size (c_send_buf d) = 0")
      case True
      with S [of i] Some get show ?thesis by (simp add: safeClose_drained)
    next
      case False
      obtain r c1 rs w where "safeClose d (io i) ctl = Done (r, Some c1, rs, w)"
        using c Some False close_list_finished [of io ctl ?l "m_con_map l" l' i d]
        by (auto simp: closeAllConnections_def getConnection_def dest!: map_of_SomeD)
      with S [of i] Some get False show ?thesis by simp
    qed
  qed
  have st: "e_status l' = EVL_CLOSING" using S by simp
  moreover have "EVL_CLOSING \<noteq> EVL_RUNNING" by (simp add: evl_status_defs)
  moreover have "ConnectionsCount l' = 0 \<longleftrightarrow> (\<forall>i c. getConnection l i = Some c \<longrightarrow> lb_size (c_send_buf c) = 0)"
    using gone by (auto simp: no_connection)
  ultimately show ?thesis by (simp add: run_exit_def)
qed

theorem stop_then_exit_witness:
  "\<exists>l'. processOps 1 (\<lambda>c. (c, 0)) busy_io 0 (evl_stop two_cons) = Done l' \<and> run_exit l' = None"
proof -
  let ?l = "two_cons\<lparr>e_status := EVL_CLOSING, e_ops := []\<rparr>"
  have st: "e_status two_cons = EVL_RUNNING" "e_ops two_cons = []" by (simp_all add: two_cons_def EventLoop_init_def)
  obtain l2 where c: "closeAllConnections busy_io 0 ?l = Done l2" using two_cons_close [of ?l] by auto
  have "evl_ok ?l" using two_cons_ok by (simp add: evl_ok_def)
  from closeAllConnections_spec [OF c this] have ops: "e_ops l2 = []" by simp
  have "evl_stop two_cons = two_cons\<lparr>e_status := EVL_CLOSING, e_ops := [CloseAllConnectionsOp]\<rparr>"
    using st by (simp add: evl_stop_def asynCloseAllConnections_def Let_def)
  with c ops have l2: "processOps 1 (\<lambda>c. (c, 0)) busy_io 0 (evl_stop two_cons) = Done l2"
    by (simp add: op_process_def)
  have "\<not> (\<forall>i c. getConnection two_cons i = Some c \<longrightarrow> lb_size (c_send_buf c) = 0)"
    using two_cons_get(2) two_cons_sizes(1) [of 8] by (metis zero_neq_one)
  with stop_then_exit [OF st two_cons_ok order_refl l2] have "run_exit l2 = None" by (simp only: if_False)
  with l2 show ?thesis by blast
qed

text \<open>A stop that comes before \<open>run\<close> has no effect at all, and \<open>run\<close> then starts as ever.\<close>

lemma stop_before_run: "evl_stop EventLoop_init = EventLoop_init" "run_exit (run_start l) = None"
  by (simp_all add: evl_stop_def EventLoop_init_def evl_status_defs run_exit_def run_start_def)

text \<open>
  Ids that collide. A connection whose id is taken is not entered in the map and nothing says
  so to the caller; when it is deleted, the connection that holds the id is taken out instead.
\<close>

theorem id_collision:
  assumes "getConnection l i = Some c1" "onCreate c2 = (c2', r)" "c_id c2' = i" "0 \<le> r"
  shows "addConnection onCreate l c2 = (l, 0) \<and> getConnection (recycle l c2') i = None"
  using assms by (auto simp: addConnection_def getConnection_def recycle_def delConnection_def)

theorem id_collision_witness:
  "getConnection two_cons 8 = Some (queued_con 8) \<and>
   getConnection (recycle (fst (addConnection (\<lambda>c. (c, 0)) two_cons (Connection_init 8))) (Connection_init 8)) 8 = None"
proof -
  have g: "getConnection two_cons 8 = Some (queued_con 8)" by (simp add: getConnection_def two_cons_def)
  have "c_id (Connection_init 8) = 8" by (simp add: Connection_init_def)
  from id_collision [OF g, of "\<lambda>c. (c, 0)" "Connection_init 8", OF refl this] g show ?thesis by simp
qed

text \<open>
  A message for one connection changes no other connection of the loop, a failed send takes
  exactly its connection out of the map, and a message for an unknown id changes nothing.
\<close>

lemma message_isolated:
  assumes "evl_sendMessage io ctl l i msg = Done (l', ret)" "evl_ok l" "0 \<le> ctl"
    "\<forall>c. getConnection l i = Some c \<longrightarrow> msg_fits (c_send_buf c) msg"
  shows "evl_ok l' \<and> (\<forall>j. j \<noteq> i \<longrightarrow> getConnection l' j = getConnection l j) \<and>
    (getConnection l i = None \<longrightarrow> l' = l)"
  using evl_sendMessage_spec [OF assms(1-3)] assms(1,4) by (auto simp: evl_sendMessage_def)

end
