(* ===== verification/OpsQueue.thy ===== *)
theory OpsQueue
  imports LoopBuf
begin

text \<open>
  The hand-over of operators to an event loop (\<^verbatim>\<open>addAsynOperator\<close> and \<^verbatim>\<open>processOps\<close> of
  \<^verbatim>\<open>efnfw/net/ef_event_loop.cpp\<close>): any number of threads put pointers into a queue under a mutex,
  raise a flag and wake the loop with a byte on a socket pair. Each atomic action is a definition;
  a step relation interleaves the actions of the producers and of the loop.
\<close>

subsection \<open>Pointers in a byte queue\<close>

type_synonym ptr = "64 word"

definition ptr_bytes :: "ptr \<Rightarrow> bytes" where
  "ptr_bytes p = map (\<lambda>i. ucast (drop_bit (8 * i) p)) [0..<8]"

fun ptr_of :: "bytes \<Rightarrow> ptr" where
  "ptr_of [] = 0"
| "ptr_of (b # bs) = ucast b + push_bit 8 (ptr_of bs)"

definition sizeof_ptr :: nat where "sizeof_ptr = 8"

subsection \<open>The shared state and the atomic actions\<close>

text \<open>
  \<open>q_ctl\<close>: the bytes that wait in \<^verbatim>\<open>m_ctlfd\<close>. \<open>q_cas\<close>, \<open>q_send\<close>: how many threads are in
  \<open>addAsynOperator\<close> before the compare-exchange and before the \<^verbatim>\<open>send\<close>. \<open>q_pc\<close>: where the loop is.
  \<open>q_done\<close>: the operators processed so far.
\<close>

datatype loop_pc = L_wait | L_exchange | L_recv | L_take

record opq =
  m_ops :: loop_buf
  m_ops_flag :: int
  q_ctl :: nat
  q_cas :: nat
  q_send :: nat
  q_pc :: loop_pc
  q_done :: "ptr list"

definition opq_init :: opq where
  "opq_init = \<lparr>m_ops = LoopBuf, m_ops_flag = 0, q_ctl = 0, q_cas = 0, q_send = 0,
     q_pc = L_exchange, q_done = []\<rparr>"

text \<open>\<open>addAsynOperator\<close>: the write under the mutex, the compare-exchange, the wake-up byte.\<close>

definition add_write :: "ptr \<Rightarrow> opq \<Rightarrow> opq" where
  "add_write op q =
     q\<lparr>m_ops := fst (autoResizeWrite (m_ops q) (ptr_bytes op) (length (ptr_bytes op))),
       q_cas := q_cas q + 1\<rparr>"

definition add_cas :: "opq \<Rightarrow> opq" where
  "add_cas q =
     (let flag = m_ops_flag q;
          q = q\<lparr>m_ops_flag := (if flag = 0 then 1 else flag), q_cas := q_cas q - 1\<rparr>
      in if flag = 0 then q\<lparr>q_send := q_send q + 1\<rparr> else q)"

definition add_send :: "opq \<Rightarrow> opq" where
  "add_send q = q\<lparr>q_ctl := q_ctl q + 1, q_send := q_send q - 1\<rparr>"

text \<open>\<open>processOps\<close>: the flag is lowered, then the socket is emptied, then operators are taken one by one.\<close>

definition ops_exchange :: "opq \<Rightarrow> opq" where
  "ops_exchange q = q\<lparr>m_ops_flag := 0, q_pc := L_recv\<rparr>"

definition ops_recv :: "opq \<Rightarrow> opq" where
  "ops_recv q = q\<lparr>q_ctl := q_ctl q - min (q_ctl q) (1024 * 16), q_pc := L_take\<rparr>"

definition ops_take :: "opq \<Rightarrow> opq outcome" where
  "ops_take q =
     (if lb_size (m_ops q) \<noteq> 0 \<and> lb_size (m_ops q) \<ge> sizeof_ptr then
        bind_outcome (lb_read (m_ops q) False sizeof_ptr)
          (\<lambda>(b, bs). Done (q\<lparr>m_ops := b, q_done := q_done q @ [ptr_of bs]\<rparr>))
      else Done (q\<lparr>q_pc := L_wait\<rparr>))"

text \<open>\<^verbatim>\<open>epoll_wait\<close> without a timeout returns for the control socket when it holds a byte.\<close>

definition ops_wake :: "opq \<Rightarrow> opq" where
  "ops_wake q = q\<lparr>q_pc := L_exchange\<rparr>"

text \<open>
  \<open>opq_step ev q q'\<close>: \<open>ev = Some op\<close> when an operator is handed over. No other event wakes the loop.
\<close>

inductive opq_step :: "ptr option \<Rightarrow> opq \<Rightarrow> opq \<Rightarrow> bool" where
  st_write: "opq_step (Some op) q (add_write op q)"
| st_cas: "0 < q_cas q \<Longrightarrow> opq_step None q (add_cas q)"
| st_send: "0 < q_send q \<Longrightarrow> opq_step None q (add_send q)"
| st_exchange: "q_pc q = L_exchange \<Longrightarrow> opq_step None q (ops_exchange q)"
| st_recv: "q_pc q = L_recv \<Longrightarrow> opq_step None q (ops_recv q)"
| st_take: "q_pc q = L_take \<Longrightarrow> ops_take q = Done q' \<Longrightarrow> opq_step None q q'"
| st_wake: "q_pc q = L_wait \<Longrightarrow> 0 < q_ctl q \<Longrightarrow> opq_step None q (ops_wake q)"

inductive_cases opq_stepE: "opq_step ev q q'"

text \<open>A run, with the operators handed over in it.\<close>

inductive opq_run :: "opq \<Rightarrow> ptr list \<Rightarrow> opq \<Rightarrow> bool" where
  run_none: "opq_run q [] q"
| run_step: "opq_run q ops q' \<Longrightarrow> opq_step ev q' q'' \<Longrightarrow>
    opq_run q (ops @ (case ev of None \<Rightarrow> [] | Some op \<Rightarrow> [op])) q''"

subsection \<open>Lemmas\<close>

lemma length_ptr_bytes [simp]: "length (ptr_bytes p) = 8"
  by (simp add: ptr_bytes_def)

lemma low_byte: "(ucast (ucast q :: byte) :: ptr) = take_bit 8 q"
  by (rule bit_eqI) (auto simp: bit_simps)

lemma ptr_of_bytes: "ptr_of (ptr_bytes p) = p"
proof -
  have step: "ucast (ucast (drop_bit k p) :: byte) + push_bit 8 (drop_bit (k + 8) p) = drop_bit k p" for k
    using bits_ident [of 8 "drop_bit k p"] by (simp add: low_byte add.commute)
  have top: "drop_bit 64 p = 0" by (rule bit_eqI) (simp add: bit_simps)
  have "ptr_bytes p = [ucast (drop_bit 0 p), ucast (drop_bit 8 p), ucast (drop_bit 16 p), ucast (drop_bit 24 p),
      ucast (drop_bit 32 p), ucast (drop_bit 40 p), ucast (drop_bit 48 p), ucast (drop_bit 56 p)]"
    by (simp add: ptr_bytes_def upt_rec)
  then show ?thesis
    using step [of 56] step [of 48] step [of 40] step [of 32] step [of 24] step [of 16] step [of 8] step [of 0] top
    by simp
qed

text \<open>The queue of pointers that the bytes of \<open>m_ops\<close> stand for.\<close>

definition ops_inv :: "opq \<Rightarrow> ptr list \<Rightarrow> bool" where
  "ops_inv q pend \<longleftrightarrow> lb_inv (m_ops q) \<and> lb_data (m_ops q) = concat (map ptr_bytes pend)"

lemma ops_inv_size: "ops_inv q pend \<Longrightarrow> lb_size (m_ops q) = 8 * length pend"
  by (simp add: ops_inv_def lb_invD(4) length_concat comp_def sum_list_triv)

lemma ops_inv_init: "ops_inv opq_init []"
  by (simp add: ops_inv_def opq_init_def)

lemma ops_inv_write: "ops_inv q pend \<Longrightarrow> ops_inv (add_write op q) (pend @ [op])"
  using autoResizeWrite_lossless [of "m_ops q" "ptr_bytes op"] autoResizeWrite_inv [of "m_ops q" "ptr_bytes op"]
  by (simp add: ops_inv_def add_write_def)

lemma ops_take_none: "ops_inv q [] \<Longrightarrow> ops_take q = Done (q\<lparr>q_pc := L_wait\<rparr>)"
  using ops_inv_size [of q "[]"] by (simp add: ops_take_def)

lemma ops_take_some:
  assumes "ops_inv q (op # pend)"
  shows "\<exists>q'. ops_take q = Done q' \<and> ops_inv q' pend \<and> q_done q' = q_done q @ [op] \<and>
    m_ops_flag q' = m_ops_flag q \<and> q_ctl q' = q_ctl q \<and> q_cas q' = q_cas q \<and> q_send q' = q_send q \<and> q_pc q' = q_pc q"
proof -
  have d: "lb_data (m_ops q) = ptr_bytes op @ concat (map ptr_bytes pend)" and inv: "lb_inv (m_ops q)"
    using assms by (simp_all add: ops_inv_def)
  have "8 \<le> lb_size (m_ops q)" using ops_inv_size [OF assms] by simp
  from lbq.peek_then_read [OF inv this] lb_read_done [OF inv, of 8] d obtain b where
    "lb_read (m_ops q) False 8 = Done (b, ptr_bytes op)" "lb_inv b" "lb_data b = concat (map ptr_bytes pend)"
    by auto
  with ops_inv_size [OF assms] show ?thesis
    by (auto simp: ops_take_def sizeof_ptr_def ptr_of_bytes ops_inv_def)
qed

text \<open>Every step keeps the operators: those done, then those in the queue, are those handed over.\<close>

lemma opq_step_keeps:
  assumes "opq_step ev q q'" "ops_inv q pend"
  shows "\<exists>pend'. ops_inv q' pend' \<and> q_done q' @ pend' = q_done q @ pend @ (case ev of None \<Rightarrow> [] | Some op \<Rightarrow> [op])"
  using assms(1)
proof cases
  case (st_write op)
  then show ?thesis
    using ops_inv_write [OF assms(2), of op] by (intro exI [of _ "pend @ [op]"]) (simp add: add_write_def)
next
  case st_take
  show ?thesis
  proof (cases pend)
    case Nil
    then have "ops_take q = Done (q\<lparr>q_pc := L_wait\<rparr>)" using ops_take_none assms(2) by blast
    with st_take Nil assms(2) show ?thesis by (auto simp: ops_inv_def)
  next
    case (Cons op ps)
    from ops_take_some [of q op ps] assms(2) Cons st_take show ?thesis by auto
  qed
qed (use assms(2) in \<open>auto simp: ops_inv_def add_cas_def add_send_def ops_exchange_def ops_recv_def ops_wake_def Let_def\<close>)

lemma opq_run_keeps:
  assumes "opq_run q ops q'" "q = opq_init"
  shows "\<exists>pend. ops_inv q' pend \<and> q_done q' @ pend = ops"
  using assms
proof induction
  case (run_none q)
  then show ?case using ops_inv_init by (auto simp: opq_init_def)
next
  case (run_step q ops q' ev q'')
  then obtain pend where p: "ops_inv q' pend" "q_done q' @ pend = ops" by blast
  from opq_step_keeps [OF run_step(2) p(1)] p(2) show ?case by (metis append.assoc)
qed

subsection \<open>The lost wake-up\<close>

text \<open>
  The flag is up, the loop waits, and no byte is on its way: nothing but an unrelated event brings
  the loop back.
\<close>

definition asleep :: "opq \<Rightarrow> bool" where
  "asleep q \<longleftrightarrow> m_ops_flag q \<noteq> 0 \<and> q_pc q = L_wait \<and> q_ctl q = 0 \<and> q_send q = 0"

lemma asleep_step:
  assumes "opq_step ev q q'" "asleep q"
  shows "asleep q' \<and> q_done q' = q_done q"
  using assms(1) by cases (use assms(2) in \<open>auto simp: asleep_def add_write_def add_cas_def Let_def\<close>)

lemma asleep_run: "opq_run q ops q' \<Longrightarrow> asleep q \<Longrightarrow> asleep q' \<and> q_done q' = q_done q"
  by (induction rule: opq_run.induct) (auto dest: asleep_step)

lemma run_more: "opq_run q ops q' \<Longrightarrow> opq_step None q' q'' \<Longrightarrow> opq_run q ops q''"
  using run_step [of q ops q' None q''] by simp

lemma run_write: "opq_run q ops q' \<Longrightarrow> opq_run q (ops @ [op]) (add_write op q')"
  using run_step [of q ops q' "Some op" "add_write op q'"] by (simp add: st_write)

text \<open>
  Two threads hand over one operator each. The second raises the flag after the loop has lowered it and
  sends its byte before the loop empties the socket, so the loop swallows the byte that the raised
  flag stands for.
\<close>

lemma reach_asleep:
  "\<exists>q. opq_run opq_init [op1, op2] q \<and> asleep q \<and> q_done q = [op1, op2]"
proof -
  define q1 where "q1 = add_cas (add_write op1 opq_init)"
  define q2 where "q2 = ops_exchange (add_send q1)"
  define q3 where "q3 = add_send (add_cas (add_write op2 q2))"
  define q4 where "q4 = ops_recv q3"
  note defs = q1_def q2_def q3_def q4_def add_cas_def add_write_def add_send_def ops_exchange_def
    ops_recv_def opq_init_def Let_def
  have r1: "opq_run opq_init [op1] q1"
    using run_write [OF run_none, of opq_init op1] unfolding q1_def
    by (intro run_more [OF _ st_cas]) (simp_all add: add_write_def)
  have "opq_run opq_init [op1] (add_send q1)"
    using r1 by (rule run_more [OF _ st_send]) (simp add: defs)
  then have r2: "opq_run opq_init [op1] q2"
    unfolding q2_def by (rule run_more [OF _ st_exchange]) (simp add: defs)
  have "opq_run opq_init [op1, op2] (add_write op2 q2)" using run_write [OF r2, of op2] by simp
  then have "opq_run opq_init [op1, op2] (add_cas (add_write op2 q2))"
    by (rule run_more [OF _ st_cas]) (simp add: add_write_def)
  then have "opq_run opq_init [op1, op2] q3"
    unfolding q3_def by (rule run_more [OF _ st_send]) (simp add: defs)
  then have r4: "opq_run opq_init [op1, op2] q4"
    unfolding q4_def by (rule run_more [OF _ st_recv]) (simp add: defs)
  have q4: "q_done q4 = []" "m_ops_flag q4 = 1" "q_ctl q4 = 0" "q_send q4 = 0" "q_pc q4 = L_take"
    by (simp_all add: defs)
  have "ops_inv q4 [op1, op2]"
  proof -
    obtain pend where "ops_inv q4 pend" "q_done q4 @ pend = [op1, op2]" using opq_run_keeps [OF r4] by auto
    then show ?thesis using q4(1) by simp
  qed
  from ops_take_some [OF this] obtain q5 where q5: "ops_take q4 = Done q5" "ops_inv q5 [op2]"
    "q_done q5 = [op1]" "m_ops_flag q5 = 1" "q_ctl q5 = 0" "q_send q5 = 0" "q_pc q5 = L_take"
    using q4 by auto
  from ops_take_some [OF q5(2)] obtain q6 where q6: "ops_take q5 = Done q6" "ops_inv q6 []"
    "q_done q6 = [op1, op2]" "m_ops_flag q6 = 1" "q_ctl q6 = 0" "q_send q6 = 0" "q_pc q6 = L_take"
    using q5 by auto
  have "opq_run opq_init [op1, op2] (q6\<lparr>q_pc := L_wait\<rparr>)"
    using r4 st_take [OF q4(5) q5(1)] st_take [OF q5(7) q6(1)] st_take [OF q6(7) ops_take_none [OF q6(2)]]
    by (blast intro: run_more)
  moreover have "asleep (q6\<lparr>q_pc := L_wait\<rparr>)" using q6 by (simp add: asleep_def)
  ultimately show ?thesis using q6(3) by (metis opq.select_convs(7) opq.surjective opq.update_convs(6))
qed

subsection \<open>Properties\<close>

text \<open>
  C8: in every interleaving of any number of threads with the loop, operators are processed in
  the order in which they were handed over, none is lost and none is processed twice: what is
  done and what the queue still holds are together what was handed over.
\<close>

theorem operators_fifo:
  assumes "opq_run opq_init ops q"
  shows "\<exists>pend. q_done q @ pend = ops \<and> lb_data (m_ops q) = concat (map ptr_bytes pend)"
  using opq_run_keeps [OF assms] by (auto simp: ops_inv_def)

theorem operators_fifo_witness:
  "\<exists>(q :: opq) pend. q_done q @ pend = [5, 7] \<and> q_done q = [5, 7] \<and> lb_data (m_ops q) = concat (map ptr_bytes pend)"
proof -
  obtain q where "opq_run opq_init [5, 7] q" "q_done q = [5, 7]" using reach_asleep [of 5 7] by blast
  with operators_fifo [OF this(1)] show ?thesis by blast
qed

text \<open>
  C9: The wake-up can be lost for good. There is an interleaving of two hand-overs with the loop
  after which every operator that is handed over later stays in the queue, however many there are,
  until some other event wakes the loop.
\<close>

theorem wakeup_lost:
  "\<exists>q. opq_run opq_init [op1, op2] q \<and> (\<forall>ops q'. opq_run q ops q' \<longrightarrow> q_done q' = [op1, op2])"
  using reach_asleep [of op1 op2] asleep_run by metis

text \<open>A third operator, 9, handed over afterwards, is in the queue and not done.\<close>

theorem wakeup_lost_witness:
  "\<exists>q :: opq. opq_run opq_init [5, 7, 9] q \<and> q_done q = [5, 7] \<and> lb_data (m_ops q) = ptr_bytes 9"
proof -
  obtain q where q: "opq_run opq_init [5, 7] q" "\<forall>ops q'. opq_run q ops q' \<longrightarrow> q_done q' = [5, 7]"
    using wakeup_lost [of 5 7] by blast
  have run: "opq_run opq_init [5, 7, 9] (add_write 9 q)" using run_write [OF q(1), of 9] by simp
  have dn: "q_done (add_write 9 q) = [5, 7]" using q(2) run_write [OF run_none, of q 9] by blast
  obtain pend where "ops_inv (add_write 9 q) pend" "q_done (add_write 9 q) @ pend = [5, 7, 9]"
    using opq_run_keeps [OF run] by auto
  with dn have "lb_data (m_ops (add_write 9 q)) = ptr_bytes 9" by (simp add: ops_inv_def)
  with run dn show ?thesis by blast
qed

end
