(* ===== verification/Timers.thy ===== *)
theory Timers
  imports Utility Containers
begin

text \<open>
  \<^verbatim>\<open>efnfw/net/ef_timer.h\<close>, \<^verbatim>\<open>ef_timer.cpp\<close> and the timer part of \<^verbatim>\<open>ef_event_loop.cpp\<close> and
  \<^verbatim>\<open>ef_connection.cpp\<close>. Timers live in a store indexed by their address; the loop's
  \<^verbatim>\<open>std::set<Timer*, less>\<close> is the list of its elements in the order of \<open>less\<close>. The clock is an
  argument: the i-th reading of \<^verbatim>\<open>gettimeofday\<close> in a call.
\<close>

subsection \<open>Points in time\<close>

datatype time_tv = time_tv (m_sec: int) (m_usec: int)

instantiation time_tv :: linorder
begin

definition less_time_tv :: "time_tv \<Rightarrow> time_tv \<Rightarrow> bool" where
  "less_time_tv t u =
     (if m_sec t < m_sec u then True
      else if m_sec t > m_sec u then False
      else m_usec t < m_usec u)"

definition less_eq_time_tv :: "time_tv \<Rightarrow> time_tv \<Rightarrow> bool" where
  "less_eq_time_tv t u = (t < u \<or> t = u)"

instance
  proof
  fix t u v :: time_tv
  show "t < u \<longleftrightarrow> t \<le> u \<and> \<not> u \<le> t" "t \<le> t"
    by (auto simp: less_time_tv_def less_eq_time_tv_def)
  show "t \<le> u \<Longrightarrow> u \<le> v \<Longrightarrow> t \<le> v"
    by (auto simp: less_time_tv_def less_eq_time_tv_def split: if_splits)
  show "t \<le> u \<Longrightarrow> u \<le> t \<Longrightarrow> t = u" "t \<le> u \<or> u \<le> t"
    by (cases t; cases u; auto simp: less_time_tv_def less_eq_time_tv_def split: if_splits)+
qed

end

definition time_tv_of :: "timeval \<Rightarrow> time_tv" where
  "time_tv_of tv = time_tv (tv_sec tv) (tv_usec tv)"

definition timeval_of :: "time_tv \<Rightarrow> timeval" where
  "timeval_of t = \<lparr>tv_sec = m_sec t, tv_usec = m_usec t\<rparr>"

text \<open>\<open>setTimeOutAfter\<close>: the deadline \<open>ms\<close> milliseconds after the clock's \<open>tv\<close>.\<close>

definition setTimeOutAfter :: "timeval \<Rightarrow> int \<Rightarrow> time_tv" where
  "setTimeOutAfter tv ms =
     (let tv = tv\<lparr>tv_sec := tv_sec tv + c_div ms 1000\<rparr>;
          tv = tv\<lparr>tv_usec := tv_usec tv + c_mod ms 1000 * 1000\<rparr>;
          tv = tv\<lparr>tv_sec := tv_sec tv + c_div (tv_usec tv) 1000000\<rparr>;
          tv = tv\<lparr>tv_usec := c_mod (tv_usec tv) 1000000\<rparr>
      in time_tv_of tv)"

subsection \<open>The timers of a loop\<close>

definition STATUS_INIT :: int where "STATUS_INIT = 0"
definition STATUS_START :: int where "STATUS_START = 1"
definition STATUS_STOP :: int where "STATUS_STOP = 2"

lemmas timer_status_defs = STATUS_INIT_def STATUS_START_def STATUS_STOP_def

record ConnectionTimer =
  m_timeouttime :: time_tv
  m_con :: int
  m_id :: int
  m_status :: int

text \<open>
  \<open>t_heap\<close>: the timers by address; \<open>t_owner\<close>: the \<open>m_timers\<close> of every connection of the loop, the
  address of a connection's timer with an id; \<open>m_timer_map\<close>: the loop's set; \<open>t_next\<close>: an address
  that is free.
\<close>

record timers =
  t_heap :: "int \<Rightarrow> ConnectionTimer option"
  t_owner :: "int \<times> int \<Rightarrow> int option"
  m_timer_map :: "int list"
  t_next :: int

definition timer_less :: "(int \<Rightarrow> ConnectionTimer option) \<Rightarrow> int \<Rightarrow> int \<Rightarrow> bool" where
  "timer_less h a b =
     (if a = b then False
      else let t = m_timeouttime (the (h a)); u = m_timeouttime (the (h b))
           in if t < u then True
              else if t > u then False
              else a < b)"

definition addTimer :: "timers \<Rightarrow> int \<Rightarrow> timers" where
  "addTimer s tm = s\<lparr>m_timer_map := set_insert (timer_less (t_heap s)) tm (m_timer_map s)\<rparr>"

definition delTimer :: "timers \<Rightarrow> int \<Rightarrow> timers" where
  "delTimer s tm = s\<lparr>m_timer_map := set_erase (timer_less (t_heap s)) tm (m_timer_map s)\<rparr>"

definition getTimer :: "timers \<Rightarrow> int \<Rightarrow> int \<Rightarrow> int option" where
  "getTimer s con i = t_owner s (con, i)"

abbreviation timer_at :: "timers \<Rightarrow> int \<Rightarrow> ConnectionTimer" where
  "timer_at s a \<equiv> the (t_heap s a)"

text \<open>\<^verbatim>\<open>new ConnectionTimer(this, id)\<close>, entered in \<open>m_timers\<close>.\<close>

definition new_timer :: "timers \<Rightarrow> int \<Rightarrow> int \<Rightarrow> timers \<times> int" where
  "new_timer s con i =
     (let a = t_next s;
          t = \<lparr>m_timeouttime = time_tv 0 0, m_con = con, m_id = i, m_status = STATUS_INIT\<rparr>
      in (s\<lparr>t_heap := (t_heap s)(a \<mapsto> t), t_owner := (t_owner s)((con, i) \<mapsto> a), t_next := a + 1\<rparr>, a))"

definition set_timer :: "timers \<Rightarrow> int \<Rightarrow> ConnectionTimer \<Rightarrow> timers" where
  "set_timer s a t = s\<lparr>t_heap := (t_heap s)(a \<mapsto> t)\<rparr>"

definition startTimer :: "timers \<Rightarrow> int \<Rightarrow> int \<Rightarrow> timeval \<Rightarrow> int \<Rightarrow> timers" where
  "startTimer s con i now timeout =
     (let (s, tm) = (case getTimer s con i of
            Some tm \<Rightarrow> (if m_status (timer_at s tm) = STATUS_START then delTimer s tm else s, tm)
          | None \<Rightarrow> new_timer s con i);
          s = set_timer s tm (timer_at s tm\<lparr>m_timeouttime := setTimeOutAfter now timeout\<rparr>);
          s = set_timer s tm (timer_at s tm\<lparr>m_status := STATUS_START\<rparr>)
      in addTimer s tm)"

definition stopTimer :: "timers \<Rightarrow> int \<Rightarrow> int \<Rightarrow> timers" where
  "stopTimer s con i =
     (case getTimer s con i of
        Some tm \<Rightarrow>
          (let s = (if m_status (timer_at s tm) = STATUS_START then delTimer s tm else s)
           in set_timer s tm (timer_at s tm\<lparr>m_status := STATUS_STOP\<rparr>))
      | None \<Rightarrow> s)"

text \<open>\<open>clearTimer\<close> of a connection whose \<open>m_timers\<close> has the ids \<open>ids\<close>: each is taken out of the loop and deleted.\<close>

fun clearTimer :: "timers \<Rightarrow> int \<Rightarrow> int list \<Rightarrow> timers" where
  "clearTimer s con [] = s"
| "clearTimer s con (i # ids) =
     (case getTimer s con i of
        Some tm \<Rightarrow>
          (let s = delTimer s tm;
               s = s\<lparr>t_heap := (t_heap s)(tm := None), t_owner := (t_owner s)((con, i) := None)\<rparr>
           in clearTimer s con ids)
      | None \<Rightarrow> clearTimer s con ids)"

subsection \<open>Running the timers\<close>

definition DEFAULT_PROC_EVENT_CNT :: nat where "DEFAULT_PROC_EVENT_CNT = 16"
definition MAX_PROC_TIMER_CNT :: nat where "MAX_PROC_TIMER_CNT = 2048"

text \<open>\<open>NetSettings::procTimerCnt\<close> starts as \<open>DEFAULT_PROC_EVENT_CNT\<close>.\<close>

definition procTimerCnt :: nat where "procTimerCnt = DEFAULT_PROC_EVENT_CNT"

text \<open>
  The loop of \<open>processTimers\<close>; \<open>n\<close> counts down from the limit. \<open>handleTimer\<close> of the timer's connection
  may start and stop timers itself, so it acts on the timers and on the rest of the program.
\<close>

fun processTimers_loop :: "nat \<Rightarrow> (int \<Rightarrow> int \<Rightarrow> timers \<times> 'a \<Rightarrow> timers \<times> 'a) \<Rightarrow> (nat \<Rightarrow> timeval) \<Rightarrow>
    timers \<times> 'a \<Rightarrow> (timers \<times> 'a) \<times> int" where
  "processTimers_loop 0 handleTimer clk sw = (sw, 0)"
| "processTimers_loop (Suc n) handleTimer clk (s, w) =
     (case m_timer_map s of
        [] \<Rightarrow> ((s, w), 0)
      | tm # rest \<Rightarrow>
          (let dif = tv_diff_ms (timeval_of (m_timeouttime (timer_at s tm))) (clk 0)
           in if dif > 0 then ((s, w), dif)
              else
                let s = s\<lparr>m_timer_map := rest\<rparr>;
                    s = set_timer s tm (timer_at s tm\<lparr>m_status := STATUS_STOP\<rparr>)
                in processTimers_loop n handleTimer (\<lambda>k. clk (Suc k))
                     (handleTimer (m_con (timer_at s tm)) (m_id (timer_at s tm)) (s, w))))"

definition processTimers :: "(int \<Rightarrow> int \<Rightarrow> timers \<times> 'a \<Rightarrow> timers \<times> 'a) \<Rightarrow> (nat \<Rightarrow> timeval) \<Rightarrow>
    timers \<times> 'a \<Rightarrow> (timers \<times> 'a) \<times> int" where
  "processTimers handleTimer clk sw =
     (let max_timer_one_loop = (if MAX_PROC_TIMER_CNT < procTimerCnt then MAX_PROC_TIMER_CNT else procTimerCnt)
      in processTimers_loop max_timer_one_loop handleTimer clk sw)"

text \<open>What \<open>run\<close> does with the value: a positive one is the timeout of \<^verbatim>\<open>epoll_wait\<close>, else it waits without one.\<close>

definition epoll_timeout :: "int \<Rightarrow> int" where
  "epoll_timeout t = (if t > 0 then t else -1)"

subsection \<open>Deadlines\<close>

text \<open>A deadline is exactly \<open>ms\<close> milliseconds away, and normalised for spans that are not negative.\<close>

lemma setTimeOutAfter_exact:
  "tv_us (timeval_of (setTimeOutAfter tv ms)) = tv_us tv + ms * 1000"
proof -
  let ?u = "tv_usec tv + c_mod ms 1000 * 1000"
  have "c_div ms 1000 * 1000 + c_mod ms 1000 = ms" "c_div ?u 1000000 * 1000000 + c_mod ?u 1000000 = ?u"
    by (rule c_div_mod)+
  then show ?thesis
    by (simp add: setTimeOutAfter_def time_tv_of_def timeval_of_def tv_us_def Let_def algebra_simps)
qed

lemma setTimeOutAfter_ok:
  "tv_ok tv \<Longrightarrow> 0 \<le> ms \<Longrightarrow> tv_ok (timeval_of (setTimeOutAfter tv ms))"
  using c_mod_range [of ms 1000] c_mod_range [of "tv_usec tv + c_mod ms 1000 * 1000" 1000000]
  by (simp add: setTimeOutAfter_def time_tv_of_def timeval_of_def tv_ok_def Let_def)

text \<open>For normalised times the order of the set is the order of the microseconds.\<close>

lemma time_tv_less_us:
  "tv_ok (timeval_of t) \<Longrightarrow> tv_ok (timeval_of u) \<Longrightarrow>
    t < u \<longleftrightarrow> tv_us (timeval_of t) < tv_us (timeval_of u)"
  by (auto simp: less_time_tv_def timeval_of_def tv_ok_def tv_us_def split: if_splits)

subsection \<open>The set of a loop\<close>

abbreviation deadline :: "(int \<Rightarrow> ConnectionTimer option) \<Rightarrow> int \<Rightarrow> time_tv" where
  "deadline h a \<equiv> m_timeouttime (the (h a))"

lemma timer_less_lex:
  "timer_less h a b \<longleftrightarrow> deadline h a < deadline h b \<or> deadline h a = deadline h b \<and> a < b"
  by (cases "deadline h a" "deadline h b" rule: linorder_cases)
    (auto simp: timer_less_def Let_def dest: order.strict_implies_not_eq)

interpretation timer_order: comparator "timer_less h" for h
proof
  fix x y z
  show "\<not> timer_less h x x" by (simp add: timer_less_def)
  show "timer_less h x y \<Longrightarrow> timer_less h y z \<Longrightarrow> timer_less h x z"
    unfolding timer_less_lex by (elim disjE conjE) (auto intro: order.strict_trans)
  show "timer_less h x y \<or> x = y \<or> timer_less h y x"
    unfolding timer_less_lex
    by (cases "deadline h x" "deadline h y" rule: linorder_cases; cases x y rule: linorder_cases) auto
qed

lemma timer_less_cong:
  "\<forall>x \<in> set xs. h x = h' x \<Longrightarrow> sorted_wrt (timer_less h) xs = sorted_wrt (timer_less h') xs"
  by (induction xs) (auto simp: timer_less_def)

text \<open>
  The invariant: the set is in order, it holds exactly the timers whose status is \<open>START\<close>, and a
  timer is entered at its connection under its id.
\<close>

definition owners_ok :: "timers \<Rightarrow> bool" where
  "owners_ok s \<longleftrightarrow>
     (\<forall>c i a. t_owner s (c, i) = Some a \<longleftrightarrow> (\<exists>t. t_heap s a = Some t \<and> m_con t = c \<and> m_id t = i)) \<and>
     (\<forall>a t. t_heap s a = Some t \<longrightarrow> a < t_next s)"

definition timers_ok :: "timers \<Rightarrow> bool" where
  "timers_ok s \<longleftrightarrow>
     sorted_wrt (timer_less (t_heap s)) (m_timer_map s) \<and>
     (\<forall>a. a \<in> set (m_timer_map s) \<longleftrightarrow> (\<exists>t. t_heap s a = Some t \<and> m_status t = STATUS_START)) \<and>
     owners_ok s"

lemma timers_okD:
  assumes "timers_ok s"
  shows "sorted_wrt (timer_less (t_heap s)) (m_timer_map s)"
    "a \<in> set (m_timer_map s) \<longleftrightarrow> (\<exists>t. t_heap s a = Some t \<and> m_status t = STATUS_START)" "owners_ok s"
  using assms by (auto simp: timers_ok_def)

lemma owners_ok_same:
  "t_heap s' = t_heap s \<Longrightarrow> t_owner s' = t_owner s \<Longrightarrow> t_next s' = t_next s \<Longrightarrow> owners_ok s' = owners_ok s"
  by (simp add: owners_ok_def)

lemma owners_ok_set:
  assumes "owners_ok s" "t_heap s a = Some t" "m_con t' = m_con t" "m_id t' = m_id t"
  shows "owners_ok (set_timer s a t')"
proof -
  have "(\<exists>u. ((t_heap s)(a \<mapsto> t')) b = Some u \<and> m_con u = c \<and> m_id u = i) \<longleftrightarrow>
      (\<exists>u. t_heap s b = Some u \<and> m_con u = c \<and> m_id u = i)" for b c i
    using assms(2-4) by simp
  then show ?thesis using assms(1,2) by (simp add: owners_ok_def set_timer_def)
qed

lemma owners_ok_new:
  assumes "owners_ok s" "t_owner s (c, i) = None"
  shows "owners_ok (fst (new_timer s c i))"
proof -
  have fresh: "t_heap s (t_next s) = None" using assms(1) unfolding owners_ok_def by (metis less_irrefl not_Some_eq)
  have used: "b < t_next s" if "t_heap s b = Some t" for b t using assms(1) that by (auto simp: owners_ok_def)
  have own: "t_owner s (c', i') = Some b \<longleftrightarrow> (\<exists>t. t_heap s b = Some t \<and> m_con t = c' \<and> m_id t = i')" for b c' i'
    using assms(1) by (simp add: owners_ok_def)
  have other: "\<not> (m_con t = c \<and> m_id t = i)" if "t_heap s b = Some t" for b t
    using own [of c i b] assms(2) that by auto
  have "(((t_owner s)((c, i) \<mapsto> t_next s)) (c', i') = Some b) \<longleftrightarrow>
      (\<exists>t. ((t_heap s)(t_next s \<mapsto> \<lparr>m_timeouttime = time_tv 0 0, m_con = c, m_id = i, m_status = STATUS_INIT\<rparr>)) b
         = Some t \<and> m_con t = c' \<and> m_id t = i')" for b c' i'
  proof (cases "b = t_next s")
    case True
    then show ?thesis using fresh own [of c' i' b] by auto
  next
    case False
    then show ?thesis using own [of c' i' b] other [of b] by auto
  qed
  moreover have "b < t_next s + 1" if "t_heap s b = Some t" for b t using used [OF that] by simp
  ultimately show ?thesis unfolding owners_ok_def new_timer_def Let_def by auto
qed

lemma delTimer_simps [simp]:
  "t_heap (delTimer s a) = t_heap s" "t_owner (delTimer s a) = t_owner s" "t_next (delTimer s a) = t_next s"
  by (simp_all add: delTimer_def)

lemma addTimer_simps [simp]:
  "t_heap (addTimer s a) = t_heap s" "t_owner (addTimer s a) = t_owner s" "t_next (addTimer s a) = t_next s"
  "set (m_timer_map (addTimer s a)) = insert a (set (m_timer_map s))"
  by (simp_all add: addTimer_def)

lemma set_timer_simps [simp]:
  "t_heap (set_timer s a t) = (t_heap s)(a \<mapsto> t)" "t_owner (set_timer s a t) = t_owner s"
  "t_next (set_timer s a t) = t_next s" "m_timer_map (set_timer s a t) = m_timer_map s"
  by (simp_all add: set_timer_def)

text \<open>
  Between two operations the invariant always holds; inside one, a single timer \<open>a\<close> may be out of
  the set whatever its status and time are. This is the invariant there.
\<close>

definition timers_but :: "int \<Rightarrow> timers \<Rightarrow> bool" where
  "timers_but a s \<longleftrightarrow>
     sorted_wrt (timer_less (t_heap s)) (m_timer_map s) \<and>
     a \<notin> set (m_timer_map s) \<and> (\<exists>t. t_heap s a = Some t) \<and>
     (\<forall>b. b \<noteq> a \<longrightarrow> (b \<in> set (m_timer_map s) \<longleftrightarrow> (\<exists>t. t_heap s b = Some t \<and> m_status t = STATUS_START))) \<and>
     owners_ok s"

lemma timers_but_del:
  assumes "timers_ok s" "t_heap s a = Some t"
  shows "timers_but a (delTimer s a)"
proof -
  note ok = timers_okD [OF assms(1)]
  have m: "m_timer_map (delTimer s a) = set_erase (timer_less (t_heap s)) a (m_timer_map s)"
    by (simp add: delTimer_def)
  show ?thesis
    using timer_order.set_erase_set [OF ok(1), of a] timer_order.set_erase_sorted [OF ok(1), of a]
      ok(2,3) assms(2) owners_ok_same [of "delTimer s a" s]
    by (simp add: timers_but_def m)
qed

lemma timers_but_idle:
  "timers_ok s \<Longrightarrow> t_heap s a = Some t \<Longrightarrow> m_status t \<noteq> STATUS_START \<Longrightarrow> timers_but a s"
  by (simp add: timers_but_def timers_ok_def)

lemma sorted_set_timer:
  "sorted_wrt (timer_less (t_heap s)) xs \<Longrightarrow> a \<notin> set xs \<Longrightarrow> sorted_wrt (timer_less ((t_heap s)(a \<mapsto> t))) xs"
  using timer_less_cong [of xs "t_heap s" "(t_heap s)(a \<mapsto> t)"] by auto

lemma timers_but_set:
  assumes "timers_but a s" "t_heap s a = Some t" "m_con t' = m_con t" "m_id t' = m_id t"
  shows "timers_but a (set_timer s a t')"
  using assms owners_ok_set [OF _ assms(2-4)] by (simp add: timers_but_def sorted_set_timer)

lemma timers_but_new:
  assumes "timers_ok s" "t_owner s (c, i) = None"
  shows "timers_but (snd (new_timer s c i)) (fst (new_timer s c i))"
proof -
  note ok = timers_okD [OF assms(1)]
  have fresh: "t_heap s (t_next s) = None"
    using ok(3) unfolding owners_ok_def by (metis less_irrefl not_Some_eq)
  then have notin: "t_next s \<notin> set (m_timer_map s)" using ok(2) by simp
  show ?thesis
    using owners_ok_new [OF ok(3) assms(2)] sorted_set_timer [OF ok(1) notin] notin ok(2)
    by (simp add: timers_but_def new_timer_def Let_def)
qed

lemma timers_but_idle_ok:
  "timers_but a s \<Longrightarrow> t_heap s a = Some t \<Longrightarrow> m_status t \<noteq> STATUS_START \<Longrightarrow> timers_ok s"
  unfolding timers_but_def timers_ok_def by (metis option.inject)

lemma timers_but_add:
  assumes "timers_but a s" "t_heap s a = Some t" "m_status t = STATUS_START"
  shows "timers_ok (addTimer s a)"
proof -
  have "sorted_wrt (timer_less (t_heap s)) (m_timer_map (addTimer s a))"
    using assms(1) timer_order.set_insert_sorted by (simp add: timers_but_def addTimer_def)
  then show ?thesis
    using assms owners_ok_same [of "addTimer s a" s] by (auto simp: timers_but_def timers_ok_def)
qed

subsection \<open>The operations keep the invariant\<close>

lemma owner_heap:
  "timers_ok s \<Longrightarrow> t_owner s (c, i) = Some a \<Longrightarrow> \<exists>t. t_heap s a = Some t \<and> m_con t = c \<and> m_id t = i"
  using timers_okD(3) by (simp add: owners_ok_def)

lemma startTimer_spec:
  assumes "timers_ok s"
  shows "timers_ok (startTimer s c i now ms)"
    "\<exists>a t. t_owner (startTimer s c i now ms) (c, i) = Some a \<and> t_heap (startTimer s c i now ms) a = Some t
      \<and> a \<in> set (m_timer_map (startTimer s c i now ms)) \<and> m_timeouttime t = setTimeOutAfter now ms"
proof -
  define s1a where "s1a = (case getTimer s c i of
      Some tm \<Rightarrow> (if m_status (timer_at s tm) = STATUS_START then delTimer s tm else s, tm)
    | None \<Rightarrow> new_timer s c i)"
  obtain s1 a where s1: "s1a = (s1, a)" by fastforce
  have but: "timers_but a s1 \<and> t_owner s1 (c, i) = Some a"
  proof (cases "t_owner s (c, i)")
    case None
    then show ?thesis
      using timers_but_new [OF assms None] s1 by (simp add: s1a_def getTimer_def) (auto simp: new_timer_def Let_def)
  next
    case (Some b)
    obtain t where t: "t_heap s b = Some t" using owner_heap [OF assms Some] by blast
    with Some s1 timers_but_del [OF assms t] timers_but_idle [OF assms t] show ?thesis
      by (auto simp: s1a_def getTimer_def split: if_splits)
  qed
  then obtain t where t: "t_heap s1 a = Some t" by (auto simp: timers_but_def)
  let ?t1 = "t\<lparr>m_timeouttime := setTimeOutAfter now ms\<rparr>"
  let ?t2 = "?t1\<lparr>m_status := STATUS_START\<rparr>"
  let ?s2 = "set_timer s1 a ?t1"
  let ?s3 = "set_timer ?s2 a ?t2"
  have eq: "startTimer s c i now ms = addTimer ?s3 a"
    using s1 t by (simp add: startTimer_def s1a_def Let_def)
  have "timers_but a ?s2" using but t by (intro timers_but_set) auto
  then have "timers_but a ?s3" by (rule timers_but_set [where t = ?t1]) auto
  then show "timers_ok (startTimer s c i now ms)"
    unfolding eq by (rule timers_but_add) auto
  show "\<exists>a t. t_owner (startTimer s c i now ms) (c, i) = Some a \<and> t_heap (startTimer s c i now ms) a = Some t
      \<and> a \<in> set (m_timer_map (startTimer s c i now ms)) \<and> m_timeouttime t = setTimeOutAfter now ms"
    unfolding eq using but by (intro exI [of _ a] exI [of _ ?t2]) auto
qed

lemma stopTimer_spec:
  assumes "timers_ok s"
  shows "timers_ok (stopTimer s c i)"
    "\<And>a. t_owner s (c, i) = Some a \<Longrightarrow> a \<notin> set (m_timer_map (stopTimer s c i))"
proof -
  have "timers_ok (stopTimer s c i) \<and> a \<notin> set (m_timer_map (stopTimer s c i))"
    if own: "t_owner s (c, i) = Some a" for a
  proof -
    obtain t where t: "t_heap s a = Some t" using owner_heap [OF assms own] by blast
    let ?s1 = "if m_status t = STATUS_START then delTimer s a else s"
    let ?s2 = "set_timer ?s1 a (t\<lparr>m_status := STATUS_STOP\<rparr>)"
    have "timers_but a ?s1" using timers_but_del [OF assms t] timers_but_idle [OF assms t] by simp
    then have but: "timers_but a ?s2" by (rule timers_but_set) (use t in auto)
    have "timers_ok ?s2" by (rule timers_but_idle_ok [OF but]) (auto simp: timer_status_defs)
    moreover have "a \<notin> set (m_timer_map ?s2)" using but unfolding timers_but_def by blast
    ultimately show ?thesis using own t
      by (cases "m_status t = STATUS_START") (simp_all add: stopTimer_def getTimer_def Let_def)
  qed
  then show "timers_ok (stopTimer s c i)" "\<And>a. t_owner s (c, i) = Some a \<Longrightarrow> a \<notin> set (m_timer_map (stopTimer s c i))"
    using assms by (cases "t_owner s (c, i)"; simp add: stopTimer_def getTimer_def)+
qed

lemma forget_timer_ok:
  assumes "timers_ok s" "t_owner s (c, i) = Some a"
  shows "timers_ok ((delTimer s a)\<lparr>t_heap := (t_heap (delTimer s a))(a := None),
    t_owner := (t_owner (delTimer s a))((c, i) := None)\<rparr>)"
proof -
  note ok = timers_okD [OF assms(1)]
  obtain t where t: "t_heap s a = Some t" "m_con t = c" "m_id t = i" using owner_heap [OF assms] by blast
  have but: "timers_but a (delTimer s a)" using timers_but_del [OF assms(1) t(1)] .
  have sorted: "sorted_wrt (timer_less ((t_heap s)(a := None))) (m_timer_map (delTimer s a))"
    using but timer_less_cong [of "m_timer_map (delTimer s a)" "t_heap s" "(t_heap s)(a := None)"]
    by (auto simp: timers_but_def)
  have mem: "b \<in> set (m_timer_map (delTimer s a)) \<longleftrightarrow>
      (\<exists>t. ((t_heap s)(a := None)) b = Some t \<and> m_status t = STATUS_START)" for b
    using but by (cases "b = a") (auto simp: timers_but_def)
  have own: "t_owner s (c', i') = Some b \<longleftrightarrow> (\<exists>t. t_heap s b = Some t \<and> m_con t = c' \<and> m_id t = i')" for b c' i'
    using ok(3) by (simp add: owners_ok_def)
  have "(((t_owner s)((c, i) := None)) (c', i') = Some b) \<longleftrightarrow>
      (\<exists>t. ((t_heap s)(a := None)) b = Some t \<and> m_con t = c' \<and> m_id t = i')" for b c' i'
    using own [of c' i' b] own [of c i b] t assms(2) by (cases "b = a") auto
  then show ?thesis
    using sorted mem ok(3) by (auto simp: timers_ok_def owners_ok_def)
qed

lemma clearTimer_ok: "timers_ok s \<Longrightarrow> timers_ok (clearTimer s c ids)"
proof (induction s c ids rule: clearTimer.induct)
  case (2 s c i ids)
  then show ?case using forget_timer_ok [of s c i] by (auto simp: getTimer_def Let_def split: option.splits)
qed simp

text \<open>A timer that is taken out of the set and marked stopped leaves the invariant in force.\<close>

lemma fire_ok:
  assumes "timers_ok s" "m_timer_map s = a # rest"
  shows "timers_ok (set_timer (s\<lparr>m_timer_map := rest\<rparr>) a (timer_at s a\<lparr>m_status := STATUS_STOP\<rparr>))"
proof -
  note ok = timers_okD [OF assms(1)]
  obtain t where t: "t_heap s a = Some t" "m_status t = STATUS_START" using ok(2) [of a] assms(2) by auto
  have "a \<notin> set rest" using ok(1) assms(2) timer_order.irrefl by auto
  then have but: "timers_but a (s\<lparr>m_timer_map := rest\<rparr>)"
    using ok assms(2) t owners_ok_same [of "s\<lparr>m_timer_map := rest\<rparr>" s] by (auto simp: timers_but_def)
  have "timers_but a (set_timer (s\<lparr>m_timer_map := rest\<rparr>) a (t\<lparr>m_status := STATUS_STOP\<rparr>))"
    using but by (rule timers_but_set) (use t in auto)
  from timers_but_idle_ok [OF this] t(1) show ?thesis by (simp add: timer_status_defs)
qed

lemma processTimers_loop_ok:
  assumes "\<And>c i s w. timers_ok s \<Longrightarrow> timers_ok (fst (handleTimer c i (s, w)))"
  shows "timers_ok (fst sw) \<Longrightarrow> timers_ok (fst (fst (processTimers_loop n handleTimer clk sw)))"
proof (induction n handleTimer\<equiv>handleTimer clk sw rule: processTimers_loop.induct)
  case (2 n clk s w)
  show ?case
  proof (cases "m_timer_map s")
    case (Cons tm rest)
    let ?s = "set_timer (s\<lparr>m_timer_map := rest\<rparr>) tm (timer_at s tm\<lparr>m_status := STATUS_STOP\<rparr>)"
    have "timers_ok ?s" using fire_ok [of s tm rest] 2(2) Cons by simp
    from assms [OF this, of "m_con (timer_at ?s tm)" "m_id (timer_at ?s tm)" w] 2 Cons show ?thesis
      by (simp add: Let_def)
  qed (use 2 in simp)
qed simp

subsection \<open>Which timers run\<close>

text \<open>A handler that starts and stops nothing and notes who was called.\<close>

definition note_fired :: "int \<Rightarrow> int \<Rightarrow> timers \<times> (int \<times> int) list \<Rightarrow> timers \<times> (int \<times> int) list" where
  "note_fired c i sw = (fst sw, snd sw @ [(c, i)])"

lemma note_fired_app [simp]: "note_fired c i (s, w) = (s, w @ [(c, i)])"
  by (simp add: note_fired_def)

definition due :: "timers \<Rightarrow> timeval \<Rightarrow> int \<Rightarrow> bool" where
  "due s now a \<longleftrightarrow> tv_diff_ms (timeval_of (m_timeouttime (timer_at s a))) now \<le> 0"

abbreviation timer_key :: "timers \<Rightarrow> int \<Rightarrow> int \<times> int" where
  "timer_key s a \<equiv> (m_con (timer_at s a), m_id (timer_at s a))"

text \<open>
  Under a clock that stands still, the first timers of the set that are due run, in the order of
  the set and at most \<open>n\<close> of them; the rest stays. The value is the time to the next deadline
  only if the loop was not cut off by its limit.
\<close>

lemma processTimers_loop_fired:
  assumes "distinct (m_timer_map s)"
  shows "\<exists>s' r. processTimers_loop n note_fired (\<lambda>_. now) (s, w) =
      ((s', w @ map (timer_key s) (take n (takeWhile (due s now) (m_timer_map s)))), r)
    \<and> m_timer_map s' = drop (length (take n (takeWhile (due s now) (m_timer_map s)))) (m_timer_map s)
    \<and> (\<forall>b. m_timeouttime (timer_at s' b) = m_timeouttime (timer_at s b))
    \<and> r = (if n \<le> length (takeWhile (due s now) (m_timer_map s)) then 0
           else case dropWhile (due s now) (m_timer_map s) of [] \<Rightarrow> 0
             | a # _ \<Rightarrow> tv_diff_ms (timeval_of (m_timeouttime (timer_at s a))) now)"
  using assms
proof (induction n arbitrary: s w)
  case (Suc n)
  show ?case
  proof (cases "m_timer_map s")
    case (Cons tm rest)
    let ?s = "set_timer (s\<lparr>m_timer_map := rest\<rparr>) tm (timer_at s tm\<lparr>m_status := STATUS_STOP\<rparr>)"
    have time: "m_timeouttime (timer_at ?s b) = m_timeouttime (timer_at s b)" for b by simp
    then have due: "due ?s now = due s now" by (auto simp: due_def)
    have key: "timer_key ?s b = timer_key s b" for b by simp
    show ?thesis
    proof (cases "due s now tm")
      case False
      with Cons show ?thesis by (simp add: due_def)
    next
      case True
      have "distinct (m_timer_map ?s)" using Suc.prems Cons by simp
      from Suc.IH [OF this, of "w @ [timer_key s tm]"] obtain s' r where
        "processTimers_loop n note_fired (\<lambda>_. now) (?s, w @ [timer_key s tm]) =
          ((s', (w @ [timer_key s tm]) @ map (timer_key ?s) (take n (takeWhile (due ?s now) (m_timer_map ?s)))), r)"
        "m_timer_map s' = drop (length (take n (takeWhile (due ?s now) (m_timer_map ?s)))) (m_timer_map ?s)"
        "\<forall>b. m_timeouttime (timer_at s' b) = m_timeouttime (timer_at ?s b)"
        "r = (if n \<le> length (takeWhile (due ?s now) (m_timer_map ?s)) then 0
           else case dropWhile (due ?s now) (m_timer_map ?s) of [] \<Rightarrow> 0
             | a # _ \<Rightarrow> tv_diff_ms (timeval_of (m_timeouttime (timer_at ?s a))) now)"
        by blast
      moreover have "\<not> 0 < tv_diff_ms (timeval_of (m_timeouttime (timer_at s tm))) now"
        using True by (simp add: due_def)
      ultimately show ?thesis using True Cons unfolding due time key
        by (auto simp: Let_def comp_def cong: list.case_cong)
    qed
  qed simp
qed (simp add: map_idI)

text \<open>The difference in milliseconds follows the order of the set, so the due timers are its front.\<close>

lemma c_div_1000:
  "0 \<le> x \<Longrightarrow> c_div x 1000 = x div 1000" "x < 0 \<Longrightarrow> c_div x 1000 = - ((- x) div 1000)"
  by (simp_all add: c_div_nonneg) (simp add: c_div_def sgn_if)

lemma div_1000_diff: "(x::int) - y < 1000000 \<Longrightarrow> x div 1000 - y div 1000 \<le> 1000"
  using zdiv_mono1 [of x "y + 1000 * 1000" 1000] by simp

lemma c_div_1000_mono:
  assumes "x \<le> y" shows "c_div x 1000 \<le> c_div y 1000"
proof (cases "0 \<le> x")
  case True
  with assms show ?thesis by (simp add: c_div_1000 zdiv_mono1)
next
  case x: False
  have "0 \<le> (- x) div 1000" using x by (intro div_int_pos_iff [THEN iffD2]) auto
  moreover have "(- y) div 1000 \<le> (- x) div 1000" using assms by (intro zdiv_mono1) auto
  moreover have "0 \<le> y div 1000" if "0 \<le> y" using that by (intro div_int_pos_iff [THEN iffD2]) auto
  ultimately show ?thesis using x by (cases "0 \<le> y") (simp_all add: c_div_1000)
qed

lemma c_div_1000_diff:
  assumes "x - y < 1000000" shows "c_div x 1000 - c_div y 1000 \<le> 1000"
proof -
  have pos: "0 \<le> z div 1000 \<and> 1000 * (z div 1000) \<le> z" if "0 \<le> z" for z :: int
    using that mult_div_mod_eq [of 1000 z] pos_mod_sign [of 1000 z] by (simp add: div_int_pos_iff)
  consider "0 \<le> x" "0 \<le> y" | "x < 0" "y < 0" | "x < 0" "0 \<le> y" | "0 \<le> x" "y < 0" by linarith
  then show ?thesis
  proof cases
    case 1
    then show ?thesis using div_1000_diff [OF assms] by (simp add: c_div_1000)
  next
    case 2
    then show ?thesis using div_1000_diff [of "- y" "- x"] assms by (simp add: c_div_1000)
  next
    case 3
    then show ?thesis using pos [of "- x"] pos [of y] by (simp add: c_div_1000)
  next
    case 4
    have "c_div x 1000 = x div 1000" "c_div y 1000 = - ((- y) div 1000)" using 4 by (simp_all only: c_div_1000)
    then show ?thesis using pos [of x] pos [of "- y"] 4 assms by linarith
  qed
qed

lemma tv_diff_ms_mono:
  assumes "t \<le> u" "tv_ok (timeval_of t)" "tv_ok (timeval_of u)"
  shows "tv_diff_ms (timeval_of t) now \<le> tv_diff_ms (timeval_of u) now"
proof (cases "m_sec t = m_sec u")
  case True
  then have "m_usec t \<le> m_usec u" using assms(1) by (auto simp: less_eq_time_tv_def less_time_tv_def split: if_splits)
  then show ?thesis using True c_div_1000_mono by (simp add: tv_diff_ms_def timeval_of_def)
next
  case False
  then have "m_sec t + 1 \<le> m_sec u"
    using assms(1) by (auto simp: less_eq_time_tv_def less_time_tv_def split: if_splits)
  moreover have "c_div (m_usec t - tv_usec now) 1000 - c_div (m_usec u - tv_usec now) 1000 \<le> 1000"
    using assms(2,3) by (intro c_div_1000_diff) (simp add: tv_ok_def timeval_of_def)
  ultimately show ?thesis by (simp add: tv_diff_ms_def timeval_of_def)
qed

lemma takeWhile_filter:
  assumes "sorted_wrt R xs" "\<And>x y. x \<in> set xs \<Longrightarrow> y \<in> set xs \<Longrightarrow> R x y \<Longrightarrow> P y \<Longrightarrow> P x"
  shows "takeWhile P xs = filter P xs \<and> dropWhile P xs = filter (\<lambda>x. \<not> P x) xs"
  using assms
proof (induction xs)
  case (Cons x xs)
  have sorted: "sorted_wrt R xs" using Cons.prems(1) by simp
  have closed: "\<And>y z. y \<in> set xs \<Longrightarrow> z \<in> set xs \<Longrightarrow> R y z \<Longrightarrow> P z \<Longrightarrow> P y"
    by (rule Cons.prems(2)) auto
  note IH = Cons.IH [OF sorted closed]
  show ?case
  proof (cases "P x")
    case False
    then have "\<forall>y \<in> set xs. \<not> P y" using Cons.prems by auto
    with False show ?thesis by (auto simp: filter_empty_conv filter_id_conv)
  qed (use IH in simp)
qed simp

definition deadlines_ok :: "timers \<Rightarrow> bool" where
  "deadlines_ok s \<longleftrightarrow> (\<forall>a \<in> set (m_timer_map s). tv_ok (timeval_of (m_timeouttime (timer_at s a))))"

lemma due_front:
  assumes "timers_ok s" "deadlines_ok s"
  shows "takeWhile (due s now) (m_timer_map s) = filter (due s now) (m_timer_map s)"
    "dropWhile (due s now) (m_timer_map s) = filter (\<lambda>a. \<not> due s now a) (m_timer_map s)"
proof -
  have closed: "due s now a" if "a \<in> set (m_timer_map s)" "b \<in> set (m_timer_map s)" "timer_less (t_heap s) a b" "due s now b" for a b
  proof -
    have "deadline (t_heap s) a \<le> deadline (t_heap s) b" using that(3) by (auto simp: timer_less_lex)
    from tv_diff_ms_mono [OF this, of now] that assms(2) show ?thesis by (auto simp: due_def deadlines_ok_def)
  qed
  have "takeWhile (due s now) (m_timer_map s) = filter (due s now) (m_timer_map s)
      \<and> dropWhile (due s now) (m_timer_map s) = filter (\<lambda>a. \<not> due s now a) (m_timer_map s)"
    using timers_okD(1) [OF assms(1)] closed by (rule takeWhile_filter)
  then show "takeWhile (due s now) (m_timer_map s) = filter (due s now) (m_timer_map s)"
    "dropWhile (due s now) (m_timer_map s) = filter (\<lambda>a. \<not> due s now a) (m_timer_map s)" by blast+
qed

subsection \<open>Properties\<close>

text \<open>What a program does with timers, from handlers and from elsewhere.\<close>

datatype timer_op = Start int int timeval int | Stop int int | Clear int "int list"

fun run_op :: "timer_op \<Rightarrow> timers \<Rightarrow> timers" where
  "run_op (Start c i now ms) s = startTimer s c i now ms"
| "run_op (Stop c i) s = stopTimer s c i"
| "run_op (Clear c ids) s = clearTimer s c ids"

lemma run_ops_ok: "timers_ok s \<Longrightarrow> timers_ok (fold run_op ops s)"
proof (induction ops arbitrary: s)
  case (Cons x ops)
  then show ?case by (cases x) (simp_all add: startTimer_spec(1) stopTimer_spec(1) clearTimer_ok)
qed simp

definition no_timers :: timers where
  "no_timers = \<lparr>t_heap = (\<lambda>_. None), t_owner = (\<lambda>_. None), m_timer_map = [], t_next = 0\<rparr>"

lemma no_timers_ok: "timers_ok no_timers"
  by (simp add: no_timers_def timers_ok_def owners_ok_def)

text \<open>A handler that runs timer operations of its own, as \<open>handleTimer\<close> of a connection does.\<close>

definition scripted :: "(int \<Rightarrow> int \<Rightarrow> timer_op list) \<Rightarrow> int \<Rightarrow> int \<Rightarrow> timers \<times> unit \<Rightarrow> timers \<times> unit" where
  "scripted script c i sw = (fold run_op (script c i) (fst sw), ())"

inductive timers_reach :: "timers \<Rightarrow> bool" where
  reach_init: "timers_reach no_timers"
| reach_op: "timers_reach s \<Longrightarrow> timers_reach (run_op x s)"
| reach_process: "timers_reach s \<Longrightarrow>
    timers_reach (fst (fst (processTimers (scripted script) clk (s, ()))))"

text \<open>
  C6: in every state an event loop's timers can reach, by starting, stopping, restarting and
  clearing timers from anywhere (handlers of running timers included), the set is in the order
  of the deadlines, no timer is in it twice, and it holds exactly the timers that are started.
\<close>

theorem timers_invariant:
  assumes "timers_reach s"
  shows "sorted_wrt (timer_less (t_heap s)) (m_timer_map s) \<and> distinct (m_timer_map s) \<and>
    (\<forall>a. a \<in> set (m_timer_map s) \<longleftrightarrow> (\<exists>t. t_heap s a = Some t \<and> m_status t = STATUS_START))"
proof -
  from assms have "timers_ok s"
  proof induction
    case (reach_op s x)
    then show ?case using run_ops_ok [of s "[x]"] by simp
  next
    case (reach_process s script clk)
    have "timers_ok (fst (scripted script c i (s, w)))" if "timers_ok s" for c i s w
      using run_ops_ok [OF that] by (simp add: scripted_def)
    from processTimers_loop_ok [of "scripted script", OF this] reach_process show ?case
      by (simp add: processTimers_def Let_def)
  qed (rule no_timers_ok)
  from timers_okD [OF this] timer_order.sorted_distinct show ?thesis by blast
qed

theorem timers_invariant_witness:
  "sorted_wrt (timer_less (t_heap (startTimer no_timers 1 2 \<lparr>tv_sec = 5, tv_usec = 0\<rparr> 3)))
    (m_timer_map (startTimer no_timers 1 2 \<lparr>tv_sec = 5, tv_usec = 0\<rparr> 3))"
  using timers_invariant [of "startTimer no_timers 1 2 \<lparr>tv_sec = 5, tv_usec = 0\<rparr> 3"]
    reach_op [OF reach_init, of "Start 1 2 \<lparr>tv_sec = 5, tv_usec = 0\<rparr> 3"] by simp

text \<open>
  Starting a timer, whether it is new, stopped or running already, arms it once, exactly the
  asked number of milliseconds after the clock's time, and keeps the invariant of the set.
\<close>

lemma startTimer_arms:
  assumes "timers_ok s"
  shows "\<exists>a t. t_owner (startTimer s c i now ms) (c, i) = Some a \<and>
    t_heap (startTimer s c i now ms) a = Some t \<and> a \<in> set (m_timer_map (startTimer s c i now ms)) \<and>
    tv_us (timeval_of (m_timeouttime t)) = tv_us now + ms * 1000 \<and> timers_ok (startTimer s c i now ms)"
  using startTimer_spec [OF assms, of c i now ms] setTimeOutAfter_exact [of now ms] by fastforce

text \<open>
  One round of timers with fewer than 16 of them due runs every due timer, in the order of
  the deadlines, leaves exactly the timers that are not due, and tells the loop the milliseconds to
  the next deadline (0, that is to wait without limit, when no timer is left).
\<close>

theorem processTimers_all_due:
  assumes "timers_ok s" "deadlines_ok s" "length (filter (due s now) (m_timer_map s)) < 16"
  shows "\<exists>s' r. processTimers note_fired (\<lambda>_. now) (s, []) =
      ((s', map (timer_key s) (filter (due s now) (m_timer_map s))), r)
    \<and> m_timer_map s' = filter (\<lambda>a. \<not> due s now a) (m_timer_map s)
    \<and> (case m_timer_map s' of [] \<Rightarrow> r = 0
       | a # _ \<Rightarrow> r = tv_diff_ms (timeval_of (m_timeouttime (timer_at s a))) now \<and> 0 < r)"
proof -
  let ?tw = "takeWhile (due s now) (m_timer_map s)" and ?dw = "dropWhile (due s now) (m_timer_map s)"
  note front = due_front [OF assms(1,2), of now]
  have dist: "distinct (m_timer_map s)" using timers_okD(1) [OF assms(1)] by (rule timer_order.sorted_distinct)
  obtain s' r where run: "processTimers_loop 16 note_fired (\<lambda>_. now) (s, []) =
      ((s', map (timer_key s) (take 16 ?tw)), r)" "m_timer_map s' = drop (length (take 16 ?tw)) (m_timer_map s)"
    "r = (if 16 \<le> length ?tw then 0 else case ?dw of [] \<Rightarrow> 0
             | a # _ \<Rightarrow> tv_diff_ms (timeval_of (m_timeouttime (timer_at s a))) now)"
    using processTimers_loop_fired [OF dist, of 16 now "[]"] by auto
  have short: "take 16 ?tw = ?tw" "length ?tw < 16" using assms(3) front(1) by simp_all
  have "drop (length ?tw) (m_timer_map s) = ?dw" by (simp add: dropWhile_eq_drop)
  with run short have "m_timer_map s' = ?dw" by simp
  moreover have "0 < tv_diff_ms (timeval_of (m_timeouttime (timer_at s a))) now" if "?dw = a # rest" for a rest
    using hd_dropWhile [of "due s now" "m_timer_map s"] that by (simp add: due_def)
  ultimately show ?thesis
    using run short front
    by (auto simp: processTimers_def procTimerCnt_def MAX_PROC_TIMER_CNT_def DEFAULT_PROC_EVENT_CNT_def
        split: list.splits)
qed

lemma one_timer:
  "m_timer_map (startTimer no_timers c i now ms) = [0]"
  "t_heap (startTimer no_timers c i now ms) 0 =
    Some \<lparr>m_timeouttime = setTimeOutAfter now ms, m_con = c, m_id = i, m_status = STATUS_START\<rparr>"
  by (simp_all add: startTimer_def getTimer_def new_timer_def no_timers_def Let_def set_timer_def addTimer_def)

theorem processTimers_all_due_witness:
  "\<exists>s' r. processTimers note_fired (\<lambda>_. \<lparr>tv_sec = 6, tv_usec = 0\<rparr>)
      (startTimer no_timers 1 2 \<lparr>tv_sec = 5, tv_usec = 0\<rparr> 3, []) = ((s', [(1, 2)]), r)
    \<and> m_timer_map s' = []"
proof -
  let ?s = "startTimer no_timers 1 2 \<lparr>tv_sec = 5, tv_usec = 0\<rparr> 3"
  have ok: "timers_ok ?s" using startTimer_spec(1) [OF no_timers_ok] .
  have t: "setTimeOutAfter \<lparr>tv_sec = 5, tv_usec = 0\<rparr> 3 = time_tv 5 3000"
    by (simp add: setTimeOutAfter_def time_tv_of_def Let_def c_div_def c_mod_def)
  have dl: "deadlines_ok ?s" by (simp add: deadlines_ok_def one_timer t timeval_of_def tv_ok_def)
  have "due ?s \<lparr>tv_sec = 6, tv_usec = 0\<rparr> 0"
    by (simp add: due_def one_timer t timeval_of_def tv_diff_ms_def c_div_def)
  with processTimers_all_due [OF ok dl, of "\<lparr>tv_sec = 6, tv_usec = 0\<rparr>"] show ?thesis
    by (auto simp: one_timer)
qed

text \<open>
  C7: with 16 timers due or more, exactly the first 16 run and the value is 0, which \<open>run\<close> takes
  for "no timer": it waits for events without a timeout while the other timers stay in the set,
  those that are due among them.
\<close>

theorem processTimers_cut_off:
  assumes "timers_ok s" "deadlines_ok s" "16 \<le> length (filter (due s now) (m_timer_map s))"
  shows "\<exists>s' r. processTimers note_fired (\<lambda>_. now) (s, []) =
      ((s', map (timer_key s) (take 16 (m_timer_map s))), r)
    \<and> m_timer_map s' = drop 16 (m_timer_map s) \<and> epoll_timeout r = -1"
proof -
  let ?tw = "takeWhile (due s now) (m_timer_map s)"
  note front = due_front(1) [OF assms(1,2), of now]
  have dist: "distinct (m_timer_map s)" using timers_okD(1) [OF assms(1)] by (rule timer_order.sorted_distinct)
  have long: "16 \<le> length ?tw" using assms(3) front by simp
  have "16 \<le> length xs \<Longrightarrow> take 16 (xs @ ys) = take 16 xs" for xs ys :: "int list" by simp
  from this [OF long, of "dropWhile (due s now) (m_timer_map s)"]
  have take: "take 16 ?tw = take 16 (m_timer_map s)" "length (take 16 ?tw) = 16"
    using long by simp_all
  have "length ?tw \<le> length (m_timer_map s)" by (rule length_takeWhile_le)
  then have "min (length (m_timer_map s)) 16 = 16" using long by simp
  with processTimers_loop_fired [OF dist, of 16 now "[]"] show ?thesis
    unfolding take using long
    by (auto simp: processTimers_def procTimerCnt_def MAX_PROC_TIMER_CNT_def DEFAULT_PROC_EVENT_CNT_def
        epoll_timeout_def)
qed

text \<open>Seventeen timers of one connection, all due.\<close>

definition many :: "nat \<Rightarrow> timers" where
  "many n = fold (\<lambda>i s. startTimer s 1 (int i) \<lparr>tv_sec = 5, tv_usec = 0\<rparr> 3) [0..<n] no_timers"

lemma many_shape:
  "timers_ok (many n) \<and> t_next (many n) = int n \<and> m_timer_map (many n) = map int [0..<n] \<and>
   (\<forall>i. t_owner (many n) (1, i) = (if 0 \<le> i \<and> i < int n then Some i else None)) \<and>
   (\<forall>a. t_heap (many n) a = (if 0 \<le> a \<and> a < int n then
      Some \<lparr>m_timeouttime = time_tv 5 3000, m_con = 1, m_id = a, m_status = STATUS_START\<rparr> else None))"
proof (induction n)
  case 0
  show ?case by (simp add: many_def no_timers_ok) (simp add: no_timers_def)
next
  case (Suc n)
  define s where "s = many n"
  note IH = Suc [folded s_def]
  let ?t = "\<lparr>m_timeouttime = time_tv 5 3000, m_con = 1, m_id = int n, m_status = STATUS_START\<rparr>"
  have t: "setTimeOutAfter \<lparr>tv_sec = 5, tv_usec = 0\<rparr> 3 = time_tv 5 3000"
    by (simp add: setTimeOutAfter_def time_tv_of_def Let_def c_div_def c_mod_def)
  have eq: "many (Suc n) = startTimer s 1 (int n) \<lparr>tv_sec = 5, tv_usec = 0\<rparr> 3"
    by (simp add: many_def s_def)
  have "\<forall>a \<in> set (m_timer_map s). timer_less ((t_heap s)(int n \<mapsto> ?t)) a (int n)"
    using IH by (auto simp: timer_less_lex)
  note ins = timer_order.set_insert_last [OF this]
  have "many (Suc n) = s\<lparr>t_heap := (t_heap s)(int n \<mapsto> ?t), t_owner := (t_owner s)((1, int n) \<mapsto> int n),
      t_next := int n + 1, m_timer_map := m_timer_map s @ [int n]\<rparr>"
    using IH ins unfolding eq
    by (simp add: startTimer_def getTimer_def new_timer_def t Let_def set_timer_def addTimer_def)
  with IH show ?case
    using startTimer_spec(1) [of s 1 "int n" "\<lparr>tv_sec = 5, tv_usec = 0\<rparr>" 3, folded eq] by auto
qed

theorem processTimers_cut_off_witness:
  "\<exists>s' r. processTimers note_fired (\<lambda>_. \<lparr>tv_sec = 6, tv_usec = 0\<rparr>) (many 17, []) =
      ((s', map (\<lambda>i. (1, int i)) [0..<16]), r)
    \<and> m_timer_map s' = [16] \<and> epoll_timeout r = -1"
proof -
  let ?now = "\<lparr>tv_sec = 6, tv_usec = 0\<rparr>"
  note M = many_shape [of 17]
  have dl: "deadlines_ok (many 17)"
    using M by (auto simp: deadlines_ok_def timeval_of_def tv_ok_def)
  have "\<forall>a \<in> set (m_timer_map (many 17)). due (many 17) ?now a"
    using M by (auto simp: due_def timeval_of_def tv_diff_ms_def c_div_def)
  then have "filter (due (many 17) ?now) (m_timer_map (many 17)) = m_timer_map (many 17)"
    by (simp add: filter_id_conv)
  then have long: "16 \<le> length (filter (due (many 17) ?now) (m_timer_map (many 17)))" using M by simp
  have keys: "map (timer_key (many 17)) (take 16 (m_timer_map (many 17))) = map (\<lambda>i. (1, int i)) [0..<16]"
    using M by (simp add: take_map take_upt comp_def)
  have "drop 16 (m_timer_map (many 17)) = [16]" using M by (simp add: drop_map drop_upt)
  with processTimers_cut_off [OF _ dl long] M keys show ?thesis by auto
qed

end
