(* ===== verification/Client.thy ===== *)
theory Client
  imports Connection Timers
begin

unbundle bit_operations_syntax

text \<open>
  \<^verbatim>\<open>efnfw/net/ef_client.cpp\<close>: a connection that connects itself, notices success, and reconnects and
  keeps itself alive by timers. The virtual functions of a concrete client are the fields of
  \<open>client_ops\<close>: \<^verbatim>\<open>onConnected\<close> and \<^verbatim>\<open>keepAlive\<close> may send, so they act on the connection. System calls
  are arguments: the socket \<^verbatim>\<open>tcpNbConnect\<close> returns (\<open>None\<close>: \<^verbatim>\<open>EF_INVALID_SOCKET\<close>), the result of
  \<^verbatim>\<open>epoll_ctl\<close> (\<open>ctl\<close>), the result and the error value of \<^verbatim>\<open>getsockopt\<close>.
\<close>

definition CL_INIT :: int where "CL_INIT = 0"
definition CL_CONNECTING :: int where "CL_CONNECTING = 1"
definition CL_CONNECTED :: int where "CL_CONNECTED = 2"
definition RECONNECT_TIMER :: int where "RECONNECT_TIMER = 101"
definition KEEPALIVE_TIMER :: int where "KEEPALIVE_TIMER = 102"

lemmas cl_defs = CL_INIT_def CL_CONNECTING_def CL_CONNECTED_def RECONNECT_TIMER_def KEEPALIVE_TIMER_def

record client =
  cl_con :: con
  cl_status :: int
  cl_addr :: bytes
  cl_port :: int
  cl_reconnect_span :: int
  cl_keep_alive_span :: int

record client_ops =
  onConnected :: "con \<Rightarrow> con \<times> int"
  keepAlive :: "con \<Rightarrow> con \<times> int"

definition Client_init :: "con \<Rightarrow> client" where
  "Client_init c = \<lparr>cl_con = c, cl_status = CL_INIT, cl_addr = [], cl_port = 0,
     cl_reconnect_span = 0, cl_keep_alive_span = 0\<rparr>"

definition setReconnectSpan :: "client \<Rightarrow> int \<Rightarrow> client" where
  "setReconnectSpan c span = c\<lparr>cl_reconnect_span := span\<rparr>"

definition setKeepAliveSpan :: "client \<Rightarrow> int \<Rightarrow> client" where
  "setKeepAliveSpan c span = c\<lparr>cl_keep_alive_span := span\<rparr>"

text \<open>\<open>connected\<close>: whether \<^verbatim>\<open>tcpNbConnect\<close> returned a socket.\<close>

definition doConnect :: "client \<Rightarrow> bool \<Rightarrow> client \<times> int" where
  "doConnect c sock =
     (if \<not> sock then (c, -1)
      else (c\<lparr>cl_con := (cl_con c)\<lparr>c_fd_valid := True\<rparr>, cl_status := CL_CONNECTING\<rparr>, 0))"

definition connectTo :: "client \<Rightarrow> bytes \<Rightarrow> int \<Rightarrow> bool \<Rightarrow> client \<times> int" where
  "connectTo c addr port sock = doConnect (c\<lparr>cl_addr := addr, cl_port := port\<rparr>) sock"

definition cl_addNotify :: "client \<Rightarrow> int \<Rightarrow> int \<Rightarrow> client" where
  "cl_addNotify c noti ctl = c\<lparr>cl_con := fst (addNotify (cl_con c) noti ctl)\<rparr>"

definition reconnect :: "client \<Rightarrow> bool \<Rightarrow> int \<Rightarrow> client \<times> int" where
  "reconnect c sock ctl =
     (if cl_status c = CL_INIT then
        (let (c, ret) = connectTo c (cl_addr c) (cl_port c) sock
         in (cl_addNotify c (READ_EVENT OR WRITE_EVENT) ctl, ret))
      else (c, 0))"

definition cl_onCreate :: "client \<Rightarrow> timers \<Rightarrow> timeval \<Rightarrow> int \<Rightarrow> client \<times> timers \<times> int" where
  "cl_onCreate c ts now ctl =
     (let c = cl_addNotify c (READ_EVENT OR WRITE_EVENT) ctl;
          i = c_id (cl_con c);
          ts = (if cl_reconnect_span c \<noteq> 0 then startTimer ts i RECONNECT_TIMER now (cl_reconnect_span c) else ts);
          ts = (if cl_keep_alive_span c \<noteq> 0 then startTimer ts i KEEPALIVE_TIMER now (cl_keep_alive_span c) else ts)
      in (c, ts, 0))"

definition cl_handleTimer :: "client_ops \<Rightarrow> client \<Rightarrow> timers \<Rightarrow> timeval \<Rightarrow> bool \<Rightarrow> int \<Rightarrow> int \<Rightarrow> client \<times> timers \<times> int" where
  "cl_handleTimer ops c ts now sock ctl tid =
     (if tid = RECONNECT_TIMER then
        (let ts = startTimer ts (c_id (cl_con c)) RECONNECT_TIMER now (cl_reconnect_span c);
             (c, ret) = reconnect c sock ctl
         in (c, ts, ret))
      else if tid = KEEPALIVE_TIMER then
        (let ts = startTimer ts (c_id (cl_con c)) KEEPALIVE_TIMER now (cl_keep_alive_span c)
         in if cl_status c = CL_CONNECTED then
              (let (con, ret) = keepAlive ops (cl_con c) in (c\<lparr>cl_con := con\<rparr>, ts, ret))
            else (c, ts, 0))
      else (c, ts, 0))"

text \<open>\<^verbatim>\<open>closesocket\<close>, \<open>setFd\<close>, \<open>clearBuf\<close> and \<open>clearSendQueue\<close>; the queues keep their write position.\<close>

definition disconnect :: "client \<Rightarrow> int \<Rightarrow> client \<times> int" where
  "disconnect c ctl =
     (let (con, ret) = clearNotify (cl_con c) ctl;
          con = con\<lparr>c_fd_valid := False\<rparr>;
          con = con\<lparr>c_buf := lb_clear (c_buf con)\<rparr>;
          con = con\<lparr>c_send_buf := lb_clear (c_send_buf con)\<rparr>
      in (c\<lparr>cl_con := con, cl_status := CL_INIT\<rparr>, ret))"

text \<open>\<open>onFail\<close>: without a reconnect span the client deletes itself (\<open>None\<close>).\<close>

definition cl_onFail :: "client \<Rightarrow> int \<Rightarrow> client option" where
  "cl_onFail c ctl =
     (let (c, _) = disconnect c ctl in if cl_reconnect_span c = 0 then None else Some c)"

definition handleConnected :: "client_ops \<Rightarrow> client \<Rightarrow> int \<Rightarrow> int \<Rightarrow> int \<Rightarrow> client \<times> int" where
  "handleConnected ops c ret error_value ctl =
     (if ret < 0 then (fst (disconnect c ctl), ret)
      else
        let c = c\<lparr>cl_status := CL_CONNECTED\<rparr>;
            c = c\<lparr>cl_con := fst (modifyNotify (cl_con c) READ_EVENT ctl)\<rparr>;
            (con, ret) = onConnected ops (cl_con c)
        in (c\<lparr>cl_con := con\<rparr>, ret))"

definition cl_handleWrite :: "client_ops \<Rightarrow> client \<Rightarrow> int \<Rightarrow> int \<Rightarrow> send_result list \<Rightarrow> int \<Rightarrow>
    (client \<times> int \<times> bytes) outcome" where
  "cl_handleWrite ops c ret error_value rs ctl =
     (if cl_status c = CL_CONNECTING then
        (let (c, ret) = handleConnected ops c ret error_value ctl in Done (c, ret, []))
      else if cl_status c = CL_CONNECTED then
        bind_outcome (handleWrite (cl_con c) rs ctl)
          (\<lambda>(ret, con, rs, wire). Done (c\<lparr>cl_con := con\<rparr>, ret, wire))
      else Done (c, 0, []))"

definition cl_handleRead :: "client_ops \<Rightarrow> (loop_buf \<Rightarrow> int) \<Rightarrow> ('a \<Rightarrow> bytes \<Rightarrow> 'a \<times> int) \<Rightarrow> client \<Rightarrow> 'a \<Rightarrow>
    int \<Rightarrow> int \<Rightarrow> recv_result list \<Rightarrow> int \<Rightarrow> (client \<times> 'a \<times> int) outcome" where
  "cl_handleRead ops check handle c a ret error_value rs ctl =
     (if cl_status c = CL_CONNECTING then
        (let (c, ret) = handleConnected ops c ret error_value ctl in Done (c, a, ret))
      else if cl_status c = CL_CONNECTED then
        bind_outcome (handleRead check handle (cl_con c) a rs)
          (\<lambda>(con, a, ret). Done (c\<lparr>cl_con := con\<rparr>, a, ret))
      else Done (c, a, 0))"

text \<open>\<open>dispatchToServer\<close>: the loop of \<open>getEventLoopCount\<close> loops that gets the client.\<close>

definition dispatch_loop :: "client \<Rightarrow> int \<Rightarrow> int" where
  "dispatch_loop c cnt = c_mod (c_id (cl_con c)) cnt"

subsection \<open>The status machine\<close>

text \<open>
  The socket is open exactly while the client is connecting or connected, and a client that is
  not connected has nothing queued.
\<close>

definition cl_ok :: "client \<Rightarrow> bool" where
  "cl_ok c \<longleftrightarrow> cl_status c \<in> {CL_INIT, CL_CONNECTING, CL_CONNECTED} \<and>
     (c_fd_valid (cl_con c) \<longleftrightarrow> cl_status c \<noteq> CL_INIT) \<and>
     lb_inv (c_buf (cl_con c)) \<and> lb_inv (c_send_buf (cl_con c)) \<and>
     (cl_status c \<noteq> CL_CONNECTED \<longrightarrow>
        lb_data (c_buf (cl_con c)) = [] \<and> lb_data (c_send_buf (cl_con c)) = [])"

text \<open>What the program may do to the connection of a connected client: its socket stays open.\<close>

definition con_use :: "(con \<Rightarrow> con \<times> int) \<Rightarrow> bool" where
  "con_use f \<longleftrightarrow> (\<forall>c. lb_inv (c_buf c) \<and> lb_inv (c_send_buf c) \<longrightarrow>
     lb_inv (c_buf (fst (f c))) \<and> lb_inv (c_send_buf (fst (f c))) \<and> c_fd_valid (fst (f c)) = c_fd_valid c)"

definition ops_ok :: "client_ops \<Rightarrow> bool" where
  "ops_ok ops \<longleftrightarrow> con_use (onConnected ops) \<and> con_use (keepAlive ops)"

lemma notify_simps [simp]:
  "c_fd_valid (fst (addNotify c n ctl)) = c_fd_valid c" "c_buf (fst (addNotify c n ctl)) = c_buf c"
  "c_send_buf (fst (addNotify c n ctl)) = c_send_buf c" "c_id (fst (addNotify c n ctl)) = c_id c"
  "c_fd_valid (fst (modifyNotify c n ctl)) = c_fd_valid c" "c_buf (fst (modifyNotify c n ctl)) = c_buf c"
  "c_send_buf (fst (modifyNotify c n ctl)) = c_send_buf c" "c_id (fst (modifyNotify c n ctl)) = c_id c"
  "c_fd_valid (fst (clearNotify c ctl)) = c_fd_valid c" "c_buf (fst (clearNotify c ctl)) = c_buf c"
  "c_send_buf (fst (clearNotify c ctl)) = c_send_buf c" "c_id (fst (clearNotify c ctl)) = c_id c"
  by (simp_all add: addNotify_def modifyNotify_def clearNotify_def)

lemma status_neq [simp]:
  "CL_INIT \<noteq> CL_CONNECTING" "CL_CONNECTING \<noteq> CL_INIT" "CL_INIT \<noteq> CL_CONNECTED" "CL_CONNECTED \<noteq> CL_INIT"
  "CL_CONNECTING \<noteq> CL_CONNECTED" "CL_CONNECTED \<noteq> CL_CONNECTING"
  "RECONNECT_TIMER \<noteq> KEEPALIVE_TIMER" "KEEPALIVE_TIMER \<noteq> RECONNECT_TIMER"
  by (simp_all add: cl_defs)

lemma connectTo_ok: "cl_ok c \<Longrightarrow> cl_status c = CL_INIT \<Longrightarrow> cl_ok (fst (connectTo c a p sock))"
  by (auto simp: cl_ok_def connectTo_def doConnect_def)

lemma cl_addNotify_ok: "cl_ok c \<Longrightarrow> cl_ok (cl_addNotify c n ctl)"
  by (simp add: cl_ok_def cl_addNotify_def)

lemma reconnect_ok: "cl_ok c \<Longrightarrow> cl_ok (fst (reconnect c sock ctl))"
  using connectTo_ok [of c "cl_addr c" "cl_port c" sock]
  by (auto simp: reconnect_def intro: cl_addNotify_ok split: prod.split)

lemma disconnect_simps [simp]:
  "c_fd_valid (cl_con (fst (disconnect c ctl))) = False" "cl_status (fst (disconnect c ctl)) = CL_INIT"
  "c_buf (cl_con (fst (disconnect c ctl))) = lb_clear (c_buf (cl_con c))"
  "c_send_buf (cl_con (fst (disconnect c ctl))) = lb_clear (c_send_buf (cl_con c))"
  "cl_reconnect_span (fst (disconnect c ctl)) = cl_reconnect_span c"
  "c_id (cl_con (fst (disconnect c ctl))) = c_id (cl_con c)"
  by (simp_all add: disconnect_def Let_def case_prod_beta)

lemma disconnect_ok: "cl_ok c \<Longrightarrow> cl_ok (fst (disconnect c ctl))"
  by (simp add: cl_ok_def lb_clear_spec)

lemma handleConnected_ok:
  assumes "cl_ok c" "cl_status c = CL_CONNECTING" "ops_ok ops"
  shows "cl_ok (fst (handleConnected ops c r e ctl))"
proof (cases "r < 0")
  case True
  with disconnect_ok [OF assms(1)] show ?thesis by (simp add: handleConnected_def)
next
  case False
  have "con_use (onConnected ops)" using assms(3) by (simp add: ops_ok_def)
  with assms(1,2) False show ?thesis
    by (simp add: handleConnected_def Let_def case_prod_beta cl_ok_def con_use_def)
qed

lemma handleWrite_buf:
  assumes "handleWrite c rs ctl = Done (ret, c', rs', w)" "lb_inv (c_send_buf c)"
  shows "lb_inv (c_send_buf c') \<and> c_buf c' = c_buf c \<and> c_fd_valid c' = c_fd_valid c"
proof -
  obtain k sb rs1 w1 where d: "doSend (c_send_buf c) rs = Done (k, sb, rs1, w1)"
    using assms(1) by (cases "doSend (c_send_buf c) rs") (auto simp: handleWrite_def)
  from doSend_stream(2) [OF d assms(2)] d assms(1) show ?thesis
    by (auto simp: handleWrite_def Let_def split: if_splits)
qed

lemma cl_handleTimer_ok:
  "cl_ok c \<Longrightarrow> ops_ok ops \<Longrightarrow> cl_ok (fst (cl_handleTimer ops c ts now sock ctl tid))"
  using reconnect_ok [of c sock ctl]
  by (auto simp: cl_handleTimer_def Let_def case_prod_beta ops_ok_def con_use_def cl_ok_def)

lemma cl_handleWrite_ok:
  assumes "cl_handleWrite ops c r e rs ctl = Done (c', ret, w)" "cl_ok c" "ops_ok ops"
  shows "cl_ok c'"
proof -
  consider "cl_status c = CL_CONNECTING" | "cl_status c = CL_CONNECTED" | "cl_status c = CL_INIT"
    using assms(2) by (auto simp: cl_ok_def)
  then show ?thesis
  proof cases
    case 1
    with handleConnected_ok [OF assms(2) 1 assms(3), of r e ctl] assms(1) show ?thesis
      by (simp add: cl_handleWrite_def case_prod_beta)
  next
    case 2
    then obtain k con rs1 w1 where h: "handleWrite (cl_con c) rs ctl = Done (k, con, rs1, w1)"
      using assms(1) by (cases "handleWrite (cl_con c) rs ctl") (auto simp: cl_handleWrite_def)
    with handleWrite_buf [OF h] assms(1,2) 2 show ?thesis by (auto simp: cl_handleWrite_def cl_ok_def)
  qed (use assms in \<open>simp add: cl_handleWrite_def\<close>)
qed

text \<open>The steps of a client in its loop; \<open>None\<close> is a client that has deleted itself.\<close>

inductive cl_step :: "client_ops \<Rightarrow> client \<Rightarrow> client option \<Rightarrow> bool" for ops :: client_ops where
  cs_connect: "cl_status c = CL_INIT \<Longrightarrow> cl_step ops c (Some (fst (connectTo c addr port sock)))"
| cs_create: "cl_step ops c (Some (fst (cl_onCreate c ts now ctl)))"
| cs_timer: "cl_step ops c (Some (fst (cl_handleTimer ops c ts now sock ctl tid)))"
| cs_write: "cl_handleWrite ops c r e rs ctl = Done (c', ret, w) \<Longrightarrow> 0 \<le> ret \<Longrightarrow> cl_step ops c (Some c')"
| cs_write_fail: "cl_handleWrite ops c r e rs ctl = Done (c', ret, w) \<Longrightarrow> ret < 0 \<Longrightarrow>
    cl_step ops c (cl_onFail c' ctl)"

lemma cl_step_ok:
  assumes "cl_step ops c (Some c')" "cl_ok c" "ops_ok ops"
  shows "cl_ok c'"
  using assms(1)
proof cases
  case (cs_connect addr port sock)
  then show ?thesis using connectTo_ok assms(2) by simp
next
  case (cs_create ts now ctl)
  then show ?thesis using cl_addNotify_ok assms(2) by (simp add: cl_onCreate_def Let_def)
next
  case (cs_timer ts now sock ctl tid)
  then show ?thesis using cl_handleTimer_ok assms(2,3) by simp
next
  case (cs_write r e rs ctl ret w)
  then show ?thesis using cl_handleWrite_ok assms(2,3) by blast
next
  case (cs_write_fail r e rs ctl c1 ret w)
  then have "cl_ok c1" using cl_handleWrite_ok assms(2,3) by blast
  from disconnect_ok [OF this, of ctl] cs_write_fail(1) show ?thesis
    by (auto simp: cl_onFail_def case_prod_beta split: if_splits)
qed

inductive cl_reach :: "client_ops \<Rightarrow> client \<Rightarrow> client \<Rightarrow> bool" for ops :: client_ops and c0 :: client where
  cr_init: "cl_reach ops c0 c0"
| cr_step: "cl_reach ops c0 c \<Longrightarrow> cl_step ops c (Some c') \<Longrightarrow> cl_reach ops c0 c'"

lemma cl_reach_ok: "cl_reach ops c0 c \<Longrightarrow> cl_ok c0 \<Longrightarrow> ops_ok ops \<Longrightarrow> cl_ok c"
  by (induction rule: cl_reach.induct) (auto dest: cl_step_ok)

lemma Client_init_ok: "cl_ok (Client_init (Connection_init i))"
  by (simp add: cl_ok_def Client_init_def Connection_init_def)

subsection \<open>Properties\<close>


definition idle_ops :: client_ops where
  "idle_ops = \<lparr>onConnected = (\<lambda>c. (c, 0)), keepAlive = (\<lambda>c. (c, 0))\<rparr>"


text \<open>
  Losing the connection. A failed client with a reconnect span is disconnected, not deleted, and
  its reconnect timer, whenever it fires with a socket to be had, brings it to connecting to the same
  address and arms the timer again; without a span the client deletes itself.
\<close>

theorem client_reconnects:
  assumes "timers_ok ts"
  shows "cl_onFail c ctl = (if cl_reconnect_span c = 0 then None else Some (fst (disconnect c ctl))) \<and>
    (let (c', ts', ret) = cl_handleTimer ops (fst (disconnect c ctl)) ts now True ctl2 RECONNECT_TIMER
     in cl_status c' = CL_CONNECTING \<and> c_fd_valid (cl_con c') \<and> ret = 0 \<and> timers_ok ts' \<and>
        (\<exists>a. t_owner ts' (c_id (cl_con c), RECONNECT_TIMER) = Some a \<and> a \<in> set (m_timer_map ts')))"
  using startTimer_spec [OF assms, of "c_id (cl_con c)" RECONNECT_TIMER now "cl_reconnect_span c"]
  by (auto simp: cl_onFail_def cl_handleTimer_def Let_def case_prod_beta reconnect_def connectTo_def
      doConnect_def cl_addNotify_def)

theorem client_reconnects_witness:
  "cl_onFail (setReconnectSpan (Client_init (Connection_init 1)) 500) 0 \<noteq> None"
  using client_reconnects [OF no_timers_ok, of "setReconnectSpan (Client_init (Connection_init 1)) 500" 0
      idle_ops "\<lparr>tv_sec = 5, tv_usec = 0\<rparr>" 0]
  by (simp add: setReconnectSpan_def)

text \<open>
  The outcome of a connection attempt is not looked at: \<^verbatim>\<open>getsockopt\<close> succeeds and tells an error
  value, and the client calls itself connected whatever that value is.
\<close>

theorem connect_error_ignored:
  assumes "0 \<le> ret"
  shows "handleConnected ops c ret err ctl = handleConnected ops c ret 0 ctl \<and>
    cl_status (fst (handleConnected ops c ret err ctl)) = CL_CONNECTED"
  using assms by (simp add: handleConnected_def Let_def case_prod_beta)

theorem connect_error_ignored_witness:
  "cl_status (fst (handleConnected idle_ops (Client_init (Connection_init 1)) 0 111 0)) = CL_CONNECTED"
  by (rule connect_error_ignored [THEN conjunct2]) simp

text \<open>
  \<open>clearSendQueue\<close> empties the frames but not the write position, so a client that reconnects after its
  queue had grown starts with a stalled queue (\<open>drained_queue_stalls\<close> says what that means).
\<close>

lemma disconnect_stalls:
  "lb_frames (c_send_buf (cl_con c)) \<noteq> [] \<Longrightarrow> 0 < m_w_pos (c_send_buf (cl_con c)) \<Longrightarrow>
    stalled (c_send_buf (cl_con (fst (disconnect c ctl))))"
  by (simp add: stalled_def lb_clear_def firstFrameLen_def hd_map frame_clear_def)

end
