(* ===== verification/SessId.thy ===== *)
theory SessId
  imports Wire Base64 Utility
begin

text \<open>
  Names and numbers that tie a session to its place: \<open>decorationName\<close> and \<open>getDecorationInfo\<close> of
  \<^verbatim>\<open>connect_server/src/common.cpp\<close> with the copies of \<^verbatim>\<open>push_server/src/logic_common.cpp\<close> and
  \<^verbatim>\<open>listen_conn.cpp\<close>, and the numbering of connections of \<^verbatim>\<open>connect_server/src/common.h\<close>. A session id
  is the base64 form of the server's and the connection's number followed by the user's id; the
  connection's number names its event loop.
\<close>

subsection \<open>Session ids\<close>

definition int32_bytes :: "int \<Rightarrow> bytes" where
  "int32_bytes i = store_le (word_of_int i)"

definition bytes_int32 :: "bytes \<Rightarrow> int" where
  "bytes_int32 bs = sint (load_le bs)"

definition decorationName :: "int \<Rightarrow> int \<Rightarrow> bytes \<Rightarrow> bytes" where
  "decorationName svid conid n =
     (let buf = int32_bytes svid @ int32_bytes conid in base64Encode buf @ n)"

text \<open>
  The version of the connect server does not look at the length first. With fewer than eight
  decoded bytes it reads behind the decoded string: \<open>Fault\<close>. \<^verbatim>\<open>substr(12)\<close> throws on a shorter name,
  but a name that short has been read behind before.
\<close>

definition getDecorationInfo :: "bytes \<Rightarrow> (int \<times> int \<times> bytes) outcome" where
  "getDecorationInfo dn =
     (let b64buf = take 12 dn; buf = base64Decode b64buf
      in if length buf < 8 then Fault
         else Done (bytes_int32 buf, bytes_int32 (drop 4 buf), drop 12 dn))"

text \<open>The version of the push server: \<open>None\<close> is the value -1.\<close>

definition lg_getDecorationInfo :: "bytes \<Rightarrow> (int \<times> int \<times> bytes) option outcome" where
  "lg_getDecorationInfo dn =
     (if length dn < 12 then Done None
      else let b64buf = take 12 dn; buf = base64Decode b64buf
           in if length buf < 8 then Fault
              else Done (Some (bytes_int32 buf, bytes_int32 (drop 4 buf), drop 12 dn)))"

definition lg_decorationName :: "int \<Rightarrow> int \<Rightarrow> bytes \<Rightarrow> bytes" where
  "lg_decorationName svid conid n =
     (let buf = int32_bytes svid @ int32_bytes conid in base64Encode buf @ n)"

definition genSessID :: "int \<Rightarrow> int \<Rightarrow> bytes \<Rightarrow> bytes" where
  "genSessID svid conid n =
     (let buf = int32_bytes svid @ int32_bytes conid in base64Encode buf @ n)"

text \<open>\<open>Inl\<close>: the negative value returned; \<open>Inr\<close>: the type found.\<close>

definition getSvTypeFromSessid :: "bytes \<Rightarrow> (int + int) outcome" where
  "getSvTypeFromSessid ssid =
     bind_outcome (lg_getDecorationInfo ssid)
       (\<lambda>r. case r of
          None \<Rightarrow> Done (Inl (-1))
        | Some (svid, conid, vid) \<Rightarrow>
            (if str_find vid (bytes_of ''__sv_'') = Some 0
             then Done (Inr (atoi (drop 5 vid))) else Done (Inl (-1))))"

subsection \<open>Numbers of connections and loops\<close>

definition EVENT_LOOP_PART_CNT :: int where "EVENT_LOOP_PART_CNT = 4"
definition EVENT_LOOP_ID_MASK :: int where "EVENT_LOOP_ID_MASK = 1000000"

definition serverEventLoopCount :: "int \<Rightarrow> int" where
  "serverEventLoopCount maxevlp =
     (if maxevlp \<ge> EVENT_LOOP_PART_CNT then c_div maxevlp EVENT_LOOP_PART_CNT else 1)"

text \<open>\<^verbatim>\<open>int32\<close> arithmetic; the product wraps (gcc) from loop 2148 on.\<close>

definition getConnectionId :: "int \<Rightarrow> int \<Rightarrow> int" where
  "getConnectionId evlpid conid = i32 (evlpid * EVENT_LOOP_ID_MASK + c_mod conid EVENT_LOOP_ID_MASK)"

definition getEventLoopId :: "int \<Rightarrow> int" where
  "getEventLoopId conid = c_div conid EVENT_LOOP_ID_MASK"

subsection \<open>The packet of the push server\<close>

text \<open>\<^verbatim>\<open>constructPacket\<close> of \<^verbatim>\<open>push_server/src/logic_common.cpp\<close> converts the magic number too.\<close>

definition lg_constructPacket :: "head \<Rightarrow> bytes \<Rightarrow> bytes" where
  "lg_constructPacket h body =
     (let rh = \<lparr>h_magic = htonl (h_magic h),
               h_len = htonl (of_nat (sizeof_head + length body)),
               h_cmd = htonl (h_cmd h)\<rparr>
      in store_le (h_magic rh) @ store_le (h_len rh) @ store_le (h_cmd rh) @ body)"

subsection \<open>Lemmas\<close>

lemma length_int32_bytes [simp]: "length (int32_bytes i) = 4"
  by (simp add: int32_bytes_def)

lemma sint_word_of_int_32: "- (2 ^ 31) \<le> i \<Longrightarrow> i < 2 ^ 31 \<Longrightarrow> sint (word_of_int i :: u32) = i"
  by (simp add: signed_of_int signed_take_bit_int_eq_self)

lemma bytes_int32_bytes: "- (2 ^ 31) \<le> i \<Longrightarrow> i < 2 ^ 31 \<Longrightarrow> bytes_int32 (int32_bytes i @ bs) = i"
  by (simp add: bytes_int32_def int32_bytes_def sint_word_of_int_32)

lemma length_base64_8: "length (base64Encode (int32_bytes svid @ int32_bytes conid)) = 12"
  by (simp add: length_base64Encode)

lemma decoration_copies: "lg_decorationName = decorationName" "genSessID = decorationName"
  by (intro ext; simp add: lg_decorationName_def genSessID_def decorationName_def)+

lemma take_drop_name:
  "take 12 (decorationName svid conid n) = base64Encode (int32_bytes svid @ int32_bytes conid)"
  "drop 12 (decorationName svid conid n) = n"
  using length_base64_8 [of svid conid] by (simp_all add: decorationName_def)

lemma decoration_info:
  assumes "- (2 ^ 31) \<le> svid" "svid < 2 ^ 31" "- (2 ^ 31) \<le> conid" "conid < 2 ^ 31"
  shows "getDecorationInfo (decorationName svid conid n) = Done (svid, conid, n)"
    "lg_getDecorationInfo (decorationName svid conid n) = Done (Some (svid, conid, n))"
proof -
  have "length (decorationName svid conid n) \<ge> 12"
    using length_base64_8 [of svid conid] by (simp add: decorationName_def)
  moreover have "bytes_int32 (drop 4 (int32_bytes svid @ int32_bytes conid)) = conid"
    using bytes_int32_bytes [OF assms(3,4), of "[]"] by simp
  ultimately show "getDecorationInfo (decorationName svid conid n) = Done (svid, conid, n)"
    "lg_getDecorationInfo (decorationName svid conid n) = Done (Some (svid, conid, n))"
    using assms
    by (simp_all add: getDecorationInfo_def lg_getDecorationInfo_def take_drop_name base64_decode_encode
        bytes_int32_bytes del: take_append drop_append)
qed

text \<open>The decoder gives at most three bytes for four characters, so a short name always faults.\<close>

lemma decode_loop_group:
  "base64Decode_loop (p0 # p1 # p2 # p3 # s) dst p = dst \<or>
   (\<exists>x y z q. base64Decode_loop (p0 # p1 # p2 # p3 # s) dst p = base64Decode_loop s (dst @ [x, y, z]) q)"
  unfolding base64Decode_loop.simps(1) Let_def by (simp split: prod.split del: base64Decode_loop.simps) blast

lemma decode_loop_length:
  "length (base64Decode_loop s dst p) \<le> length dst + 3 * (length s div 4)"
proof (induction s arbitrary: dst p rule: length_induct)
  case (1 s)
  consider p0 p1 p2 p3 s' where "s = p0 # p1 # p2 # p3 # s'" | "base64Decode_loop s dst p = take (length dst - p) dst"
    by (cases "(s, dst, p)" rule: base64Decode_loop.cases) auto
  then show ?case
  proof cases
    case (1 p0 p1 p2 p3 s')
    have "length (base64Decode_loop s' (dst @ [x, y, z]) q) \<le> length dst + 3 * (length s div 4)" for x y z q
    proof -
      have "length s' < length s" using 1 by simp
      with "1.IH" have "length (base64Decode_loop s' (dst @ [x, y, z]) q) \<le> length (dst @ [x, y, z]) + 3 * (length s' div 4)"
        by blast
      moreover have "length s div 4 = Suc (length s' div 4)" using 1 by simp
      ultimately show ?thesis by simp
    qed
    then show ?thesis
      using decode_loop_group [of p0 p1 p2 p3 s' dst p] unfolding 1 [symmetric] by auto
  qed simp
qed

lemma short_name_fault:
  assumes "length dn < 12" shows "getDecorationInfo dn = Fault"
proof -
  have "length dn div 4 \<le> 2" and all: "take 12 dn = dn" using assms by simp_all
  then have "length (base64Decode dn) \<le> 6"
    using decode_loop_length [of dn "[]" 0] by (simp add: base64Decode_def)
  with all show ?thesis by (simp add: getDecorationInfo_def)
qed

lemma connection_id:
  assumes "0 \<le> e" "e < 2147" "0 \<le> c"
  shows "getConnectionId e c = e * 1000000 + c mod 1000000" "getEventLoopId (getConnectionId e c) = e"
proof -
  have m: "0 \<le> c mod 1000000" "c mod 1000000 < 1000000" by simp_all
  have cm: "c_mod c 1000000 = c mod 1000000" using assms(3) by (simp add: c_mod_nonneg)
  have "i32 (e * 1000000 + c mod 1000000) = e * 1000000 + c mod 1000000"
    using assms m by (intro i32_id) simp_all
  then show id: "getConnectionId e c = e * 1000000 + c mod 1000000"
    by (simp add: getConnectionId_def EVENT_LOOP_ID_MASK_def cm)
  have "(e * 1000000 + c mod 1000000) div 1000000 = e" by simp
  moreover have "0 \<le> e * 1000000 + c mod 1000000" using assms m by linarith
  ultimately show "getEventLoopId (getConnectionId e c) = e"
    unfolding id getEventLoopId_def EVENT_LOOP_ID_MASK_def by (simp add: c_div_nonneg)
qed

lemma load_head_lg:
  "load_head (lg_constructPacket h body) =
    \<lparr>h_magic = htonl (h_magic h), h_len = htonl (of_nat (sizeof_head + length body)), h_cmd = htonl (h_cmd h)\<rparr>"
  using load_store_le [of "htonl (h_cmd h)" body]
  by (simp add: load_head_def lg_constructPacket_def Let_def)

lemma lg_packet: "lg_constructPacket h body = constructPacket (h\<lparr>h_magic := htonl (h_magic h)\<rparr>) body"
  by (simp add: lg_constructPacket_def constructPacket_def Let_def)

subsection \<open>Properties\<close>

text \<open>
  C13: a session id names its place. Whatever user id a session id was made for, both servers read back
  from it the number of the connect server, the number of the connection and the user id.
\<close>

theorem session_id_roundtrip:
  assumes "svid \<in> {- (2 ^ 31)..<2 ^ 31}" "conid \<in> {- (2 ^ 31)..<2 ^ 31}"
  shows "getDecorationInfo (decorationName svid conid n) = Done (svid, conid, n) \<and>
    lg_getDecorationInfo (lg_decorationName svid conid n) = Done (Some (svid, conid, n)) \<and>
    getDecorationInfo (genSessID svid conid n) = Done (svid, conid, n)"
  using decoration_info [of svid conid n] assms by (simp add: decoration_copies)

theorem session_id_roundtrip_witness:
  "getDecorationInfo (decorationName 7 (-3) [65]) = Done (7, -3, [65])"
  using session_id_roundtrip [of 7 "-3" "[65]"] by simp

text \<open>
  A session id that is too short is turned down by the push server; the connect server reads
  behind its decoded bytes instead, whatever the name is.
\<close>

theorem short_session_id:
  assumes "length dn < 12"
  shows "lg_getDecorationInfo dn = Done None \<and> getDecorationInfo dn = Fault"
  using short_name_fault [OF assms] assms by (simp add: lg_getDecorationInfo_def)

theorem short_session_id_witness: "getDecorationInfo [65, 66] = Fault"
  using short_session_id [of "[65, 66]"] by simp

text \<open>
  The number of a connection names its event loop, for loops up to 2146; two connections of one
  loop get the same number exactly if their counters agree modulo a million.
\<close>

theorem connection_number:
  assumes "e \<in> {0..<2147}" "0 \<le> c" "0 \<le> c'"
  shows "getEventLoopId (getConnectionId e c) = e \<and>
    (getConnectionId e c = getConnectionId e c' \<longleftrightarrow> c mod 1000000 = c' mod 1000000)"
  using connection_id [of e c] connection_id [of e c'] assms by simp

theorem connection_number_witness:
  "getConnectionId 12 5 = getConnectionId 12 1000005"
  using connection_number [of 12 5 1000005] by simp

text \<open>
  The two servers write the magic number in different byte orders, and neither's length check
  looks at it: a packet of either is measured alike.
\<close>

lemma packet_magic_unchecked:
  "chk_len (lg_constructPacket h body @ rest) = chk_len (constructPacket h body @ rest) \<and>
   lg_constructPacket h body = constructPacket (h\<lparr>h_magic := htonl (h_magic h)\<rparr>) body"
proof -
  have same: "length d = length e \<Longrightarrow> drop 4 d = drop 4 e \<Longrightarrow> chk_len d = chk_len e" for d e
    unfolding chk_len_def by (simp only:)
  have "drop 4 (lg_constructPacket h body @ rest) = drop 4 (constructPacket h body @ rest)"
    by (simp add: lg_constructPacket_def constructPacket_def Let_def)
  moreover have "length (lg_constructPacket h body @ rest) = length (constructPacket h body @ rest)"
    by (simp add: lg_packet)
  ultimately show ?thesis using same lg_packet by blast
qed

end
