(* ===== verification/RedisClient.thy ===== *)
theory RedisClient
  imports Complex_Main Containers "HOL-Library.List_Lexorder"
begin

text \<open>
  The Redis client of \<^verbatim>\<open>common/src/redis_client.cpp\<close> and \<^verbatim>\<open>common/include/redis_client.h\<close>: the
  connection with its retries, the conversion of replies, the building of argument vectors and the
  commands. The hiredis library is a parameter: a record of functions over a world of type \<open>'w\<close>. The
  log call-back only prints and is left out, and so are failures of \<^verbatim>\<open>malloc\<close>. The commands under
  \<^verbatim>\<open>ENABLE_UNSTABLE_INTERFACE\<close>, which no build file sets, are not modelled.
\<close>

subsection \<open>Replies and commands\<close>

datatype reply_type = REDIS_REPLY_STRING | REDIS_REPLY_ARRAY | REDIS_REPLY_INTEGER
  | REDIS_REPLY_NIL | REDIS_REPLY_STATUS | REDIS_REPLY_ERROR

text \<open>The field \<open>str\<close> is \<open>None\<close> for a null pointer, whose length hiredis leaves zero.\<close>

datatype redis_reply = redisReply
  (r_type: reply_type) (r_str: "bytes option") (r_integer: int) (r_element: "redis_reply list")

text \<open>
  The arguments behind a format: \<^verbatim>\<open>%b\<close> takes a pointer and a length, \<^verbatim>\<open>%s\<close> a string that ends at its first
  zero, \<^verbatim>\<open>%d\<close> and \<^verbatim>\<open>%lld\<close> an integer, \<^verbatim>\<open>%f\<close> a double. Doubles are real numbers, as no arithmetic is done
  on them.
\<close>

datatype fmt_arg = Ab bytes | As bytes | Ad int | Alld int | Af real

text \<open>A command given by a format and its arguments (\<^verbatim>\<open>va_list\<close>), or by a text alone (a null \<^verbatim>\<open>va_list\<close>).\<close>

datatype redis_cmd = Fmt string "fmt_arg list" | Plain bytes

text \<open>
  hiredis: connecting gives \<open>None\<close> for a null context, otherwise its field \<open>err\<close>; a command gives the
  reply (\<open>None\<close> for null) and \<open>err\<close> afterwards; freeing takes the context.
\<close>

record 'w hiredis =
  redisConnectWithTimeout :: "bytes \<Rightarrow> int \<Rightarrow> 'w \<Rightarrow> bool option \<times> 'w"
  redisvCommand :: "redis_cmd \<Rightarrow> 'w \<Rightarrow> redis_reply option \<times> bool \<times> 'w"
  redisCommandArgv :: "bytes list \<Rightarrow> 'w \<Rightarrow> redis_reply option \<times> bool \<times> 'w"
  redisFree :: "bool option \<Rightarrow> 'w \<Rightarrow> 'w"

definition CONNECT_CACHE_FAILED :: int where "CONNECT_CACHE_FAILED = - 100000"
definition CACHE_NOT_EXIST :: int where "CACHE_NOT_EXIST = - 1000000"
definition INVALID_ARGUMENT :: int where "INVALID_ARGUMENT = - 1000010"
definition SERVER_ERROR :: int where "SERVER_ERROR = - 1000020"

text \<open>\<open>m_c\<close>: the context pointer, \<open>Some err\<close> if it is not null; \<open>world\<close>: what hiredis works on.\<close>

record 'w redis_cli =
  m_addr :: bytes
  m_port :: int
  m_passWd :: bytes
  m_c :: "bool option"
  m_retry :: nat
  world :: 'w

definition RedisCli_init :: "'w \<Rightarrow> 'w redis_cli" where
  "RedisCli_init w = \<lparr>m_addr = [], m_port = 0, m_passWd = [], m_c = None, m_retry = 3, world = w\<rparr>"

subsection \<open>Connecting and running a command\<close>

definition takes_args :: "redis_cmd \<Rightarrow> bool" where
  "takes_args cmd = (case cmd of Fmt f args \<Rightarrow> args \<noteq> [] | Plain t \<Rightarrow> False)"

text \<open>
  The functions call each other: disconnecting sends \<^verbatim>\<open>QUIT\<close>, running a command reconnects, connecting
  sends \<^verbatim>\<open>AUTH\<close>, a failed command disconnects. The recursion runs through \<open>disconnect\<close>, which is a
  parameter of the others here; \<open>disconnect_r\<close> closes the circle with fuel for the depth of nested calls
  of it. \<open>redis_fuel\<close> is enough (the lemma \<open>exeCmd_result\<close> below).
  \<open>spent\<close>: the \<^verbatim>\<open>va_list\<close> has been handed to hiredis before. The code copies it to
  \<^verbatim>\<open>tmpap\<close> but hands over \<^verbatim>\<open>ap\<close> itself, so a second use takes arguments from an indeterminate
  position: \<open>Fault\<close>. A command on a null context is \<open>Fault\<close> too.
\<close>

type_synonym 'w disc = "'w redis_cli \<Rightarrow> 'w redis_cli outcome"
type_synonym 'w exe_result = "(int \<times> redis_reply option \<times> 'w redis_cli) outcome"

definition doExeCmdNoReconnect_with :: "'w hiredis \<Rightarrow> 'w disc \<Rightarrow> redis_cmd \<Rightarrow> bool \<Rightarrow> 'w redis_cli \<Rightarrow> 'w exe_result" where
  "doExeCmdNoReconnect_with h disc cmd spent c =
     (if m_c c = None \<or> spent \<and> takes_args cmd then Fault
      else let (tmpReply, err, w) = redisvCommand h cmd (world c);
               c = c\<lparr>m_c := Some err, world := w\<rparr>
           in case tmpReply of
                None \<Rightarrow> bind_outcome (disc c) (\<lambda>c. Done (-1, None, c))
              | Some r \<Rightarrow>
                  if err then bind_outcome (disc c) (\<lambda>c. Done (-3, None, c))
                  else if r_type r = REDIS_REPLY_ERROR then Done (-4, None, c)
                  else Done (0, Some r, c))"

definition connAuth_with :: "'w hiredis \<Rightarrow> 'w disc \<Rightarrow> bytes \<Rightarrow> 'w redis_cli \<Rightarrow> (int \<times> 'w redis_cli) outcome" where
  "connAuth_with h disc passWord c =
     bind_outcome (doExeCmdNoReconnect_with h disc (Plain (bytes_of ''AUTH '' @ passWord)) False c)
       (\<lambda>(ret, rpl, c). Done (ret, c))"

definition connect_with :: "'w hiredis \<Rightarrow> 'w disc \<Rightarrow> bytes \<Rightarrow> int \<Rightarrow> bytes \<Rightarrow> 'w redis_cli \<Rightarrow> (int \<times> 'w redis_cli) outcome" where
  "connect_with h disc addr port passWd c =
     (let c = c\<lparr>m_addr := addr, m_port := port, m_passWd := passWd\<rparr>;
          (ctx, w) = redisConnectWithTimeout h addr port (world c);
          c = c\<lparr>m_c := ctx, world := w\<rparr>;
          (ret, c) =
            (case m_c c of
               None \<Rightarrow> (CONNECT_CACHE_FAILED, c)
             | Some err \<Rightarrow>
                 if err then (CONNECT_CACHE_FAILED, c\<lparr>world := redisFree h (m_c c) (world c), m_c := None\<rparr>)
                 else (0, c))
      in if m_c c \<noteq> None \<and> passWd \<noteq> [] then connAuth_with h disc passWd c else Done (ret, c))"

definition reconnect_with :: "'w hiredis \<Rightarrow> 'w disc \<Rightarrow> 'w redis_cli \<Rightarrow> (int \<times> 'w redis_cli) outcome" where
  "reconnect_with h disc c =
     bind_outcome (disc c) (\<lambda>c. connect_with h disc (m_addr c) (m_port c) (m_passWd c) c)"

text \<open>\<open>l\<close>: the attempts left.\<close>

fun exeCmd_loop :: "'w hiredis \<Rightarrow> 'w disc \<Rightarrow> nat \<Rightarrow> int \<Rightarrow> redis_cmd \<Rightarrow> bool \<Rightarrow> 'w redis_cli \<Rightarrow> 'w exe_result" where
  "exeCmd_loop h disc 0 ret cmd spent c = Done (ret, None, c)"
| "exeCmd_loop h disc (Suc l) ret cmd spent c =
     bind_outcome (if m_c c = None then reconnect_with h disc c else Done (ret, c))
       (\<lambda>(ret, c).
          if ret < 0 then exeCmd_loop h disc l ret cmd spent c
          else bind_outcome (doExeCmdNoReconnect_with h disc cmd spent c)
                 (\<lambda>(ret, rpl, c).
                    if ret \<ge> 0 \<or> ret = -4 then Done (ret, rpl, c)
                    else exeCmd_loop h disc l ret cmd True c))"

primrec disconnect_r :: "'w hiredis \<Rightarrow> nat \<Rightarrow> 'w disc" where
  "disconnect_r h 0 = (\<lambda>c. NoFuel)"
| "disconnect_r h (Suc n) = (\<lambda>c.
     case m_c c of
       None \<Rightarrow> Done c
     | Some err \<Rightarrow>
         bind_outcome
           (if \<not> err
            then bind_outcome (exeCmd_loop h (disconnect_r h n) (m_retry c) 0 (Fmt ''QUIT'' []) False c)
                   (\<lambda>(ret, rpl, c). Done c)
            else Done c)
           (\<lambda>c. Done (c\<lparr>world := redisFree h (m_c c) (world c), m_c := None\<rparr>)))"

definition redis_fuel :: nat where "redis_fuel = 2"

definition rc_disconnect :: "'w hiredis \<Rightarrow> 'w disc" where
  "rc_disconnect h = disconnect_r h redis_fuel"

definition rc_reconnect :: "'w hiredis \<Rightarrow> 'w redis_cli \<Rightarrow> (int \<times> 'w redis_cli) outcome" where
  "rc_reconnect h c = reconnect_with h (rc_disconnect h) c"

definition rc_connect :: "'w hiredis \<Rightarrow> bytes \<Rightarrow> int \<Rightarrow> bytes \<Rightarrow> 'w redis_cli \<Rightarrow> (int \<times> 'w redis_cli) outcome" where
  "rc_connect h addr port passWd c = connect_with h (rc_disconnect h) addr port passWd c"

definition exeCmd :: "'w hiredis \<Rightarrow> redis_cmd \<Rightarrow> 'w redis_cli \<Rightarrow> 'w exe_result" where
  "exeCmd h cmd c = exeCmd_loop h (rc_disconnect h) (m_retry c) 0 cmd False c"

definition connAuth :: "'w hiredis \<Rightarrow> bytes \<Rightarrow> 'w redis_cli \<Rightarrow> (int \<times> 'w redis_cli) outcome" where
  "connAuth h passWord c = connAuth_with h (rc_disconnect h) passWord c"

text \<open>The same for a vector of arguments.\<close>

definition doExeCmdNoReconnect_argv :: "'w hiredis \<Rightarrow> bytes list \<Rightarrow> 'w redis_cli \<Rightarrow> 'w exe_result" where
  "doExeCmdNoReconnect_argv h argv c =
     (if m_c c = None then Fault
      else let (tmpReply, err, w) = redisCommandArgv h argv (world c);
               c = c\<lparr>m_c := Some err, world := w\<rparr>
           in case tmpReply of
                None \<Rightarrow> bind_outcome (rc_disconnect h c) (\<lambda>c. Done (-1, None, c))
              | Some r \<Rightarrow>
                  if err then bind_outcome (rc_disconnect h c) (\<lambda>c. Done (-3, None, c))
                  else if r_type r = REDIS_REPLY_ERROR then Done (-4, None, c)
                  else Done (0, Some r, c))"

fun exeCmd_argv_loop :: "'w hiredis \<Rightarrow> nat \<Rightarrow> int \<Rightarrow> bytes list \<Rightarrow> 'w redis_cli \<Rightarrow> 'w exe_result" where
  "exeCmd_argv_loop h 0 ret argv c = Done (ret, None, c)"
| "exeCmd_argv_loop h (Suc l) ret argv c =
     bind_outcome (if m_c c = None then rc_reconnect h c else Done (ret, c))
       (\<lambda>(ret, c).
          if ret < 0 then exeCmd_argv_loop h l ret argv c
          else bind_outcome (doExeCmdNoReconnect_argv h argv c)
                 (\<lambda>(ret, rpl, c).
                    if ret \<ge> 0 \<or> ret = -4 then Done (ret, rpl, c)
                    else exeCmd_argv_loop h l ret argv c))"

definition exeCmd_argv :: "'w hiredis \<Rightarrow> bytes list \<Rightarrow> 'w redis_cli \<Rightarrow> 'w exe_result" where
  "exeCmd_argv h argv c = exeCmd_argv_loop h (m_retry c) 0 argv c"

definition connectCache :: "'w hiredis \<Rightarrow> bytes \<Rightarrow> int \<Rightarrow> bytes \<Rightarrow> 'w \<Rightarrow> ('w redis_cli option \<times> 'w) outcome" where
  \<comment> \<open>the destructor of a client that cannot connect disconnects it\<close>
  "connectCache h ip port passWd w =
     bind_outcome (rc_connect h ip port passWd (RedisCli_init w))
       (\<lambda>(ret, c). if ret < 0 then bind_outcome (rc_disconnect h c) (\<lambda>c. Done (None, world c))
                   else Done (Some c, world c))"

subsection \<open>Results from replies\<close>

text \<open>
  \<^verbatim>\<open>_getResultFromReply\<close>: each version adds to the value that the caller passes. \<open>reply_text\<close> is
  \<^verbatim>\<open>string(str, len)\<close>, empty for a null pointer of length zero.
\<close>

definition reply_text :: "redis_reply \<Rightarrow> bytes" where
  "reply_text r = (case r_str r of None \<Rightarrow> [] | Some t \<Rightarrow> t)"

type_synonym 'a conv = "redis_reply \<Rightarrow> 'a \<Rightarrow> (int \<times> 'a) outcome"

definition res_string :: "bytes conv" where
  "res_string reply result =
     (case r_str reply of None \<Rightarrow> Done (CACHE_NOT_EXIST, result) | Some t \<Rightarrow> Done (0, result @ t))"

definition res_vector :: "bytes list conv" where
  "res_vector reply result =
     (if r_type reply \<noteq> REDIS_REPLY_ARRAY then Done (CACHE_NOT_EXIST, result)
      else Done (0, result @ map reply_text (r_element reply)))"

text \<open>The loops step by two; with an odd number of elements the last step reads behind them.\<close>

fun res_map_loop :: "redis_reply list \<Rightarrow> (bytes, bytes) std_map \<Rightarrow> (int \<times> (bytes, bytes) std_map) outcome" where
  "res_map_loop [] result = Done (0, result)"
| "res_map_loop [k] result = Fault"
| "res_map_loop (k # v # es) result = res_map_loop es (map_put (reply_text k) (reply_text v) result)"

definition res_map :: "(bytes, bytes) std_map conv" where
  "res_map reply result =
     (if r_type reply \<noteq> REDIS_REPLY_ARRAY then Done (CACHE_NOT_EXIST, result)
      else res_map_loop (r_element reply) result)"

fun res_pairs_loop :: "redis_reply list \<Rightarrow> (bytes \<times> bytes) list \<Rightarrow> (int \<times> (bytes \<times> bytes) list) outcome" where
  "res_pairs_loop [] result = Done (0, result)"
| "res_pairs_loop [s] result = Fault"
| "res_pairs_loop (s # f # es) result = res_pairs_loop es (result @ [(reply_text f, reply_text s)])"

definition res_pairs :: "(bytes \<times> bytes) list conv" where
  "res_pairs reply result =
     (if r_type reply \<noteq> REDIS_REPLY_ARRAY then Done (CACHE_NOT_EXIST, result)
      else res_pairs_loop (r_element reply) result)"

definition res_int64 :: "int conv" where
  "res_int64 reply result =
     (if r_type reply \<noteq> REDIS_REPLY_INTEGER then Done (CACHE_NOT_EXIST, result)
      else Done (0, r_integer reply))"

definition res_int :: "int conv" where
  "res_int reply result =
     (if r_type reply \<noteq> REDIS_REPLY_INTEGER then Done (CACHE_NOT_EXIST, result)
      else Done (0, i32 (r_integer reply)))"

definition getResultFromReply :: "'a conv \<Rightarrow> redis_reply option \<Rightarrow> 'a \<Rightarrow> (int \<times> 'a) outcome" where
  "getResultFromReply conv reply result =
     (case reply of
        None \<Rightarrow> Done (CACHE_NOT_EXIST, result)
      | Some r \<Rightarrow>
          if r_type r = REDIS_REPLY_NIL then Done (CACHE_NOT_EXIST, result)
          else if r_type r = REDIS_REPLY_ERROR then Done (-1, result)
          else conv r result)"

definition exeCmdWithNoOutput :: "'w hiredis \<Rightarrow> string \<Rightarrow> fmt_arg list \<Rightarrow> 'w redis_cli \<Rightarrow> (int \<times> 'w redis_cli) outcome" where
  "exeCmdWithNoOutput h fmt args c =
     bind_outcome (exeCmd h (Fmt fmt args) c) (\<lambda>(ret, rpl, c). Done (if ret < 0 then -1 else 0, c))"

definition exeCmdWithOutput :: "'w hiredis \<Rightarrow> 'a conv \<Rightarrow> 'a \<Rightarrow> string \<Rightarrow> fmt_arg list \<Rightarrow> 'w redis_cli \<Rightarrow>
    (int \<times> 'a \<times> 'w redis_cli) outcome" where
  "exeCmdWithOutput h conv output fmt args c =
     bind_outcome (exeCmd h (Fmt fmt args) c)
       (\<lambda>(ret, rpl, c).
          if ret < 0 then Done (-1, output, c)
          else bind_outcome (getResultFromReply conv rpl output) (\<lambda>(ret, output). Done (ret, output, c)))"

subsection \<open>Argument vectors\<close>

definition argSize_v :: "bytes list \<Rightarrow> nat" where
  "argSize_v value = length value"

definition argSize_m :: "(bytes, bytes) std_map \<Rightarrow> nat" where
  "argSize_m value = push_bit 1 (length value)"

text \<open>
  The vector has \<open>argc\<close> entries, which start undefined (\<open>None\<close>); a write at \<open>argc\<close> or above would be
  outside of the allocated block.
\<close>

definition argv_write :: "nat \<Rightarrow> bytes \<Rightarrow> bytes option list \<Rightarrow> bytes option list outcome" where
  "argv_write i x argv = (if i < length argv then Done (argv[i := Some x]) else Fault)"

definition fillData_v :: "nat \<Rightarrow> bytes option list \<Rightarrow> bytes \<Rightarrow> (nat \<times> bytes option list) outcome" where
  "fillData_v curPos argv it = bind_outcome (argv_write curPos it argv) (\<lambda>argv. Done (curPos, argv))"

definition fillData_m :: "nat \<Rightarrow> bytes option list \<Rightarrow> bytes \<times> bytes \<Rightarrow> (nat \<times> bytes option list) outcome" where
  "fillData_m curPos argv it =
     bind_outcome (argv_write curPos (fst it) argv) (\<lambda>argv.
       let curPos = curPos + 1
       in bind_outcome (argv_write curPos (snd it) argv) (\<lambda>argv. Done (curPos, argv)))"

text \<open>The loop over the input, and the part the two templates share up to the call.\<close>

fun fill_loop :: "(nat \<Rightarrow> bytes option list \<Rightarrow> 'x \<Rightarrow> (nat \<times> bytes option list) outcome) \<Rightarrow> 'x list \<Rightarrow> nat \<Rightarrow>
    bytes option list \<Rightarrow> bytes option list outcome" where
  "fill_loop fill [] i argv = Done argv"
| "fill_loop fill (x # xs) i argv =
     bind_outcome (fill i argv x) (\<lambda>(i, argv). fill_loop fill xs (i + 1) argv)"

definition build_argv :: "('x list \<Rightarrow> nat) \<Rightarrow> (nat \<Rightarrow> bytes option list \<Rightarrow> 'x \<Rightarrow> (nat \<times> bytes option list) outcome) \<Rightarrow>
    bytes \<Rightarrow> bytes \<Rightarrow> 'x list \<Rightarrow> bytes option list outcome" where
  "build_argv argSize fill cmdName key input =
     (let argc = argSize input + 1;
          argc = (if key \<noteq> [] then argc + 1 else argc)
      in bind_outcome (argv_write 0 cmdName (replicate argc None)) (\<lambda>argv.
         bind_outcome (if key \<noteq> [] then argv_write 1 key argv else Done argv) (\<lambda>argv.
           fill_loop fill input (if key \<noteq> [] then 2 else 1) argv)))"

text \<open>An entry that was never written is handed to hiredis as garbage: \<open>Fault\<close>.\<close>

definition exeCmdWithNoOutputM :: "'w hiredis \<Rightarrow> ('x list \<Rightarrow> nat) \<Rightarrow>
    (nat \<Rightarrow> bytes option list \<Rightarrow> 'x \<Rightarrow> (nat \<times> bytes option list) outcome) \<Rightarrow>
    bytes \<Rightarrow> bytes \<Rightarrow> 'x list \<Rightarrow> 'w redis_cli \<Rightarrow> (int \<times> 'w redis_cli) outcome" where
  "exeCmdWithNoOutputM h argSize fill cmdName key input c =
     bind_outcome (build_argv argSize fill cmdName key input) (\<lambda>argv.
       if None \<in> set argv then Fault
       else bind_outcome (exeCmd_argv h (map the argv) c)
              (\<lambda>(ret, rpl, c). Done (if ret < 0 then -1 else 0, c)))"

subsection \<open>Every call returns\<close>

text \<open>hiredis as documented: a command without a reply leaves the error field set.\<close>

definition reply_or_error :: "'w hiredis \<Rightarrow> bool" where
  "reply_or_error h \<longleftrightarrow>
     (\<forall>cmd w. fst (redisvCommand h cmd w) = None \<longrightarrow> fst (snd (redisvCommand h cmd w))) \<and>
     (\<forall>argv w. fst (redisCommandArgv h argv w) = None \<longrightarrow> fst (snd (redisCommandArgv h argv w)))"

text \<open>\<open>settled\<close>: the context is absent or broken, as wherever a command disconnects.\<close>

lemma disc_settled:
  "m_c c \<noteq> Some False \<Longrightarrow>
   disconnect_r h (Suc n) c =
     Done (if m_c c = None then c else c\<lparr>world := redisFree h (m_c c) (world c), m_c := None\<rparr>)"
  by (auto split: option.splits)

definition disc_ok :: "'w disc \<Rightarrow> bool" where
  "disc_ok disc \<longleftrightarrow> (\<forall>c. m_c c \<noteq> Some False \<longrightarrow> (\<exists>c'. disc c = Done c' \<and> m_c c' = None \<and> m_retry c' = m_retry c))"

lemma disc_ok_r: "disc_ok (disconnect_r h (Suc n))"
  unfolding disc_ok_def by (auto simp: disc_settled simp del: disconnect_r.simps)

text \<open>The results of one command: the code, and what it leaves of the connection.\<close>

definition cmd_result :: "nat \<Rightarrow> int \<Rightarrow> redis_reply option \<Rightarrow> 'w redis_cli \<Rightarrow> bool" where
  "cmd_result retry ret rpl c \<longleftrightarrow> m_retry c = retry \<and>
     (ret = 0 \<and> (\<exists>r. rpl = Some r \<and> r_type r \<noteq> REDIS_REPLY_ERROR) \<and> m_c c = Some False \<or>
      ret = -4 \<and> rpl = None \<and> m_c c = Some False \<or>
      (ret = -1 \<or> ret = -3) \<and> rpl = None \<and> m_c c = None)"

lemma do_result:
  assumes "disc_ok disc" "reply_or_error h" "m_c c \<noteq> None" "\<not> (spent \<and> takes_args cmd)"
  shows "\<exists>ret rpl c'. doExeCmdNoReconnect_with h disc cmd spent c = Done (ret, rpl, c') \<and>
    cmd_result (m_retry c) ret rpl c'"
proof -
  obtain rep err w where eq: "redisvCommand h cmd (world c) = (rep, err, w)" by (metis prod_cases3)
  have "rep = None \<Longrightarrow> err"
    using assms(2) eq unfolding reply_or_error_def by (metis fst_conv snd_conv)
  moreover have "err \<Longrightarrow> \<exists>c'. disc (c\<lparr>m_c := Some err, world := w\<rparr>) = Done c' \<and> m_c c' = None \<and> m_retry c' = m_retry c"
    using assms(1) unfolding disc_ok_def by (auto dest: spec [of _ "c\<lparr>m_c := Some err, world := w\<rparr>"])
  ultimately show ?thesis
    using assms(3,4) eq
    by (cases rep; cases err) (auto simp: doExeCmdNoReconnect_with_def cmd_result_def Let_def)
qed

text \<open>Between calls the context is absent or without an error.\<close>

definition conn_result :: "nat \<Rightarrow> int \<Rightarrow> 'w redis_cli \<Rightarrow> bool" where
  "conn_result retry ret c \<longleftrightarrow> m_retry c = retry \<and>
     (ret = 0 \<and> m_c c = Some False \<or> ret < 0 \<and> m_c c \<noteq> Some True)"

lemma cmd_result_cases:
  assumes "cmd_result retry ret rpl c"
  obtains "ret = 0" "\<exists>r. rpl = Some r \<and> r_type r \<noteq> REDIS_REPLY_ERROR" "m_c c = Some False" "m_retry c = retry"
    | "ret < 0" "ret = -4" "rpl = None" "m_c c = Some False" "m_retry c = retry"
    | "ret < 0" "ret \<noteq> -4" "rpl = None" "m_c c = None" "m_retry c = retry"
  using assms unfolding cmd_result_def by fastforce

lemma connect_result:
  assumes "disc_ok disc" "reply_or_error h"
  shows "\<exists>ret c'. connect_with h disc addr port passWd c = Done (ret, c') \<and> conn_result (m_retry c) ret c'"
proof -
  obtain ctx w where conn: "redisConnectWithTimeout h addr port (world c) = (ctx, w)" by fastforce
  let ?c = "c\<lparr>m_addr := addr, m_port := port, m_passWd := passWd, m_c := Some False, world := w\<rparr>"
  consider "ctx = None \<or> ctx = Some True \<or> passWd = []" | "ctx = Some False" "passWd \<noteq> []" by (cases ctx) auto
  then show ?thesis
  proof cases
    case 1
    then show ?thesis
      using conn by (cases ctx) (auto simp: connect_with_def conn_result_def CONNECT_CACHE_FAILED_def Let_def)
  next
    case 2
    obtain ret rpl c' where "doExeCmdNoReconnect_with h disc (Plain (bytes_of ''AUTH '' @ passWd)) False ?c = Done (ret, rpl, c')"
      "cmd_result (m_retry ?c) ret rpl c'"
      using do_result [OF assms, of ?c False "Plain (bytes_of ''AUTH '' @ passWd)"] by (auto simp del: bytes_of_simps)
    then show ?thesis
      using 2 conn
      by (auto simp: connect_with_def connAuth_with_def conn_result_def Let_def simp del: bytes_of_simps elim!: cmd_result_cases)
  qed
qed

lemma reconnect_result:
  assumes "disc_ok disc" "reply_or_error h" "m_c c = None"
  shows "\<exists>ret c'. reconnect_with h disc c = Done (ret, c') \<and> conn_result (m_retry c) ret c'"
proof -
  obtain c' where "disc c = Done c'" "m_retry c' = m_retry c" using assms(1,3) unfolding disc_ok_def by (metis option.distinct(1))
  then show ?thesis
    using connect_result [OF assms(1,2), of "m_addr c'" "m_port c'" "m_passWd c'" c'] by (simp add: reconnect_with_def)
qed

definition exe_result_ok :: "'w redis_cli \<Rightarrow> int \<Rightarrow> redis_reply option \<Rightarrow> 'w redis_cli \<Rightarrow> bool" where
  "exe_result_ok c ret rpl c' \<longleftrightarrow> m_retry c' = m_retry c \<and> m_c c' \<noteq> Some True \<and>
     (ret = 0 \<and> rpl \<noteq> None \<or> ret < 0 \<and> rpl = None)"

lemma loop_result:
  assumes "disc_ok disc" "reply_or_error h"
  shows "m_c c \<noteq> Some True \<Longrightarrow> 0 < l \<or> ret < 0 \<Longrightarrow> ret \<le> 0 \<Longrightarrow>
    exeCmd_loop h disc l ret cmd spent c = Fault \<and> takes_args cmd \<or>
    (\<exists>ret' rpl c'. exeCmd_loop h disc l ret cmd spent c = Done (ret', rpl, c') \<and> exe_result_ok c ret' rpl c')"
proof (induction l arbitrary: ret spent c)
  case 0
  then show ?case by (simp add: exe_result_ok_def)
next
  case (Suc l)
  have "\<exists>r1 c1. (if m_c c = None then reconnect_with h disc c else Done (ret, c)) = Done (r1, c1) \<and>
      m_retry c1 = m_retry c \<and> m_c c1 \<noteq> Some True \<and> r1 \<le> 0 \<and> (r1 < 0 \<or> m_c c1 \<noteq> None)"
    using reconnect_result [OF assms, of c] Suc.prems by (cases "m_c c = None") (auto simp: conn_result_def)
  then obtain r1 c1 where conn: "(if m_c c = None then reconnect_with h disc c else Done (ret, c)) = Done (r1, c1)"
    and c1: "m_retry c1 = m_retry c" "m_c c1 \<noteq> Some True" "r1 \<le> 0" "r1 < 0 \<or> m_c c1 \<noteq> None"
    by blast
  show ?case
  proof (cases "r1 < 0")
    case True
    then show ?thesis
      using Suc.IH [OF c1(2), of r1 spent] conn c1(1) by (auto simp: exe_result_ok_def)
  next
    case False
    then have r1: "r1 = 0" "m_c c1 \<noteq> None" using c1 by auto
    show ?thesis
    proof (cases "spent \<and> takes_args cmd")
      case True
      then show ?thesis using conn r1 by (simp add: doExeCmdNoReconnect_with_def)
    next
      case ok: False
      obtain r2 rpl c2 where "doExeCmdNoReconnect_with h disc cmd spent c1 = Done (r2, rpl, c2)"
        "cmd_result (m_retry c1) r2 rpl c2"
        using do_result [OF assms r1(2) ok] by auto
      then show ?thesis
        using conn r1 c1(1) Suc.IH [of c2 r2 True]
        by (auto elim!: cmd_result_cases simp: exe_result_ok_def)
    qed
  qed
qed

lemma disc_ok_disconnect: "disc_ok (rc_disconnect h)"
  using disc_ok_r [of h 1] by (simp add: rc_disconnect_def redis_fuel_def numeral_2_eq_2)

lemma exeCmd_result:
  assumes "reply_or_error h" "m_c c \<noteq> Some True" "0 < m_retry c"
  shows "exeCmd h cmd c = Fault \<and> takes_args cmd \<or>
    (\<exists>ret rpl c'. exeCmd h cmd c = Done (ret, rpl, c') \<and> exe_result_ok c ret rpl c')"
  using loop_result [OF disc_ok_disconnect [of h] assms(1,2), of "m_retry c" 0 cmd False] assms(3)
  by (simp add: exeCmd_def)

lemma do_argv_result:
  assumes "reply_or_error h" "m_c c \<noteq> None"
  shows "\<exists>ret rpl c'. doExeCmdNoReconnect_argv h argv c = Done (ret, rpl, c') \<and> cmd_result (m_retry c) ret rpl c'"
proof -
  obtain rep err w where eq: "redisCommandArgv h argv (world c) = (rep, err, w)" by (metis prod_cases3)
  have "rep = None \<Longrightarrow> err"
    using assms(1) eq unfolding reply_or_error_def by (metis fst_conv snd_conv)
  moreover have "err \<Longrightarrow> \<exists>c'. rc_disconnect h (c\<lparr>m_c := Some err, world := w\<rparr>) = Done c' \<and> m_c c' = None \<and> m_retry c' = m_retry c"
    using disc_ok_disconnect [of h] unfolding disc_ok_def by (auto dest: spec [of _ "c\<lparr>m_c := Some err, world := w\<rparr>"])
  ultimately show ?thesis
    using assms(2) eq
    by (cases rep; cases err) (auto simp: doExeCmdNoReconnect_argv_def cmd_result_def Let_def)
qed

lemma argv_loop_result:
  assumes "reply_or_error h"
  shows "m_c c \<noteq> Some True \<Longrightarrow> 0 < l \<or> ret < 0 \<Longrightarrow> ret \<le> 0 \<Longrightarrow>
    \<exists>ret' rpl c'. exeCmd_argv_loop h l ret argv c = Done (ret', rpl, c') \<and> exe_result_ok c ret' rpl c'"
proof (induction l arbitrary: ret c)
  case 0
  then show ?case by (simp add: exe_result_ok_def)
next
  case (Suc l)
  have "\<exists>r1 c1. (if m_c c = None then rc_reconnect h c else Done (ret, c)) = Done (r1, c1) \<and>
      m_retry c1 = m_retry c \<and> m_c c1 \<noteq> Some True \<and> r1 \<le> 0 \<and> (r1 < 0 \<or> m_c c1 \<noteq> None)"
    using reconnect_result [OF disc_ok_disconnect [of h] assms, of c] Suc.prems
    by (cases "m_c c = None") (auto simp: conn_result_def rc_reconnect_def)
  then obtain r1 c1 where conn: "(if m_c c = None then rc_reconnect h c else Done (ret, c)) = Done (r1, c1)"
    and c1: "m_retry c1 = m_retry c" "m_c c1 \<noteq> Some True" "r1 \<le> 0" "r1 < 0 \<or> m_c c1 \<noteq> None"
    by blast
  show ?case
  proof (cases "r1 < 0")
    case True
    then show ?thesis using Suc.IH [OF c1(2), of r1] conn c1(1) by (auto simp: exe_result_ok_def)
  next
    case False
    then have r1: "r1 = 0" "m_c c1 \<noteq> None" using c1 by auto
    obtain r2 rpl c2 where "doExeCmdNoReconnect_argv h argv c1 = Done (r2, rpl, c2)" "cmd_result (m_retry c1) r2 rpl c2"
      using do_argv_result [OF assms r1(2), of argv] by auto
    then show ?thesis
      using conn r1 c1(1) Suc.IH [of c2 r2] by (auto elim!: cmd_result_cases simp: exe_result_ok_def)
  qed
qed

lemma exeCmd_argv_result:
  assumes "reply_or_error h" "m_c c \<noteq> Some True" "0 < m_retry c"
  shows "\<exists>ret rpl c'. exeCmd_argv h argv c = Done (ret, rpl, c') \<and> exe_result_ok c ret rpl c'"
  using argv_loop_result [OF assms(1,2), of "m_retry c" 0 argv] assms(3) by (simp add: exeCmd_argv_def)

lemma disconnect_result:
  assumes "reply_or_error h" "m_c c \<noteq> Some True" "0 < m_retry c"
  shows "\<exists>c'. rc_disconnect h c = Done c' \<and> m_c c' = None"
proof (cases "m_c c")
  case None
  then show ?thesis by (simp add: rc_disconnect_def redis_fuel_def numeral_2_eq_2)
next
  case (Some err)
  then show ?thesis
    using loop_result [OF disc_ok_r [of h 0] assms(1,2), of "m_retry c" 0 "Fmt ''QUIT'' []" False] assms
    by (auto simp: rc_disconnect_def redis_fuel_def numeral_2_eq_2 takes_args_def)
qed

subsection \<open>Properties\<close>


text \<open>A server that lets the connection drop now and then: the world lists whether each command gets through.\<close>

fun scripted_cmd :: "bool list \<Rightarrow> redis_reply option \<times> bool \<times> bool list" where
  "scripted_cmd (True # w) = (Some (redisReply REDIS_REPLY_STATUS None 0 []), False, w)"
| "scripted_cmd (False # w) = (None, True, w)"
| "scripted_cmd [] = (None, True, [])"

definition scripted :: "bool list hiredis" where
  "scripted =
     \<lparr>redisConnectWithTimeout = \<lambda>addr port w. (Some False, w), redisvCommand = \<lambda>cmd. scripted_cmd,
      redisCommandArgv = \<lambda>argv. scripted_cmd, redisFree = \<lambda>c w. w\<rparr>"

lemma scripted_cmd_ok: "fst (scripted_cmd w) = None \<Longrightarrow> fst (snd (scripted_cmd w))"
  by (cases w rule: scripted_cmd.cases) auto

lemma scripted_ok: "reply_or_error scripted"
  using scripted_cmd_ok by (auto simp: reply_or_error_def scripted_def)


lemma do_fails:
  assumes "m_c c = Some e" "redisvCommand h cmd (world c) = (None, True, w)"
  shows "doExeCmdNoReconnect_with h (rc_disconnect h) cmd False c =
    Done (-1, None, c\<lparr>m_c := None, world := redisFree h (Some True) w\<rparr>)"
  using assms by (simp add: doExeCmdNoReconnect_with_def rc_disconnect_def redis_fuel_def numeral_2_eq_2)

lemma do_argv_fails:
  assumes "m_c c = Some e" "redisCommandArgv h argv (world c) = (None, True, w)"
  shows "doExeCmdNoReconnect_argv h argv c =
    Done (-1, None, c\<lparr>m_c := None, world := redisFree h (Some True) w\<rparr>)"
  using assms by (simp add: doExeCmdNoReconnect_argv_def rc_disconnect_def redis_fuel_def numeral_2_eq_2)

lemma reconnect_plain:
  assumes "m_c c = None" "m_passWd c = []" "redisConnectWithTimeout h (m_addr c) (m_port c) (world c) = (Some False, w)"
  shows "rc_reconnect h c = Done (0, c\<lparr>m_c := Some False, world := w\<rparr>)"
  using assms
  by (simp add: rc_reconnect_def reconnect_with_def connect_with_def rc_disconnect_def redis_fuel_def numeral_2_eq_2)

text \<open>
  A connection that has been lost is made anew, and a command given by a vector then goes through. A
  command given by a format with arguments is not: its argument list has been used up by the first attempt.
\<close>

theorem lost_connection_retry:
  assumes "m_retry c = Suc (Suc l)" "m_c c = Some False" "m_passWd c = []"
    and "redisConnectWithTimeout h (m_addr c) (m_port c) (redisFree h (Some True) w) = (Some False, w')"
    and "redisCommandArgv h argv (world c) = (None, True, w)"
    and "redisCommandArgv h argv w' = (Some r, False, w'')" "r_type r \<noteq> REDIS_REPLY_ERROR"
    and "redisvCommand h (Fmt f args) (world c) = (None, True, w)" "args \<noteq> []"
  shows "exeCmd_argv h argv c = Done (0, Some r, c\<lparr>m_c := Some False, world := w''\<rparr>) \<and>
    exeCmd h (Fmt f args) c = Fault"
proof
  let ?c = "c\<lparr>m_c := None, world := redisFree h (Some True) w\<rparr>"
  have re: "rc_reconnect h ?c = Done (0, ?c\<lparr>m_c := Some False, world := w'\<rparr>)"
    using reconnect_plain [of ?c h w'] assms(3,4) by simp
  then show "exeCmd_argv h argv c = Done (0, Some r, c\<lparr>m_c := Some False, world := w''\<rparr>)"
    using assms(1,2,6,7) do_argv_fails [OF assms(2,5)]
    by (simp add: exeCmd_argv_def) (simp add: doExeCmdNoReconnect_argv_def Let_def)
  show "exeCmd h (Fmt f args) c = Fault"
    using assms(1,2,9) re do_fails [OF assms(2,8)]
    by (simp add: exeCmd_def rc_reconnect_def) (simp add: doExeCmdNoReconnect_with_def takes_args_def)
qed

theorem lost_connection_retry_witness:
  "exeCmd scripted (Fmt ''GET %b'' [Ab [65]]) ((RedisCli_init [False, True])\<lparr>m_c := Some False\<rparr>) = Fault"
  using lost_connection_retry
    [of "(RedisCli_init [False, True])\<lparr>m_c := Some False\<rparr>" 1 scripted "[True]" "[True]" "[]"
        "redisReply REDIS_REPLY_STATUS None 0 []" "[]" "''GET %b''" "[Ab [65]]"]
  by (simp add: RedisCli_init_def scripted_def numeral_eq_Suc)
end
