(* ===== verification/RedisCommands.thy ===== *)
theory RedisCommands
  imports RedisClient
begin

text \<open>
  The commands of \<^verbatim>\<open>RedisCli\<close> in \<^verbatim>\<open>common/src/redis_client.cpp\<close>, each with its format and arguments as
  the source has them; \<open>out\<close> is the output parameter's old value. Below them: what they send and what they
  make of the reply.
\<close>

subsection \<open>Keys and strings\<close>

definition keyDel :: "'w hiredis \<Rightarrow> bytes \<Rightarrow> 'w redis_cli \<Rightarrow> (int \<times> 'w redis_cli) outcome" where
  "keyDel h key c = exeCmdWithNoOutput h ''DEL %b'' [Ab key] c"

definition keyExists :: "'w hiredis \<Rightarrow> bytes \<Rightarrow> int \<Rightarrow> 'w redis_cli \<Rightarrow> (int \<times> int \<times> 'w redis_cli) outcome" where
  "keyExists h key out c = exeCmdWithOutput h res_int out ''EXISTS %b'' [Ab key] c"

definition keyExpire :: "'w hiredis \<Rightarrow> bytes \<Rightarrow> int \<Rightarrow> 'w redis_cli \<Rightarrow> (int \<times> 'w redis_cli) outcome" where
  "keyExpire h key seconds c = exeCmdWithNoOutput h ''EXPIRE %b %d'' [Ab key, Ad seconds] c"

definition strGet :: "'w hiredis \<Rightarrow> bytes \<Rightarrow> bytes \<Rightarrow> 'w redis_cli \<Rightarrow> (int \<times> bytes \<times> 'w redis_cli) outcome" where
  "strGet h key out c = exeCmdWithOutput h res_string out ''GET %b'' [Ab key] c"

definition strGetSet :: "'w hiredis \<Rightarrow> bytes \<Rightarrow> bytes \<Rightarrow> bytes \<Rightarrow> 'w redis_cli \<Rightarrow> (int \<times> bytes \<times> 'w redis_cli) outcome" where
  "strGetSet h key val out c = exeCmdWithOutput h res_string out ''GETSET %b %b'' [Ab key, Ab val] c"

definition strIncr :: "'w hiredis \<Rightarrow> bytes \<Rightarrow> int \<Rightarrow> 'w redis_cli \<Rightarrow> (int \<times> int \<times> 'w redis_cli) outcome" where
  "strIncr h key out c = exeCmdWithOutput h res_int64 out ''INCR %b'' [Ab key] c"

definition strIncrBy :: "'w hiredis \<Rightarrow> bytes \<Rightarrow> int \<Rightarrow> int \<Rightarrow> 'w redis_cli \<Rightarrow> (int \<times> int \<times> 'w redis_cli) outcome" where
  "strIncrBy h key increment out c = exeCmdWithOutput h res_int64 out ''INCRBY %b %lld'' [Ab key, Alld increment] c"

definition strSet :: "'w hiredis \<Rightarrow> bytes \<Rightarrow> bytes \<Rightarrow> 'w redis_cli \<Rightarrow> (int \<times> 'w redis_cli) outcome" where
  "strSet h key val c = exeCmdWithNoOutput h ''SET %b %b'' [Ab key, Ab val] c"

subsection \<open>Hashes\<close>

definition hashDel :: "'w hiredis \<Rightarrow> bytes \<Rightarrow> bytes \<Rightarrow> 'w redis_cli \<Rightarrow> (int \<times> 'w redis_cli) outcome" where
  "hashDel h key field c = exeCmdWithNoOutput h ''HDEL %b %b'' [Ab key, Ab field] c"

definition hashMDel :: "'w hiredis \<Rightarrow> bytes \<Rightarrow> bytes list \<Rightarrow> 'w redis_cli \<Rightarrow> (int \<times> 'w redis_cli) outcome" where
  "hashMDel h key flds c = exeCmdWithNoOutputM h argSize_v fillData_v (bytes_of ''HDEL'') key flds c"

definition hashExists :: "'w hiredis \<Rightarrow> bytes \<Rightarrow> bytes \<Rightarrow> int \<Rightarrow> 'w redis_cli \<Rightarrow> (int \<times> int \<times> 'w redis_cli) outcome" where
  "hashExists h key field out c = exeCmdWithOutput h res_int out ''HEXISTS %b %b'' [Ab key, Ab field] c"

definition hashGet :: "'w hiredis \<Rightarrow> bytes \<Rightarrow> bytes \<Rightarrow> bytes \<Rightarrow> 'w redis_cli \<Rightarrow> (int \<times> bytes \<times> 'w redis_cli) outcome" where
  "hashGet h key field out c = exeCmdWithOutput h res_string out ''HGET %b %b'' [Ab key, Ab field] c"

definition hashGetAll :: "'w hiredis \<Rightarrow> bytes \<Rightarrow> (bytes, bytes) std_map \<Rightarrow> 'w redis_cli \<Rightarrow> (int \<times> (bytes, bytes) std_map \<times> 'w redis_cli) outcome" where
  "hashGetAll h key out c = exeCmdWithOutput h res_map out ''HGETALL %b'' [Ab key] c"

definition hashMSet :: "'w hiredis \<Rightarrow> bytes \<Rightarrow> (bytes, bytes) std_map \<Rightarrow> 'w redis_cli \<Rightarrow> (int \<times> 'w redis_cli) outcome" where
  "hashMSet h key mfv c = exeCmdWithNoOutputM h argSize_m fillData_m (bytes_of ''HMSET'') key mfv c"

definition hashSet :: "'w hiredis \<Rightarrow> bytes \<Rightarrow> bytes \<Rightarrow> bytes \<Rightarrow> 'w redis_cli \<Rightarrow> (int \<times> 'w redis_cli) outcome" where
  "hashSet h key field val c = exeCmdWithNoOutput h ''HSET %b %b %b'' [Ab key, Ab field, Ab val] c"

subsection \<open>Sets\<close>

definition setAdd :: "'w hiredis \<Rightarrow> bytes \<Rightarrow> bytes list \<Rightarrow> 'w redis_cli \<Rightarrow> (int \<times> 'w redis_cli) outcome" where
  "setAdd h key members c = exeCmdWithNoOutputM h argSize_v fillData_v (bytes_of ''SADD'') key members c"

definition setIsMember :: "'w hiredis \<Rightarrow> bytes \<Rightarrow> bytes \<Rightarrow> int \<Rightarrow> 'w redis_cli \<Rightarrow> (int \<times> int \<times> 'w redis_cli) outcome" where
  "setIsMember h key member out c = exeCmdWithOutput h res_int out ''SISMEMBER %b %b'' [Ab key, Ab member] c"

definition setMembers :: "'w hiredis \<Rightarrow> bytes \<Rightarrow> bytes list \<Rightarrow> 'w redis_cli \<Rightarrow> (int \<times> bytes list \<times> 'w redis_cli) outcome" where
  "setMembers h key out c = exeCmdWithOutput h res_vector out ''SMEMBERS %b'' [Ab key] c"

definition setRem :: "'w hiredis \<Rightarrow> bytes \<Rightarrow> bytes list \<Rightarrow> 'w redis_cli \<Rightarrow> (int \<times> 'w redis_cli) outcome" where
  "setRem h key members c = exeCmdWithNoOutputM h argSize_v fillData_v (bytes_of ''SREM'') key members c"

subsection \<open>Sorted sets\<close>

text \<open>
  \<^verbatim>\<open>DBL_MIN\<close> and \<^verbatim>\<open>DBL_MAX\<close> of \<^verbatim>\<open>float.h\<close>: the least positive normal double and the greatest one.
\<close>

definition DBL_MIN :: real where "DBL_MIN = 1 / 2 ^ 1022"
definition DBL_MAX :: real where "DBL_MAX = (2 - 1 / 2 ^ 52) * 2 ^ 1023"

definition ssetAdd :: "'w hiredis \<Rightarrow> bytes \<Rightarrow> (bytes, bytes) std_map \<Rightarrow> 'w redis_cli \<Rightarrow> (int \<times> 'w redis_cli) outcome" where
  "ssetAdd h key members c = exeCmdWithNoOutputM h argSize_m fillData_m (bytes_of ''ZADD'') key members c"

definition ssetCard :: "'w hiredis \<Rightarrow> bytes \<Rightarrow> int \<Rightarrow> 'w redis_cli \<Rightarrow> (int \<times> int \<times> 'w redis_cli) outcome" where
  "ssetCard h key out c = exeCmdWithOutput h res_int64 out ''ZCARD %b'' [Ab key] c"

definition ssetCount :: "'w hiredis \<Rightarrow> bytes \<Rightarrow> real \<Rightarrow> real \<Rightarrow> int \<Rightarrow> 'w redis_cli \<Rightarrow>
    (int \<times> int \<times> 'w redis_cli) outcome" where
  "ssetCount h key minScore maxScore out c =
     (if minScore = DBL_MIN then
        (if maxScore = DBL_MAX then exeCmdWithOutput h res_int64 out ''ZCOUNT %b -inf +inf'' [Ab key] c
         else exeCmdWithOutput h res_int64 out ''ZCOUNT %b -inf %f'' [Ab key, Af maxScore] c)
      else
        (if maxScore = DBL_MAX then exeCmdWithOutput h res_int64 out ''ZCOUNT %b %f +inf'' [Ab key, Af minScore] c
         else exeCmdWithOutput h res_int64 out ''ZCOUNT %b %f %f'' [Ab key, Af minScore, Af maxScore] c))"

definition ssetRange :: "'w hiredis \<Rightarrow> bytes \<Rightarrow> int \<Rightarrow> int \<Rightarrow> bytes list \<Rightarrow> 'w redis_cli \<Rightarrow> (int \<times> bytes list \<times> 'w redis_cli) outcome" where
  "ssetRange h key start stop out c = exeCmdWithOutput h res_vector out ''ZRANGE %b %d %d'' [Ab key, Ad start, Ad stop] c"

definition ssetRangeByScoreLimit :: "'w hiredis \<Rightarrow> bytes \<Rightarrow> real \<Rightarrow> real \<Rightarrow> int \<Rightarrow> int \<Rightarrow> bytes list \<Rightarrow> 'w redis_cli \<Rightarrow>
    (int \<times> bytes list \<times> 'w redis_cli) outcome" where
  "ssetRangeByScoreLimit h key minScore maxScore offset len out c =
     (if minScore = DBL_MIN then
        (if maxScore = DBL_MAX then exeCmdWithOutput h res_vector out ''ZRANGEBYSCORE %b -inf +inf LIMIT %d %d'' [Ab key, Ad offset, Ad len] c
         else exeCmdWithOutput h res_vector out ''ZRANGEBYSCORE %b -inf %f LIMIT %d %d'' [Ab key, Af maxScore, Ad offset, Ad len] c)
      else
        (if maxScore = DBL_MAX then exeCmdWithOutput h res_vector out ''ZRANGEBYSCORE %b %f +inf LIMIT %d %d'' [Ab key, Af minScore, Ad offset, Ad len] c
         else exeCmdWithOutput h res_vector out ''ZRANGEBYSCORE %b %f %f LIMIT %d %d'' [Ab key, Af minScore, Af maxScore, Ad offset, Ad len] c))"

definition ssetRangeWithScore :: "'w hiredis \<Rightarrow> bytes \<Rightarrow> int \<Rightarrow> int \<Rightarrow> (bytes \<times> bytes) list \<Rightarrow> 'w redis_cli \<Rightarrow> (int \<times> (bytes \<times> bytes) list \<times> 'w redis_cli) outcome" where
  "ssetRangeWithScore h key start stop out c = exeCmdWithOutput h res_pairs out ''ZRANGE %b %d %d WITHSCORES'' [Ab key, Ad start, Ad stop] c"

definition ssetRangeByScoreWithScore :: "'w hiredis \<Rightarrow> bytes \<Rightarrow> real \<Rightarrow> real \<Rightarrow> (bytes \<times> bytes) list \<Rightarrow> 'w redis_cli \<Rightarrow>
    (int \<times> (bytes \<times> bytes) list \<times> 'w redis_cli) outcome" where
  "ssetRangeByScoreWithScore h key minScore maxScore out c =
     (if minScore = DBL_MIN then
        (if maxScore = DBL_MAX then exeCmdWithOutput h res_pairs out ''ZRANGEBYSCORE %b -inf +inf WITHSCORES'' [Ab key] c
         else exeCmdWithOutput h res_pairs out ''ZRANGEBYSCORE %b -inf %f WITHSCORES'' [Ab key, Af maxScore] c)
      else
        (if maxScore = DBL_MAX then exeCmdWithOutput h res_pairs out ''ZRANGEBYSCORE %b %f +inf WITHSCORES'' [Ab key, Af minScore] c
         else exeCmdWithOutput h res_pairs out ''ZRANGEBYSCORE %b %f %f WITHSCORES'' [Ab key, Af minScore, Af maxScore] c))"

definition ssetRangeByScoreWithScoreLimit :: "'w hiredis \<Rightarrow> bytes \<Rightarrow> real \<Rightarrow> real \<Rightarrow> int \<Rightarrow> int \<Rightarrow> (bytes \<times> bytes) list \<Rightarrow> 'w redis_cli \<Rightarrow>
    (int \<times> (bytes \<times> bytes) list \<times> 'w redis_cli) outcome" where
  "ssetRangeByScoreWithScoreLimit h key minScore maxScore offset len out c =
     (if minScore = DBL_MIN then
        (if maxScore = DBL_MAX then exeCmdWithOutput h res_pairs out ''ZRANGEBYSCORE %b -inf +inf WITHSCORES LIMIT %d %d'' [Ab key, Ad offset, Ad len] c
         else exeCmdWithOutput h res_pairs out ''ZRANGEBYSCORE %b -inf %f WITHSCORES LIMIT %d %d'' [Ab key, Af maxScore, Ad offset, Ad len] c)
      else
        (if maxScore = DBL_MAX then exeCmdWithOutput h res_pairs out ''ZRANGEBYSCORE %b %f +inf WITHSCORES LIMIT %d %d'' [Ab key, Af minScore, Ad offset, Ad len] c
         else exeCmdWithOutput h res_pairs out ''ZRANGEBYSCORE %b %f %f WITHSCORES LIMIT %d %d'' [Ab key, Af minScore, Af maxScore, Ad offset, Ad len] c))"

definition ssetRemRange :: "'w hiredis \<Rightarrow> bytes \<Rightarrow> int \<Rightarrow> int \<Rightarrow> 'w redis_cli \<Rightarrow> (int \<times> 'w redis_cli) outcome" where
  "ssetRemRange h key start stop c = exeCmdWithNoOutput h ''ZREMRANGEBYRANK %b %d %d'' [Ab key, Ad start, Ad stop] c"

definition ssetRemRangeByScore :: "'w hiredis \<Rightarrow> bytes \<Rightarrow> real \<Rightarrow> real \<Rightarrow> 'w redis_cli \<Rightarrow> (int \<times> 'w redis_cli) outcome" where
  "ssetRemRangeByScore h key minScore maxScore c =
     (if minScore = DBL_MIN then
        (if maxScore = DBL_MAX then exeCmdWithNoOutput h ''ZREMRANGEBYSCORE %b -inf +inf'' [Ab key] c
         else exeCmdWithNoOutput h ''ZREMRANGEBYSCORE %b -inf %f'' [Ab key, Af maxScore] c)
      else
        (if maxScore = DBL_MAX then exeCmdWithNoOutput h ''ZREMRANGEBYSCORE %b %f +inf'' [Ab key, Af minScore] c
         else exeCmdWithNoOutput h ''ZREMRANGEBYSCORE %b %f %f'' [Ab key, Af minScore, Af maxScore] c))"

definition ssetRevRange :: "'w hiredis \<Rightarrow> bytes \<Rightarrow> int \<Rightarrow> int \<Rightarrow> bytes list \<Rightarrow> 'w redis_cli \<Rightarrow> (int \<times> bytes list \<times> 'w redis_cli) outcome" where
  "ssetRevRange h key start stop out c = exeCmdWithOutput h res_vector out ''ZREVRANGE %b %d %d'' [Ab key, Ad start, Ad stop] c"

definition ssetRevRangeByScoreLimit :: "'w hiredis \<Rightarrow> bytes \<Rightarrow> real \<Rightarrow> real \<Rightarrow> int \<Rightarrow> int \<Rightarrow> bytes list \<Rightarrow> 'w redis_cli \<Rightarrow>
    (int \<times> bytes list \<times> 'w redis_cli) outcome" where
  "ssetRevRangeByScoreLimit h key maxScore minScore offset len out c =
     (if minScore = DBL_MIN then
        (if maxScore = DBL_MAX then exeCmdWithOutput h res_vector out ''ZREVRANGEBYSCORE %b +inf -inf LIMIT %d %d'' [Ab key, Ad offset, Ad len] c
         else exeCmdWithOutput h res_vector out ''ZREVRANGEBYSCORE %b %f -inf LIMIT %d %d'' [Ab key, Af maxScore, Ad offset, Ad len] c)
      else
        (if maxScore = DBL_MAX then exeCmdWithOutput h res_vector out ''ZREVRANGEBYSCORE %b +inf %f LIMIT %d %d'' [Ab key, Af minScore, Ad offset, Ad len] c
         else exeCmdWithOutput h res_vector out ''ZREVRANGEBYSCORE %b %f %f LIMIT %d %d'' [Ab key, Af maxScore, Af minScore, Ad offset, Ad len] c))"

definition ssetRevRangeByScoreWithScore :: "'w hiredis \<Rightarrow> bytes \<Rightarrow> real \<Rightarrow> real \<Rightarrow> (bytes \<times> bytes) list \<Rightarrow> 'w redis_cli \<Rightarrow>
    (int \<times> (bytes \<times> bytes) list \<times> 'w redis_cli) outcome" where
  "ssetRevRangeByScoreWithScore h key maxScore minScore out c =
     (if minScore = DBL_MIN then
        (if maxScore = DBL_MAX then exeCmdWithOutput h res_pairs out ''ZREVRANGEBYSCORE %b +inf -inf WITHSCORES'' [Ab key] c
         else exeCmdWithOutput h res_pairs out ''ZREVRANGEBYSCORE %b %f -inf WITHSCORES'' [Ab key, Af maxScore] c)
      else
        (if maxScore = DBL_MAX then exeCmdWithOutput h res_pairs out ''ZREVRANGEBYSCORE %b +inf %f WITHSCORES'' [Ab key, Af minScore] c
         else exeCmdWithOutput h res_pairs out ''ZREVRANGEBYSCORE %b %f %f WITHSCORES'' [Ab key, Af maxScore, Af minScore] c))"

definition ssetRevRangeByScoreWithScoreLimit :: "'w hiredis \<Rightarrow> bytes \<Rightarrow> real \<Rightarrow> real \<Rightarrow> int \<Rightarrow> int \<Rightarrow> (bytes \<times> bytes) list \<Rightarrow> 'w redis_cli \<Rightarrow>
    (int \<times> (bytes \<times> bytes) list \<times> 'w redis_cli) outcome" where
  "ssetRevRangeByScoreWithScoreLimit h key maxScore minScore offset len out c =
     (if minScore = DBL_MIN then
        (if maxScore = DBL_MAX then exeCmdWithOutput h res_pairs out ''ZREVRANGEBYSCORE %b +inf -inf WITHSCORES LIMIT %d %d'' [Ab key, Ad offset, Ad len] c
         else exeCmdWithOutput h res_pairs out ''ZREVRANGEBYSCORE %b %f -inf WITHSCORES LIMIT %d %d'' [Ab key, Af maxScore, Ad offset, Ad len] c)
      else
        (if maxScore = DBL_MAX then exeCmdWithOutput h res_pairs out ''ZREVRANGEBYSCORE %b +inf %f WITHSCORES LIMIT %d %d'' [Ab key, Af minScore, Ad offset, Ad len] c
         else exeCmdWithOutput h res_pairs out ''ZREVRANGEBYSCORE %b %f %f WITHSCORES LIMIT %d %d'' [Ab key, Af maxScore, Af minScore, Ad offset, Ad len] c))"

subsection \<open>Connection, server and transactions\<close>

definition connPing :: "'w hiredis \<Rightarrow> 'w redis_cli \<Rightarrow> (int \<times> 'w redis_cli) outcome" where
  "connPing h c = exeCmdWithNoOutput h ''PING'' [] c"

definition connQuit :: "'w hiredis \<Rightarrow> 'w redis_cli \<Rightarrow> (int \<times> 'w redis_cli) outcome" where
  "connQuit h c = exeCmdWithNoOutput h ''QUIT'' [] c"

definition servBGSave :: "'w hiredis \<Rightarrow> 'w redis_cli \<Rightarrow> (int \<times> 'w redis_cli) outcome" where
  "servBGSave h c = exeCmdWithNoOutput h ''BGSAVE'' [] c"

definition servCfgGet :: "'w hiredis \<Rightarrow> bytes \<Rightarrow> bytes list \<Rightarrow> 'w redis_cli \<Rightarrow> (int \<times> bytes list \<times> 'w redis_cli) outcome" where
  "servCfgGet h parameter out c = exeCmdWithOutput h res_vector out ''CONFIG GET %s'' [As parameter] c"

definition servCfgSet :: "'w hiredis \<Rightarrow> bytes \<Rightarrow> bytes \<Rightarrow> 'w redis_cli \<Rightarrow> (int \<times> 'w redis_cli) outcome" where
  "servCfgSet h parameter val c = exeCmdWithNoOutput h ''CONFIG SET %s %b'' [As parameter, Ab val] c"

definition servDBSize :: "'w hiredis \<Rightarrow> 'w redis_cli \<Rightarrow> (int \<times> 'w redis_cli) outcome" where
  "servDBSize h c = exeCmdWithNoOutput h ''DBSIZE'' [] c"

definition servSlaveOf :: "'w hiredis \<Rightarrow> bytes \<Rightarrow> int \<Rightarrow> 'w redis_cli \<Rightarrow> (int \<times> 'w redis_cli) outcome" where
  "servSlaveOf h masterip masterport c = exeCmdWithNoOutput h ''SLAVEOF %s %d'' [As masterip, Ad masterport] c"

definition servSlaveOfNoOne :: "'w hiredis \<Rightarrow> 'w redis_cli \<Rightarrow> (int \<times> 'w redis_cli) outcome" where
  "servSlaveOfNoOne h c = exeCmdWithNoOutput h ''SLAVEOF NO ONE'' [] c"

definition transDiscard :: "'w hiredis \<Rightarrow> 'w redis_cli \<Rightarrow> (int \<times> 'w redis_cli) outcome" where
  "transDiscard h c = exeCmdWithNoOutput h ''DISCARD'' [] c"

definition transExec :: "'w hiredis \<Rightarrow> 'w redis_cli \<Rightarrow> (int \<times> 'w redis_cli) outcome" where
  "transExec h c = exeCmdWithNoOutput h ''EXEC'' [] c"

definition transMulti :: "'w hiredis \<Rightarrow> 'w redis_cli \<Rightarrow> (int \<times> 'w redis_cli) outcome" where
  "transMulti h c = exeCmdWithNoOutput h ''MULTI'' [] c"

definition transWatch :: "'w hiredis \<Rightarrow> bytes \<Rightarrow> 'w redis_cli \<Rightarrow> (int \<times> 'w redis_cli) outcome" where
  "transWatch h key c = exeCmdWithNoOutput h ''WATCH %b'' [Ab key] c"

definition transUnwatch :: "'w hiredis \<Rightarrow> 'w redis_cli \<Rightarrow> (int \<times> 'w redis_cli) outcome" where
  "transUnwatch h c = exeCmdWithNoOutput h ''UNWATCH'' [] c"

subsection \<open>Argument vectors\<close>

lemma argv_write_next:
  "argv_write (length pre) x (map Some pre @ None # rest) = Done (map Some (pre @ [x]) @ rest)"
  by (simp add: argv_write_def list_update_append)

lemma fill_loop_v:
  "fill_loop fillData_v xs (length pre) (map Some pre @ replicate (length xs) None) = Done (map Some (pre @ xs))"
proof (induction xs arbitrary: pre)
  case (Cons x xs)
  then show ?case
    using Cons.IH [of "pre @ [x]"] by (simp add: fillData_v_def argv_write_next)
qed simp

lemma fill_loop_m:
  "fill_loop fillData_m xs (length pre) (map Some pre @ replicate (2 * length xs) None) =
    Done (map Some (pre @ concat (map (\<lambda>(k, v). [k, v]) xs)))"
proof (induction xs arbitrary: pre)
  case (Cons x xs)
  have "argv_write (Suc (length pre)) (snd x) (map Some (pre @ [fst x]) @ None # rest) =
      Done (map Some (pre @ [fst x, snd x]) @ rest)" for rest
    using argv_write_next [of "pre @ [fst x]" "snd x" rest] by simp
  then show ?case
    using Cons.IH [of "pre @ [fst x, snd x]"] argv_write_next [of pre "fst x"]
    by (simp add: fillData_m_def case_prod_beta)
qed simp

definition argv_head :: "bytes \<Rightarrow> bytes \<Rightarrow> bytes list" where
  "argv_head cmdName key = (if key = [] then [cmdName] else [cmdName, key])"

lemma build_argv_head:
  "build_argv argSize fill cmdName key input =
    fill_loop fill input (length (argv_head cmdName key))
      (map Some (argv_head cmdName key) @ replicate (argSize input) None)"
  by (simp add: build_argv_def argv_head_def argv_write_def numeral_2_eq_2)

lemma argv_v: "build_argv argSize_v fillData_v cmdName key xs = Done (map Some (argv_head cmdName key @ xs))"
  by (simp add: build_argv_head fill_loop_v argSize_v_def)

lemma argv_m: "build_argv argSize_m fillData_m cmdName key m =
    Done (map Some (argv_head cmdName key @ concat (map (\<lambda>(k, v). [k, v]) m)))"
  using fill_loop_m [of m "argv_head cmdName key"]
  by (simp add: build_argv_head argSize_m_def push_bit_eq_mult mult.commute)

subsection \<open>Replies\<close>

lemma res_map_pairs:
  "res_map_loop (concat (map (\<lambda>(k, v). [k, v]) kvs)) m =
    Done (0, foldl (\<lambda>m (k, v). map_put (reply_text k) (reply_text v) m) m kvs)"
  by (induction kvs arbitrary: m) auto

lemma res_map_odd: "odd (length es) \<Longrightarrow> res_map_loop es m = Fault"
  by (induction es m rule: res_map_loop.induct) auto

lemma res_pairs_pairs:
  "res_pairs_loop (concat (map (\<lambda>(s, f). [s, f]) kvs)) r =
    Done (0, r @ map (\<lambda>(s, f). (reply_text f, reply_text s)) kvs)"
  by (induction kvs arbitrary: r) auto

lemma res_pairs_odd: "odd (length es) \<Longrightarrow> res_pairs_loop es r = Fault"
  by (induction es r rule: res_pairs_loop.induct) auto

lemma map_of_puts:
  "map_of (foldl (\<lambda>m (k, v). map_put (reply_text k) (reply_text v) m) m kvs) =
    foldl (\<lambda>f (k, v). f(reply_text k \<mapsto> reply_text v)) (map_of m) kvs"
  by (induction kvs arbitrary: m) (auto simp: case_prod_beta)

lemma map_ok_puts:
  "map_ok m \<Longrightarrow> map_ok (foldl (\<lambda>m (k, v). map_put (reply_text k) (reply_text v) m) m kvs)"
  by (induction kvs arbitrary: m) (auto simp: map_ok_put)

subsection \<open>Properties\<close>

text \<open>
  C15: the vector of a command is filled exactly. Its size is computed from the input before; every write
  is inside of it and every entry is written: the command, the key if there is one, and the input, each
  pair of a map as two entries.
\<close>

theorem argv_exact:
  "exeCmdWithNoOutputM h argSize_v fillData_v cmdName key xs c =
     bind_outcome (exeCmd_argv h (argv_head cmdName key @ xs) c)
       (\<lambda>(ret, rpl, c). Done (if ret < 0 then -1 else 0, c)) \<and>
   exeCmdWithNoOutputM h argSize_m fillData_m cmdName key m c =
     bind_outcome (exeCmd_argv h (argv_head cmdName key @ concat (map (\<lambda>(k, v). [k, v]) m)) c)
       (\<lambda>(ret, rpl, c). Done (if ret < 0 then -1 else 0, c))"
  by (simp add: exeCmdWithNoOutputM_def argv_v argv_m image_iff comp_def del: map_append)

text \<open>
  \<open>hashGetAll\<close> gives the fields of the hash, the later ones over the earlier and over what the caller's map
  held, in order of the keys. An array of odd length is read behind its end, as it is in a result
  with scores.
\<close>

theorem hash_reply:
  assumes "exeCmd h (Fmt ''HGETALL %b'' [Ab key]) c =
      Done (0, Some (redisReply REDIS_REPLY_ARRAY s i es), c')" "map_ok m"
  shows "(\<forall>kvs. es = concat (map (\<lambda>(k, v). [k, v]) kvs) \<longrightarrow>
      (\<exists>m'. hashGetAll h key m c = Done (0, m', c') \<and> map_ok m' \<and>
         map_of m' = foldl (\<lambda>f (k, v). f(reply_text k \<mapsto> reply_text v)) (map_of m) kvs)) \<and>
    (odd (length es) \<longrightarrow> hashGetAll h key m c = Fault)"
  using assms map_ok_puts [OF assms(2)]
  by (auto simp: hashGetAll_def exeCmdWithOutput_def getResultFromReply_def res_map_def res_map_pairs
      map_of_puts res_map_odd)

text \<open>A server that gives the same reply to every command.\<close>

definition replying :: "redis_reply \<Rightarrow> unit hiredis" where
  "replying r =
     \<lparr>redisConnectWithTimeout = \<lambda>addr port w. (Some False, w), redisvCommand = \<lambda>cmd w. (Some r, False, w),
      redisCommandArgv = \<lambda>argv w. (Some r, False, w), redisFree = \<lambda>c w. w\<rparr>"

definition text_reply :: "string \<Rightarrow> redis_reply" where
  "text_reply s = redisReply REDIS_REPLY_STRING (Some (bytes_of s)) 0 []"

lemma exeCmd_replying:
  "r_type r \<noteq> REDIS_REPLY_ERROR \<Longrightarrow>
   exeCmd (replying r) cmd ((RedisCli_init ())\<lparr>m_c := Some False\<rparr>) =
     Done (0, Some r, (RedisCli_init ())\<lparr>m_c := Some False\<rparr>)"
  by (simp add: exeCmd_def replying_def RedisCli_init_def numeral_3_eq_3 doExeCmdNoReconnect_with_def)

theorem hash_reply_witness:
  "hashGetAll (replying (redisReply REDIS_REPLY_ARRAY None 0 [text_reply ''f'', text_reply ''v'', text_reply ''g'']))
     [65] [] ((RedisCli_init ())\<lparr>m_c := Some False\<rparr>) = Fault"
  using hash_reply [of "replying (redisReply REDIS_REPLY_ARRAY None 0 [text_reply ''f'', text_reply ''v'', text_reply ''g''])"
      "[65]" "(RedisCli_init ())\<lparr>m_c := Some False\<rparr>" None 0
      "[text_reply ''f'', text_reply ''v'', text_reply ''g'']" "(RedisCli_init ())\<lparr>m_c := Some False\<rparr>" "[]"]
  by (simp add: map_ok_def exeCmd_replying)

text \<open>
  The commands over scores ask for the interval that their bounds name, largest score first for the
  reverse ones, except that \<^verbatim>\<open>DBL_MIN\<close>, a positive number, stands for minus infinity.
\<close>

definition lo_fmt :: "real \<Rightarrow> string" where "lo_fmt x = (if x = DBL_MIN then ''-inf'' else ''%f'')"
definition hi_fmt :: "real \<Rightarrow> string" where "hi_fmt x = (if x = DBL_MAX then ''+inf'' else ''%f'')"
definition lo_arg :: "real \<Rightarrow> fmt_arg list" where "lo_arg x = (if x = DBL_MIN then [] else [Af x])"
definition hi_arg :: "real \<Rightarrow> fmt_arg list" where "hi_arg x = (if x = DBL_MAX then [] else [Af x])"

lemmas score_defs = lo_fmt_def hi_fmt_def lo_arg_def hi_arg_def

theorem score_ranges:
  "0 < DBL_MIN \<and>
   ssetCount h key lo hi out1 c =
     exeCmdWithOutput h res_int64 out1 (''ZCOUNT %b '' @ lo_fmt lo @ '' '' @ hi_fmt hi) ([Ab key] @ lo_arg lo @ hi_arg hi) c \<and>
   ssetRangeByScoreLimit h key lo hi offset len out2 c =
     exeCmdWithOutput h res_vector out2 (''ZRANGEBYSCORE %b '' @ lo_fmt lo @ '' '' @ hi_fmt hi @ '' LIMIT %d %d'')
       ([Ab key] @ lo_arg lo @ hi_arg hi @ [Ad offset, Ad len]) c \<and>
   ssetRevRangeByScoreLimit h key hi lo offset len out2 c =
     exeCmdWithOutput h res_vector out2 (''ZREVRANGEBYSCORE %b '' @ hi_fmt hi @ '' '' @ lo_fmt lo @ '' LIMIT %d %d'')
       ([Ab key] @ hi_arg hi @ lo_arg lo @ [Ad offset, Ad len]) c \<and>
   ssetRangeByScoreWithScore h key lo hi out3 c =
     exeCmdWithOutput h res_pairs out3 (''ZRANGEBYSCORE %b '' @ lo_fmt lo @ '' '' @ hi_fmt hi @ '' WITHSCORES'')
       ([Ab key] @ lo_arg lo @ hi_arg hi) c \<and>
   ssetRevRangeByScoreWithScore h key hi lo out3 c =
     exeCmdWithOutput h res_pairs out3 (''ZREVRANGEBYSCORE %b '' @ hi_fmt hi @ '' '' @ lo_fmt lo @ '' WITHSCORES'')
       ([Ab key] @ hi_arg hi @ lo_arg lo) c \<and>
   ssetRemRangeByScore h key lo hi c =
     exeCmdWithNoOutput h (''ZREMRANGEBYSCORE %b '' @ lo_fmt lo @ '' '' @ hi_fmt hi) ([Ab key] @ lo_arg lo @ hi_arg hi) c"
  by (simp add: score_defs ssetCount_def ssetRangeByScoreLimit_def ssetRevRangeByScoreLimit_def
      ssetRangeByScoreWithScore_def ssetRevRangeByScoreWithScore_def ssetRemRangeByScore_def DBL_MIN_def)

end
