(* ===== verification/MessageDigest.thy ===== *)
theory MessageDigest
  imports Hex Wire
begin

unbundle bit_operations_syntax

text \<open>
  The MD5 message digest of \<^verbatim>\<open>efnfw/base/ef_md5.cpp\<close>, which picks the Redis node of a key: the context with
  its buffer of 64 bytes, \<open>MD5Update\<close> and \<open>MD5Final\<close>. They are shown to compute the digest of the padded
  message, however the message was cut. The host is little-endian, as everywhere in the development.
\<close>

subsection \<open>The transformation of a block\<close>

definition F1 :: "u32 \<Rightarrow> u32 \<Rightarrow> u32 \<Rightarrow> u32" where "F1 x y z = z XOR (x AND (y XOR z))"
definition F2 :: "u32 \<Rightarrow> u32 \<Rightarrow> u32 \<Rightarrow> u32" where "F2 x y z = F1 z x y"
definition F3 :: "u32 \<Rightarrow> u32 \<Rightarrow> u32 \<Rightarrow> u32" where "F3 x y z = x XOR y XOR z"
definition F4 :: "u32 \<Rightarrow> u32 \<Rightarrow> u32 \<Rightarrow> u32" where "F4 x y z = y XOR (x OR NOT z)"

definition MD5STEP :: "(u32 \<Rightarrow> u32 \<Rightarrow> u32 \<Rightarrow> u32) \<Rightarrow> u32 \<Rightarrow> u32 \<Rightarrow> u32 \<Rightarrow> u32 \<Rightarrow> u32 \<Rightarrow> nat \<Rightarrow> u32" where
  "MD5STEP f w x y z data s =
     (let w = w + (f x y z + data); w = push_bit s w OR drop_bit (32 - s) w in w + x)"

text \<open>
  The 64 steps: function, word of the block, constant, shift. Each step changes the register \<open>w\<close> of
  (\<open>w\<close>, \<open>x\<close>, \<open>y\<close>, \<open>z\<close>), and the next one works on (\<open>z\<close>, \<open>w\<close>, \<open>x\<close>, \<open>y\<close>); after every fourth step they are in
  their places again.
\<close>

definition md5_steps :: "((u32 \<Rightarrow> u32 \<Rightarrow> u32 \<Rightarrow> u32) \<times> nat \<times> u32 \<times> nat) list" where
  "md5_steps =
    [
     (F1, 0, 0xd76aa478, 7), (F1, 1, 0xe8c7b756, 12), (F1, 2, 0x242070db, 17), (F1, 3, 0xc1bdceee, 22),
     (F1, 4, 0xf57c0faf, 7), (F1, 5, 0x4787c62a, 12), (F1, 6, 0xa8304613, 17), (F1, 7, 0xfd469501, 22),
     (F1, 8, 0x698098d8, 7), (F1, 9, 0x8b44f7af, 12), (F1, 10, 0xffff5bb1, 17), (F1, 11, 0x895cd7be, 22),
     (F1, 12, 0x6b901122, 7), (F1, 13, 0xfd987193, 12), (F1, 14, 0xa679438e, 17), (F1, 15, 0x49b40821, 22),
     (F2, 1, 0xf61e2562, 5), (F2, 6, 0xc040b340, 9), (F2, 11, 0x265e5a51, 14), (F2, 0, 0xe9b6c7aa, 20),
     (F2, 5, 0xd62f105d, 5), (F2, 10, 0x02441453, 9), (F2, 15, 0xd8a1e681, 14), (F2, 4, 0xe7d3fbc8, 20),
     (F2, 9, 0x21e1cde6, 5), (F2, 14, 0xc33707d6, 9), (F2, 3, 0xf4d50d87, 14), (F2, 8, 0x455a14ed, 20),
     (F2, 13, 0xa9e3e905, 5), (F2, 2, 0xfcefa3f8, 9), (F2, 7, 0x676f02d9, 14), (F2, 12, 0x8d2a4c8a, 20),
     (F3, 5, 0xfffa3942, 4), (F3, 8, 0x8771f681, 11), (F3, 11, 0x6d9d6122, 16), (F3, 14, 0xfde5380c, 23),
     (F3, 1, 0xa4beea44, 4), (F3, 4, 0x4bdecfa9, 11), (F3, 7, 0xf6bb4b60, 16), (F3, 10, 0xbebfbc70, 23),
     (F3, 13, 0x289b7ec6, 4), (F3, 0, 0xeaa127fa, 11), (F3, 3, 0xd4ef3085, 16), (F3, 6, 0x04881d05, 23),
     (F3, 9, 0xd9d4d039, 4), (F3, 12, 0xe6db99e5, 11), (F3, 15, 0x1fa27cf8, 16), (F3, 2, 0xc4ac5665, 23),
     (F4, 0, 0xf4292244, 6), (F4, 7, 0x432aff97, 10), (F4, 14, 0xab9423a7, 15), (F4, 5, 0xfc93a039, 21),
     (F4, 12, 0x655b59c3, 6), (F4, 3, 0x8f0ccc92, 10), (F4, 10, 0xffeff47d, 15), (F4, 1, 0x85845dd1, 21),
     (F4, 8, 0x6fa87e4f, 6), (F4, 15, 0xfe2ce6e0, 10), (F4, 6, 0xa3014314, 15), (F4, 13, 0x4e0811a1, 21),
     (F4, 4, 0xf7537e82, 6), (F4, 11, 0xbd3af235, 10), (F4, 2, 0x2ad7d2bb, 15), (F4, 9, 0xeb86d391, 21)
    ]"

fun md5_step :: "u32 list \<Rightarrow> (u32 \<Rightarrow> u32 \<Rightarrow> u32 \<Rightarrow> u32) \<times> nat \<times> u32 \<times> nat \<Rightarrow>
    u32 \<times> u32 \<times> u32 \<times> u32 \<Rightarrow> u32 \<times> u32 \<times> u32 \<times> u32" where
  "md5_step inw (f, k, con, s) (w, x, y, z) = (z, MD5STEP f w x y z (inw ! k + con) s, x, y)"

type_synonym md5_state = "u32 \<times> u32 \<times> u32 \<times> u32"

definition MD5Transform :: "md5_state \<Rightarrow> u32 list \<Rightarrow> md5_state" where
  "MD5Transform buf inw =
     (case buf of (b0, b1, b2, b3) \<Rightarrow>
       (let (a, b, c, d) = fold (md5_step inw) md5_steps (b0, b1, b2, b3)
        in (b0 + a, b1 + b, b2 + c, b3 + d)))"

subsection \<open>The context and its operations\<close>

record md5_ctx =
  buf :: md5_state
  bits0 :: u32
  bits1 :: u32
  inb :: bytes

text \<open>The words of the first \<open>n\<close> longs, put back as the host stores them.\<close>

fun byteReverse :: "bytes \<Rightarrow> nat \<Rightarrow> bytes" where
  "byteReverse (b0 # b1 # b2 # b3 # bs) (Suc longs) =
     (let t = push_bit 16 (push_bit 8 (ucast b3) OR ucast b2) OR (push_bit 8 (ucast b1) OR ucast b0)
      in store_le t @ byteReverse bs longs)"
| "byteReverse bs longs = bs"

definition longs_of :: "bytes \<Rightarrow> u32 list" where
  \<comment> \<open>the sixteen words of \<open>in\<close>, read through a pointer to words\<close>
  "longs_of bs = map (\<lambda>i. load_le (drop (4 * i) bs)) [0..<16]"

definition memcpy_at :: "nat \<Rightarrow> bytes \<Rightarrow> bytes \<Rightarrow> bytes" where
  \<comment> \<open>\<^verbatim>\<open>memcpy(dst + i, src, length of src)\<close>\<close>
  "memcpy_at i src dst = take i dst @ src @ drop (i + length src) dst"

definition MD5Init :: "bytes \<Rightarrow> md5_ctx" where
  \<comment> \<open>\<open>in\<close> keeps what the memory held\<close>
  "MD5Init old = \<lparr>buf = (0x67452301, 0xefcdab89, 0x98badcfe, 0x10325476), bits0 = 0, bits1 = 0, inb = old\<rparr>"

definition md5_block :: "md5_ctx \<Rightarrow> md5_ctx" where
  "md5_block ctx =
     (let ctx = ctx\<lparr>inb := byteReverse (inb ctx) 16\<rparr> in ctx\<lparr>buf := MD5Transform (buf ctx) (longs_of (inb ctx))\<rparr>)"

function md5_update_loop :: "md5_ctx \<Rightarrow> bytes \<Rightarrow> md5_ctx" where
  "md5_update_loop ctx data =
     (if length data \<ge> 64
      then md5_update_loop (md5_block (ctx\<lparr>inb := memcpy_at 0 (take 64 data) (inb ctx)\<rparr>)) (drop 64 data)
      else ctx\<lparr>inb := memcpy_at 0 data (inb ctx)\<rparr>)"
  by pat_completeness auto
termination by (relation "measure (\<lambda>(ctx, data). length data)") auto

definition MD5Update :: "md5_ctx \<Rightarrow> bytes \<Rightarrow> md5_ctx" where
  "MD5Update ctx data =
     (let len = (of_nat (length data) :: u32);
          t = bits0 ctx;
          ctx = ctx\<lparr>bits0 := t + push_bit 3 len\<rparr>;
          ctx = (if bits0 ctx < t then ctx\<lparr>bits1 := bits1 ctx + 1\<rparr> else ctx);
          ctx = ctx\<lparr>bits1 := bits1 ctx + drop_bit 29 len\<rparr>;
          t = unat (drop_bit 3 t AND 0x3f)
      in if t \<noteq> 0
         then if length data < 64 - t then ctx\<lparr>inb := memcpy_at t data (inb ctx)\<rparr>
              else md5_update_loop
                     (md5_block (ctx\<lparr>inb := memcpy_at t (take (64 - t) data) (inb ctx)\<rparr>)) (drop (64 - t) data)
         else md5_update_loop ctx data)"

definition MD5Final :: "md5_ctx \<Rightarrow> bytes \<times> md5_ctx" where
  "MD5Final ctx =
     (let count = unat (drop_bit 3 (bits0 ctx) AND 0x3F);
          ctx = ctx\<lparr>inb := memcpy_at count [0x80] (inb ctx)\<rparr>;
          p = count + 1;
          count = 64 - 1 - count;
          ctx = (if count < 8
                 then let ctx = ctx\<lparr>inb := memcpy_at p (replicate count 0) (inb ctx)\<rparr>;
                          ctx = md5_block ctx
                      in ctx\<lparr>inb := memcpy_at 0 (replicate 56 0) (inb ctx)\<rparr>
                 else ctx\<lparr>inb := memcpy_at p (replicate (count - 8) 0) (inb ctx)\<rparr>);
          ctx = ctx\<lparr>inb := byteReverse (inb ctx) 14\<rparr>;
          ctx = ctx\<lparr>inb := memcpy_at 56 (store_le (bits0 ctx)) (inb ctx)\<rparr>;
          ctx = ctx\<lparr>inb := memcpy_at 60 (store_le (bits1 ctx)) (inb ctx)\<rparr>;
          ctx = ctx\<lparr>buf := MD5Transform (buf ctx) (longs_of (inb ctx))\<rparr>;
          (b0, b1, b2, b3) = buf ctx;
          digest = byteReverse (store_le b0 @ store_le b1 @ store_le b2 @ store_le b3) 4
      in (take 16 digest, ctx\<lparr>buf := (0, 0, b2, b3)\<rparr>))"

text \<open>\<^verbatim>\<open>memset(ctx, 0, sizeof(ctx))\<close> clears the size of a pointer, eight bytes: the first two words only.\<close>

definition MD5 :: "bytes \<Rightarrow> bytes \<Rightarrow> bytes" where
  "MD5 old data = fst (MD5Final (MD5Update (MD5Init old) data))"

definition MD5Hex :: "bytes \<Rightarrow> bytes \<Rightarrow> bytes" where
  "MD5Hex old data = bytesToHexs (MD5 old data) 16 32"

text \<open>
  \<open>fp\<close>: \<open>None\<close> if the file does not open, otherwise the pieces that \<^verbatim>\<open>fread\<close> gives and whether \<^verbatim>\<open>feof\<close> holds
  after the last one.
\<close>

definition fileMD5 :: "bytes \<Rightarrow> (bytes list \<times> bool) option \<Rightarrow> bytes option" where
  "fileMD5 old fp =
     (case fp of
        None \<Rightarrow> None
      | Some (pieces, eof) \<Rightarrow>
          let ctx = foldl MD5Update (MD5Init old) pieces in if \<not> eof then None else Some (fst (MD5Final ctx)))"

subsection \<open>Blocks\<close>

lemma byteReverse_id [simp]: "byteReverse bs n = bs"
proof (induction bs n rule: byteReverse.induct)
  case (1 b0 b1 b2 b3 bs longs)
  have "push_bit 16 (push_bit 8 (ucast b3) OR ucast b2) OR (push_bit 8 (ucast b1) OR ucast b0) =
      load_le (b0 # b1 # b2 # b3 # bs)"
    by (simp add: push_bit_or push_bit_push_bit or.assoc or.commute or.left_commute)
  then show ?case using 1 store_load_le [of b0 b1 b2 b3 bs] by simp
qed auto

text \<open>The reference: the state after the full blocks of a message.\<close>

function md5_blocks :: "md5_state \<Rightarrow> bytes \<Rightarrow> md5_state" where
  "md5_blocks st m =
     (if length m \<ge> 64 then md5_blocks (MD5Transform st (longs_of (take 64 m))) (drop 64 m) else st)"
  by pat_completeness auto
termination by (relation "measure (\<lambda>(st, m). length m)") auto

declare md5_blocks.simps [simp del] md5_update_loop.simps [simp del]

lemma md5_blocks_short: "length m < 64 \<Longrightarrow> md5_blocks st m = st"
  by (subst md5_blocks.simps) simp

lemma md5_blocks_block: "length b = 64 \<Longrightarrow> md5_blocks st (b @ m) = md5_blocks (MD5Transform st (longs_of b)) m"
  by (subst md5_blocks.simps) simp

abbreviation full :: "bytes \<Rightarrow> nat" where "full m \<equiv> 64 * (length m div 64)"

lemma md5_blocks_append: "md5_blocks st (m @ d) = md5_blocks (md5_blocks st m) (drop (full m) m @ d)"
proof (induction m arbitrary: st rule: length_induct)
  case (1 m)
  show ?case
  proof (cases "length m \<ge> 64")
    case True
    let ?b = "take 64 m" and ?r = "drop 64 m"
    have len: "length m div 64 = Suc (length ?r div 64)" using True by (simp add: le_div_geq)
    have "md5_blocks st (m @ d) = md5_blocks st (?b @ (?r @ d))" by (simp flip: append_assoc)
    also have "\<dots> = md5_blocks (MD5Transform st (longs_of ?b)) (?r @ d)" using True by (intro md5_blocks_block) simp
    also have "\<dots> = md5_blocks (md5_blocks (MD5Transform st (longs_of ?b)) ?r) (drop (full ?r) ?r @ d)"
      using True by (intro 1 [rule_format]) simp
    also have "md5_blocks (MD5Transform st (longs_of ?b)) ?r = md5_blocks st m"
      using True by (subst (2) md5_blocks.simps) simp
    also have "drop (full ?r) ?r = drop (full m) m" using True by (simp add: len add.commute)
    finally show ?thesis .
  qed (simp add: md5_blocks_short)
qed

lemma full_block: "length b = 64 \<Longrightarrow> drop (full (b @ q)) (b @ q) = drop (full q) q"
proof -
  assume "length b = 64"
  moreover have "(64 + length q) div 64 = Suc (length q div 64)"
    by (metis Suc_eq_plus1 div_add_self1 zero_neq_numeral)
  then have "64 * ((64 + length q) div 64) = full q + 64" by simp
  ultimately show ?thesis by (simp del: div_mult_self1 div_mult_self2)
qed

lemma length_memcpy: "i + length src \<le> length dst \<Longrightarrow> length (memcpy_at i src dst) = length dst"
  by (simp add: memcpy_at_def)

lemma memcpy_whole: "length src = length dst \<Longrightarrow> memcpy_at 0 src dst = src"
  by (simp add: memcpy_at_def)

lemma md5_block_simps [simp]:
  "inb (md5_block ctx) = inb ctx" "buf (md5_block ctx) = MD5Transform (buf ctx) (longs_of (inb ctx))"
  "bits0 (md5_block ctx) = bits0 ctx" "bits1 (md5_block ctx) = bits1 ctx"
  by (simp_all add: md5_block_def)

lemma update_loop:
  "length (inb ctx) = 64 \<Longrightarrow>
   buf (md5_update_loop ctx d) = md5_blocks (buf ctx) d \<and>
   length (inb (md5_update_loop ctx d)) = 64 \<and>
   take (length d mod 64) (inb (md5_update_loop ctx d)) = drop (full d) d \<and>
   bits0 (md5_update_loop ctx d) = bits0 ctx \<and> bits1 (md5_update_loop ctx d) = bits1 ctx"
proof (induction ctx d rule: md5_update_loop.induct)
  case (1 ctx d)
  show ?case
  proof (cases "length d \<ge> 64")
    case True
    let ?c = "md5_block (ctx\<lparr>inb := memcpy_at 0 (take 64 d) (inb ctx)\<rparr>)"
    have c: "inb ?c = take 64 d" using 1(2) True by (simp add: memcpy_whole)
    have len: "length d div 64 = Suc (length (drop 64 d) div 64)" using True by (simp add: le_div_geq)
    have mod: "length (drop 64 d) mod 64 = length d mod 64" using True by (simp add: le_mod_geq)
    have "full d = full (drop 64 d) + 64" using len by simp
    then have "drop (full (drop 64 d)) (drop 64 d) = drop (full d) d" by (simp only: drop_drop)
    moreover have "md5_blocks (buf ?c) (drop 64 d) = md5_blocks (buf ctx) d"
      using True 1(2) by (subst (2) md5_blocks.simps) (simp add: memcpy_whole)
    moreover have "md5_update_loop ctx d = md5_update_loop ?c (drop 64 d)"
      using True by (subst md5_update_loop.simps) simp
    ultimately show ?thesis
      using 1(1) [OF True] c True mod by simp
  next
    case False
    then have "md5_update_loop ctx d = ctx\<lparr>inb := memcpy_at 0 d (inb ctx)\<rparr>" by (subst md5_update_loop.simps) simp
    with False 1(2) show ?thesis by (simp add: md5_blocks_short memcpy_at_def)
  qed
qed

subsection \<open>The context of a message\<close>

definition md5_init_state :: md5_state where
  "md5_init_state = (0x67452301, 0xefcdab89, 0x98badcfe, 0x10325476)"

text \<open>\<open>md5_repr ctx m\<close>: the context after the bytes \<open>m\<close>.\<close>

definition md5_repr :: "md5_ctx \<Rightarrow> bytes \<Rightarrow> bool" where
  "md5_repr ctx m \<longleftrightarrow>
     length (inb ctx) = 64 \<and> buf ctx = md5_blocks md5_init_state m \<and>
     bits0 ctx = of_nat (8 * length m) \<and> bits1 ctx = of_nat (8 * length m div 2 ^ 32) \<and>
     take (length m mod 64) (inb ctx) = drop (full m) m"

lemma bits_position:
  assumes "n = 8 * k" shows "unat (drop_bit 3 (of_nat n :: u32) AND 0x3F) = k mod 64"
proof -
  have mask: "(0x3F :: u32) = mask 6" by (simp add: mask_eq_exp_minus_1)
  have "unat (drop_bit 3 (of_nat n :: u32) AND 0x3F) = (n mod 2 ^ 32 div 8) mod 64"
    unfolding mask take_bit_eq_mask [symmetric]
    by (simp add: take_bit_eq_mod drop_bit_eq_div unat_div_distrib unat_mod_distrib unat_of_nat)
  also have "n mod 2 ^ 32 div 8 = k mod 2 ^ 29"
    using assms mult_mod_right [of 8 k "2 ^ 29"] by simp
  also have "(k mod 2 ^ 29) mod 64 = k mod 64" by (rule mod_mod_cancel) simp
  finally show ?thesis .
qed

lemma div_add_carry:
  fixes a b n :: nat
  assumes "0 < n"
  shows "(a + b) div n = a div n + b div n + (if (a + b) mod n < a mod n then 1 else 0)"
proof -
  define x y where "x = a mod n" and "y = b mod n"
  then have xy: "x < n" "y < n" using assms by simp_all
  have d: "(a + b) div n = a div n + b div n + (x + y) div n" unfolding x_def y_def by (rule div_add1_eq)
  have m: "(a + b) mod n = (x + y) mod n" unfolding x_def y_def by (simp add: mod_simps)
  show ?thesis
  proof (cases "x + y < n")
    case True
    then show ?thesis using d m x_def by simp
  next
    case False
    then have "(x + y) div n = 1" "(x + y) mod n = x + y - n" using xy by (simp_all add: le_div_geq le_mod_geq)
    moreover have "x + y - n < x" using xy False by linarith
    ultimately show ?thesis using d m by (simp add: x_def [symmetric] y_def [symmetric])
  qed
qed

lemma bits_carry:
  fixes a b :: nat
  assumes "b < 2 ^ 32"
  shows "(if (of_nat (8 * a) + push_bit 3 (of_nat b) :: u32) < of_nat (8 * a) then of_nat (8 * a div 2 ^ 32) + 1
      else of_nat (8 * a div 2 ^ 32)) + drop_bit 29 (of_nat b) = (of_nat (8 * (a + b) div 2 ^ 32) :: u32)"
proof -
  let ?N = "2 ^ 32 :: nat" and ?A = "8 * a" and ?B = "8 * b"
  have sum: "(of_nat ?A + push_bit 3 (of_nat b) :: u32) = of_nat (?A + ?B)"
    by (simp add: push_bit_eq_mult)
  have high: "drop_bit 29 (of_nat b :: u32) = of_nat (?B div ?N)"
  proof (rule word_unat_eq_iff [THEN iffD2])
    have "b div 2 ^ 29 \<le> b" by simp
    then have "b div 2 ^ 29 < ?N" using assms by linarith
    then show "unat (drop_bit 29 (of_nat b :: u32)) = unat (of_nat (?B div ?N) :: u32)"
      using assms by (simp add: unat_drop_bit_eq drop_bit_eq_div unat_of_nat unat_div)
  qed
  have less: "(of_nat (?A + ?B) :: u32) < of_nat ?A \<longleftrightarrow> (?A + ?B) mod ?N < ?A mod ?N"
    by (simp only: word_less_nat_alt unat_of_nat) simp
  have "8 * (a + b) div ?N = ?A div ?N + ?B div ?N + (if (?A + ?B) mod ?N < ?A mod ?N then 1 else 0)"
    using div_add_carry [of ?N ?A ?B] by (simp only: distrib_left) simp
  then show ?thesis unfolding sum high less by simp
qed

lemma md5_init_repr: "length old = 64 \<Longrightarrow> md5_repr (MD5Init old) []"
  by (simp add: md5_repr_def MD5Init_def md5_init_state_def md5_blocks_short)

lemma md5_update_repr:
  assumes "md5_repr ctx m" "length d < 2 ^ 32"
  shows "md5_repr (MD5Update ctx d) (m @ d)"
proof -
  let ?t = "length m mod 64" and ?r = "drop (full m) m"
  define c where "c = (let t = bits0 ctx; c = ctx\<lparr>bits0 := t + push_bit 3 (of_nat (length d))\<rparr>;
      c = (if bits0 c < t then c\<lparr>bits1 := bits1 c + 1\<rparr> else c)
      in c\<lparr>bits1 := bits1 c + drop_bit 29 (of_nat (length d))\<rparr>)"
  have r: "length (inb ctx) = 64" "buf ctx = md5_blocks md5_init_state m" "bits0 ctx = of_nat (8 * length m)"
    "bits1 ctx = of_nat (8 * length m div 2 ^ 32)" "take ?t (inb ctx) = ?r"
    using assms(1) by (simp_all add: md5_repr_def)
  have c: "inb c = inb ctx" "buf c = buf ctx" "bits0 c = of_nat (8 * length (m @ d))"
    by (simp_all add: c_def Let_def r(3) push_bit_eq_mult algebra_simps)
  have c1: "bits1 c = of_nat (8 * length (m @ d) div 2 ^ 32)"
  proof -
    have "bits1 c = (if bits0 ctx + push_bit 3 (of_nat (length d)) < bits0 ctx then bits1 ctx + 1 else bits1 ctx) +
        drop_bit 29 (of_nat (length d))"
      by (simp add: c_def Let_def)
    then show ?thesis unfolding r(3,4) bits_carry [OF assms(2)] length_append .
  qed
  have t: "unat (drop_bit 3 (bits0 ctx) AND 0x3f) = ?t" unfolding r(3) by (rule bits_position) simp
  have upd: "MD5Update ctx d =
      (if ?t \<noteq> 0
       then if length d < 64 - ?t then c\<lparr>inb := memcpy_at ?t d (inb c)\<rparr>
            else md5_update_loop (md5_block (c\<lparr>inb := memcpy_at ?t (take (64 - ?t) d) (inb c)\<rparr>)) (drop (64 - ?t) d)
       else md5_update_loop c d)"
    unfolding MD5Update_def c_def Let_def t by simp
  have r_len: "length ?r = ?t" by (simp add: minus_mult_div_eq_mod)
  have blocks: "md5_blocks md5_init_state (m @ d) = md5_blocks (buf ctx) (?r @ d)"
    unfolding r(2) by (rule md5_blocks_append)
  have rest: "drop (full (m @ d)) (m @ d) = drop (full (?r @ d)) (?r @ d)"
    "length (m @ d) mod 64 = length (?r @ d) mod 64"
  proof -
    have len: "length (m @ d) = full m + length (?r @ d)" using r_len by (simp add: mult_div_mod_eq)
    show "length (m @ d) mod 64 = length (?r @ d) mod 64" unfolding len by (simp del: length_append length_drop)
    have "full (m @ d) = full m + full (?r @ d)" unfolding len by (simp del: length_append length_drop)
    then have "drop (full (m @ d)) (m @ d) = drop (full (?r @ d)) (drop (full m) (m @ d))"
      by (simp del: drop_append length_append add: add.commute)
    also have "drop (full m) (m @ d) = ?r @ d" by simp
    finally show "drop (full (m @ d)) (m @ d) = drop (full (?r @ d)) (?r @ d)" .
  qed
  have goal: "md5_repr x (m @ d)"
    if "length (inb x) = 64" "buf x = md5_blocks (buf ctx) (?r @ d)" "bits0 x = bits0 c" "bits1 x = bits1 c"
      "take (length (?r @ d) mod 64) (inb x) = drop (full (?r @ d)) (?r @ d)" for x
    unfolding md5_repr_def blocks rest using that c c1 by simp
  consider "?t = 0" | "?t \<noteq> 0" "length d < 64 - ?t" | "?t \<noteq> 0" "64 - ?t \<le> length d" by linarith
  then show ?thesis
  proof cases
    case 1
    then have "?r @ d = d" using r_len by simp
    moreover have "MD5Update ctx d = md5_update_loop c d" unfolding upd using 1 by simp
    ultimately show ?thesis using update_loop [of c d] r(1) c by (intro goal) (simp_all del: length_append)
  next
    case 2
    have short: "length (?r @ d) < 64" using 2 r_len by simp
    have "MD5Update ctx d = c\<lparr>inb := memcpy_at ?t d (inb c)\<rparr>" unfolding upd using 2 by simp
    moreover have "memcpy_at ?t d (inb c) = ?r @ d @ drop (?t + length d) (inb c)"
      by (simp add: memcpy_at_def c r(5))
    moreover have "take (length (?r @ d)) (?r @ d @ drop (?t + length d) (inb c)) = ?r @ d" by simp
    ultimately show ?thesis
      using short r(1) c r_len 2
      by (intro goal) (simp_all add: md5_blocks_short del: length_append, simp_all add: length_memcpy)
  next
    case 3
    let ?p = "take (64 - ?t) d" and ?q = "drop (64 - ?t) d"
    let ?c = "md5_block (c\<lparr>inb := memcpy_at ?t ?p (inb c)\<rparr>)"
    have b: "memcpy_at ?t ?p (inb c) = ?r @ ?p" using 3 r(1,5) by (simp add: memcpy_at_def c)
    have bl: "length (?r @ ?p) = 64" using 3 r_len by simp
    have split: "?r @ d = (?r @ ?p) @ ?q" by simp
    have len: "length (?r @ d) = 64 + length ?q" unfolding split using bl by (simp only: length_append)
    have "MD5Update ctx d = md5_update_loop ?c ?q" unfolding upd using 3 by simp
    moreover have "md5_blocks (buf ctx) (?r @ d) = md5_blocks (buf ?c) ?q"
      unfolding split by (subst md5_blocks_block [OF bl]) (simp add: b [unfolded c(1)] c)
    moreover have "drop (full (?r @ d)) (?r @ d) = drop (full ?q) ?q"
      unfolding split by (rule full_block [OF bl])
    moreover have "length (?r @ d) mod 64 = length ?q mod 64" unfolding len by simp
    moreover note update_loop [of ?c ?q]
    moreover have "length (inb ?c) = 64" "bits0 ?c = bits0 c" "bits1 ?c = bits1 c"
      unfolding md5_block_simps using bl by (simp_all add: b del: length_append)
    ultimately show ?thesis by (intro goal) (simp_all only: simp_thms)
  qed
qed

text \<open>The padded message and its digest, as the algorithm is defined.\<close>

definition md5_pad :: "bytes \<Rightarrow> bytes" where
  "md5_pad m = m @ [0x80] @ replicate ((119 - length m mod 64) mod 64) 0 @
     store_le (of_nat (8 * length m)) @ store_le (of_nat (8 * length m div 2 ^ 32))"

definition state_bytes :: "md5_state \<Rightarrow> bytes" where
  "state_bytes st = (case st of (b0, b1, b2, b3) \<Rightarrow> store_le b0 @ store_le b1 @ store_le b2 @ store_le b3)"

definition md5_digest :: "bytes \<Rightarrow> bytes" where
  "md5_digest m = state_bytes (md5_blocks md5_init_state (md5_pad m))"

lemma memcpy_app: "length pre = i \<Longrightarrow> memcpy_at i src (pre @ rest) = (pre @ src) @ drop (length src) rest"
  by (simp add: memcpy_at_def)

definition pad_ctx :: "nat \<Rightarrow> md5_ctx \<Rightarrow> md5_ctx" where
  "pad_ctx k c =
     (if 63 - k < 8
      then let c = md5_block (c\<lparr>inb := memcpy_at (k + 1) (replicate (63 - k) 0) (inb c)\<rparr>)
           in c\<lparr>inb := memcpy_at 0 (replicate 56 0) (inb c)\<rparr>
      else c\<lparr>inb := memcpy_at (k + 1) (replicate (63 - k - 8) 0) (inb c)\<rparr>)"

lemma MD5Final_fst:
  assumes "unat (drop_bit 3 (bits0 ctx) AND 0x3F) = k"
  shows "fst (MD5Final ctx) =
    (let c = pad_ctx k (ctx\<lparr>inb := memcpy_at k [0x80] (inb ctx)\<rparr>)
     in state_bytes (MD5Transform (buf c)
          (longs_of (memcpy_at 60 (store_le (bits1 ctx)) (memcpy_at 56 (store_le (bits0 ctx)) (inb c))))))"
  unfolding MD5Final_def Let_def assms pad_ctx_def
  by (simp add: state_bytes_def split: prod.split)

lemma memcpy_sizes:
  "length pre = 56 \<Longrightarrow> length t8 = 8 \<Longrightarrow> length s0 = 4 \<Longrightarrow> length s1 = 4 \<Longrightarrow>
   memcpy_at 60 s1 (memcpy_at 56 s0 (pre @ t8)) = pre @ s0 @ s1"
  by (simp add: memcpy_at_def)

lemma md5_final_digest:
  assumes "md5_repr ctx m" shows "fst (MD5Final ctx) = md5_digest m"
proof -
  let ?k = "length m mod 64" and ?r = "drop (full m) m"
  let ?s = "store_le (of_nat (8 * length m)) @ store_le (of_nat (8 * length m div 2 ^ 32))"
  let ?c = "ctx\<lparr>inb := memcpy_at ?k [0x80] (inb ctx)\<rparr>"
  have r: "length (inb ctx) = 64" "buf ctx = md5_blocks md5_init_state m" "bits0 ctx = of_nat (8 * length m)"
    "bits1 ctx = of_nat (8 * length m div 2 ^ 32)" "take ?k (inb ctx) = ?r"
    using assms by (simp_all add: md5_repr_def)
  have pos: "unat (drop_bit 3 (bits0 ctx) AND 0x3F) = ?k" unfolding r(3) by (rule bits_position) simp
  have rl: "length ?r = ?k" and k: "?k < 64" by (simp_all add: minus_mult_div_eq_mod)
  let ?rest = "drop (?k + 1) (inb ctx)"
  have first: "memcpy_at ?k [0x80] (inb ctx) = (?r @ [0x80]) @ ?rest" by (simp add: memcpy_at_def r(5))
  have restl: "length ?rest = 63 - ?k" using r(1) by simp
  have step: "memcpy_at (?k + 1) z (inb ?c) = (?r @ [0x80] @ z) @ drop (length z) ?rest" for z
    using memcpy_app [of "?r @ [0x80]" "?k + 1" z ?rest] rl by (simp add: first del: drop_drop)
  have blocks: "md5_blocks md5_init_state (md5_pad m) =
      md5_blocks (buf ctx) (?r @ [0x80] @ replicate ((119 - ?k) mod 64) 0 @ ?s)"
    unfolding r(2) md5_pad_def by (rule md5_blocks_append)
  show ?thesis
  proof (cases "63 - ?k < 8")
    case True
    let ?b = "?r @ [0x80] @ replicate (63 - ?k) 0"
    have two: "md5_blocks st (replicate 56 0 @ ?s) = MD5Transform st (longs_of (replicate 56 0 @ ?s))" for st
      using md5_blocks_block [of "replicate 56 0 @ ?s" st "[]"] by (simp add: md5_blocks_short)
    have bl: "length ?b = 64" using rl k by simp
    have pad: "pad_ctx ?k ?c = ctx\<lparr>buf := MD5Transform (buf ctx) (longs_of ?b), inb := replicate 56 0 @ drop 56 ?b\<rparr>"
      using True bl restl step [of "replicate (63 - ?k) 0"]
      by (simp add: pad_ctx_def md5_block_def memcpy_at_def [of 0] del: drop_append append_assoc)
    have "(119 - ?k) mod 64 = 63 - ?k + 56" using True k by simp
    then have "?r @ [0x80] @ replicate ((119 - ?k) mod 64) 0 @ ?s = ?b @ (replicate 56 0 @ ?s)"
      by (simp only: replicate_add append_assoc)
    then have "md5_blocks md5_init_state (md5_pad m) =
        MD5Transform (MD5Transform (buf ctx) (longs_of ?b)) (longs_of (replicate 56 0 @ ?s))"
      unfolding blocks using bl two by (simp only: md5_blocks_block)
    then show ?thesis
      unfolding md5_digest_def MD5Final_fst [OF pos] Let_def pad
      using memcpy_sizes [of "replicate 56 0" "drop 56 ?b" "store_le (bits0 ctx)" "store_le (bits1 ctx)"] bl
      by (simp add: r(3,4) del: append_assoc drop_append)
  next
    case False
    let ?b = "?r @ [0x80] @ replicate (55 - ?k) 0"
    have bl: "length ?b = 56" using False rl by simp
    have "length (?b @ ?s) = 64" using bl by (simp del: append_assoc)
    then have one: "md5_blocks st (?b @ ?s) = MD5Transform st (longs_of (?b @ ?s))" for st
      using md5_blocks_block [of "?b @ ?s" st "[]"] by (simp only: append_Nil2) (simp add: md5_blocks_short)
    have "63 - ?k - 8 = 55 - ?k" by simp
    then have "pad_ctx ?k ?c = ctx\<lparr>inb := ?b @ drop (55 - ?k) ?rest\<rparr>"
      using False step [of "replicate (55 - ?k) 0"]
      by (simp add: pad_ctx_def del: drop_append append_assoc drop_drop)
    moreover have "length (drop (55 - ?k) ?rest) = 8" using restl False by simp
    ultimately obtain t8 where pad: "pad_ctx ?k ?c = ctx\<lparr>inb := ?b @ t8\<rparr>" and t8: "length t8 = 8" by blast
    have "(119 - ?k) mod 64 = 55 - ?k" using False by (simp add: le_mod_geq)
    then have "md5_blocks md5_init_state (md5_pad m) = MD5Transform (buf ctx) (longs_of (?b @ ?s))"
      unfolding blocks using one by (simp only: append_assoc)
    then show ?thesis
      unfolding md5_digest_def MD5Final_fst [OF pos] Let_def pad
      using memcpy_sizes [OF bl t8, of "store_le (bits0 ctx)" "store_le (bits1 ctx)"]
      by (simp add: r(3,4) del: append_assoc drop_append)
  qed
qed

lemma md5_updates_repr:
  "md5_repr ctx m \<Longrightarrow> (\<forall>d \<in> set ds. length d < 2 ^ 32) \<Longrightarrow> md5_repr (foldl MD5Update ctx ds) (m @ concat ds)"
proof (induction ds arbitrary: ctx m)
  case (Cons d ds)
  then show ?case using Cons.IH [OF md5_update_repr [of ctx m d]] by simp
qed simp

lemma MD5_digest: "length old = 64 \<Longrightarrow> length d < 2 ^ 32 \<Longrightarrow> MD5 old d = md5_digest d"
  using md5_final_digest [OF md5_update_repr [OF md5_init_repr, of old d]] by (simp add: MD5_def)

subsection \<open>Properties\<close>

text \<open>
  C16: the digest does not depend on how a message is cut. Whatever pieces below four gigabytes a message is
  given in, and whatever the memory held, \<open>MD5Init\<close>, \<open>MD5Update\<close> and \<open>MD5Final\<close> compute the digest of the padded
  message, of any total length, and so does the call in one piece.
\<close>

theorem md5_any_pieces:
  assumes "length old = 64" "\<forall>d \<in> set ds. length d < 2 ^ 32"
  shows "fst (MD5Final (foldl MD5Update (MD5Init old) ds)) = md5_digest (concat ds) \<and>
    (length (concat ds) < 2 ^ 32 \<longrightarrow> MD5 old (concat ds) = md5_digest (concat ds))"
  using md5_final_digest [OF md5_updates_repr [OF md5_init_repr [OF assms(1)] assms(2)]]
    MD5_digest [OF assms(1)] by simp

theorem md5_any_pieces_witness:
  "fst (MD5Final (foldl MD5Update (MD5Init (replicate 64 7)) [[97], [98, 99]])) = MD5 (replicate 64 7) [97, 98, 99]"
  using md5_any_pieces [of "replicate 64 7" "[[97], [98, 99]]"] by simp
end
