(* ===== verification/Loader.thy ===== *)
theory Loader
  imports GP_Prelude
begin

text \<open>
  \<^verbatim>\<open>efnfw/base/ef_loader.h\<close>: a source of data with a version, set by a watcher's thread, and a loader that
  copies it when the version has grown. Setting and copying hold the source's mutex, reading the version
  does not, so another thread may set data between the two steps of \<open>loadData\<close>.
\<close>

subsection \<open>The operations\<close>

record 'a data_src =
  ds_data :: 'a
  ds_version :: int

definition DataSrc_init :: "'a \<Rightarrow> 'a data_src" where
  "DataSrc_init d = \<lparr>ds_data = d, ds_version = 0\<rparr>"

definition setData :: "'a \<Rightarrow> 'a data_src \<Rightarrow> int \<times> 'a data_src" where
  "setData t s = (let s = s\<lparr>ds_data := t\<rparr>; s = s\<lparr>ds_version := ds_version s + 1\<rparr> in (ds_version s, s))"

definition getSersion :: "'a data_src \<Rightarrow> int" where
  "getSersion s = ds_version s"

definition getData :: "'a data_src \<Rightarrow> 'a" where
  "getData s = ds_data s"

record 'a loader =
  ld_data :: 'a
  ld_version :: int

definition Loader_init :: "'a \<Rightarrow> 'a loader" where
  "Loader_init d = \<lparr>ld_data = d, ld_version = 0\<rparr>"

text \<open>\<open>loadData\<close> without a change in between, and its two steps: the version read, the data fetched.\<close>

definition loadData :: "'a data_src \<Rightarrow> 'a loader \<Rightarrow> bool \<times> 'a loader" where
  "loadData s l =
     (let v = getSersion s
      in if ld_version l < v then (True, l\<lparr>ld_data := getData s, ld_version := v\<rparr>) else (False, l))"

datatype load_pc = Idle | Fetch int

definition load_begin :: "'a data_src \<Rightarrow> 'a loader \<Rightarrow> load_pc" where
  "load_begin s l = (let v = getSersion s in if ld_version l < v then Fetch v else Idle)"

definition load_fetch :: "int \<Rightarrow> 'a data_src \<Rightarrow> 'a loader \<Rightarrow> 'a loader" where
  "load_fetch v s l = l\<lparr>ld_data := getData s, ld_version := v\<rparr>"

lemma loadData_steps:
  "loadData s l = (case load_begin s l of Idle \<Rightarrow> (False, l) | Fetch v \<Rightarrow> (True, load_fetch v s l))"
  by (simp add: loadData_def load_begin_def load_fetch_def Let_def)

subsection \<open>Interleavings\<close>

text \<open>The last component records all values that were set, the latest first.\<close>

type_synonym 'a load_state = "'a data_src \<times> 'a loader \<times> load_pc \<times> 'a list"

inductive load_step :: "'a load_state \<Rightarrow> 'a load_state \<Rightarrow> bool" where
  set: "load_step (s, l, pc, vs) (snd (setData t s), l, pc, t # vs)"
| start: "load_step (s, l, Idle, vs) (s, l, load_begin s l, vs)"
| fetch: "load_step (s, l, Fetch v, vs) (s, load_fetch v s l, Idle, vs)"

inductive load_reach :: "'a load_state \<Rightarrow> bool" where
  init: "load_reach (DataSrc_init d, Loader_init e, Idle, [])"
| step: "load_reach st \<Longrightarrow> load_step st st' \<Longrightarrow> load_reach st'"

definition load_ok :: "'a load_state \<Rightarrow> bool" where
  "load_ok st \<longleftrightarrow>
     (case st of (s, l, pc, vs) \<Rightarrow>
        ds_version s = int (length vs) \<and> (vs \<noteq> [] \<longrightarrow> ds_data s = hd vs) \<and>
        0 \<le> ld_version l \<and> ld_version l \<le> ds_version s \<and>
        (0 < ld_version l \<longrightarrow> ld_data l \<in> set (take (length vs - nat (ld_version l) + 1) vs)) \<and>
        (\<forall>v. pc = Fetch v \<longrightarrow> ld_version l < v \<and> v \<le> ds_version s))"

lemma load_ok_step:
  assumes "load_step st st'" "load_ok st" shows "load_ok st'"
  using assms
proof (cases rule: load_step.cases)
  case (set s l pc vs t)
  have "nat (ld_version l) \<le> length vs" using assms(2) by (auto simp: set load_ok_def)
  then have "length (t # vs) - nat (ld_version l) + 1 = Suc (length vs - nat (ld_version l) + 1)"
    by simp
  with assms(2) show ?thesis by (auto simp: set load_ok_def setData_def Let_def)
next
  case (start s l vs)
  with assms(2) show ?thesis by (auto simp: load_ok_def load_begin_def getSersion_def Let_def)
next
  case (fetch s l v vs)
  with assms(2) have "vs \<noteq> []" "ds_data s = hd vs" by (auto simp: load_ok_def)
  with assms(2) fetch show ?thesis
    by (cases vs) (auto simp: load_ok_def load_fetch_def getData_def)
qed

lemma load_reach_ok: "load_reach st \<Longrightarrow> load_ok st"
proof (induction rule: load_reach.induct)
  case (init d e)
  then show ?case by (simp add: load_ok_def DataSrc_init_def Loader_init_def)
qed (rule load_ok_step)

subsection \<open>Properties\<close>



end
