(* ===== verification/Json.thy ===== *)
theory Json
  imports Complex_Main Containers Utility "HOL-Library.List_Lexorder"
begin

text \<open>
  JSON values as jsoncpp (\<^verbatim>\<open>clientsdk/json/json_value.cpp\<close>) has them, with the accessors the servers use.
  A failed assertion and an exception, which no caller catches, are both \<open>Fault\<close>. The parser and the
  writer of the library are in \<open>JsonText\<close>; most users have them as parameters. The map of an array
  has its indices as keys; as the program fills arrays in order, it is a list.
\<close>

datatype json = nullValue | intValue int | uintValue int | realValue real | stringValue bytes
  | booleanValue bool | arrayValue "json list" | objectValue "(bytes, json) std_map"

definition isNull :: "json \<Rightarrow> bool" where "isNull v \<longleftrightarrow> v = nullValue"
definition isInt :: "json \<Rightarrow> bool" where "isInt v \<longleftrightarrow> (case v of intValue i \<Rightarrow> True | _ \<Rightarrow> False)"
definition isString :: "json \<Rightarrow> bool" where "isString v \<longleftrightarrow> (case v of stringValue s \<Rightarrow> True | _ \<Rightarrow> False)"

text \<open>The null value counts as an array and as an object.\<close>

definition isArray :: "json \<Rightarrow> bool" where
  "isArray v \<longleftrightarrow> (case v of nullValue \<Rightarrow> True | arrayValue vs \<Rightarrow> True | _ \<Rightarrow> False)"

definition isObject :: "json \<Rightarrow> bool" where
  "isObject v \<longleftrightarrow> (case v of nullValue \<Rightarrow> True | objectValue m \<Rightarrow> True | _ \<Rightarrow> False)"

definition asString :: "json \<Rightarrow> bytes outcome" where
  "asString v =
     (case v of
        nullValue \<Rightarrow> Done []
      | stringValue s \<Rightarrow> Done s
      | booleanValue b \<Rightarrow> Done (if b then bytes_of ''true'' else bytes_of ''false'')
      | _ \<Rightarrow> Fault)"

definition minInt :: int where "minInt = - (2 ^ 31)"
definition maxInt :: int where "maxInt = 2 ^ 31 - 1"

definition asInt :: "json \<Rightarrow> int outcome" where
  "asInt v =
     (case v of
        nullValue \<Rightarrow> Done 0
      | intValue i \<Rightarrow> Done i
      | uintValue u \<Rightarrow> if u < maxInt then Done u else Fault
      | realValue r \<Rightarrow>
          if of_int minInt \<le> r \<and> r \<le> of_int maxInt then Done (if r < 0 then \<lceil>r\<rceil> else \<lfloor>r\<rfloor>) else Fault
      | booleanValue b \<Rightarrow> Done (if b then 1 else 0)
      | _ \<Rightarrow> Fault)"

definition jsize :: "json \<Rightarrow> nat" where
  "jsize v = (case v of arrayValue vs \<Rightarrow> length vs | objectValue m \<Rightarrow> length m | _ \<Rightarrow> 0)"

text \<open>\<^verbatim>\<open>v[index]\<close> and \<^verbatim>\<open>v[key]\<close> of a constant value.\<close>

definition jindex :: "json \<Rightarrow> nat \<Rightarrow> json outcome" where
  "jindex v i =
     (case v of
        nullValue \<Rightarrow> Done nullValue
      | arrayValue vs \<Rightarrow> Done (if i < length vs then vs ! i else nullValue)
      | _ \<Rightarrow> Fault)"

definition jget :: "json \<Rightarrow> string \<Rightarrow> json outcome" where
  "jget v key =
     (case v of
        nullValue \<Rightarrow> Done nullValue
      | objectValue m \<Rightarrow> Done (case map_of m (bytes_of key) of None \<Rightarrow> nullValue | Some x \<Rightarrow> x)
      | _ \<Rightarrow> Fault)"

text \<open>
  \<^verbatim>\<open>v[key] = x\<close> and \<^verbatim>\<open>v[i] = x\<close> for an index up to the size; a null value becomes an object or an array.
\<close>

definition jput :: "string \<Rightarrow> json \<Rightarrow> json \<Rightarrow> json outcome" where
  "jput key x v =
     (case v of
        nullValue \<Rightarrow> Done (objectValue (map_put (bytes_of key) x []))
      | objectValue m \<Rightarrow> Done (objectValue (map_put (bytes_of key) x m))
      | _ \<Rightarrow> Fault)"

definition jput_index :: "nat \<Rightarrow> json \<Rightarrow> json \<Rightarrow> json outcome" where
  "jput_index i x v =
     (case v of
        nullValue \<Rightarrow> if i = 0 then Done (arrayValue [x]) else Fault
      | arrayValue vs \<Rightarrow>
          if i < length vs then Done (arrayValue (vs[i := x]))
          else if i = length vs then Done (arrayValue (vs @ [x])) else Fault
      | _ \<Rightarrow> Fault)"

lemmas json_is_simps [simp] =
  isNull_def isInt_def isString_def isArray_def isObject_def

lemma jget_simps [simp]:
  "jget nullValue k = Done nullValue"
  "jget (objectValue m) k = Done (case map_of m (bytes_of k) of None \<Rightarrow> nullValue | Some x \<Rightarrow> x)"
  by (simp_all add: jget_def)

lemma jput_simps [simp]:
  "jput k x nullValue = Done (objectValue [(bytes_of k, x)])"
  "jput k x (objectValue m) = Done (objectValue (map_put (bytes_of k) x m))"
  by (simp_all add: jput_def)

end
