(* ===== verification/ServerStatus.thy ===== *)
theory ServerStatus
  imports Json
begin

text \<open>
  \<^verbatim>\<open>common/src/server_status.cpp\<close>: the status that a server publishes and the others read, between its
  structure and JSON, and \<open>ServerNode\<close>, which keeps it in a node of ZooKeeper. The client of ZooKeeper and the
  writer of JSON are parameters; the request for the public address to an outside service is one too.
\<close>

subsection \<open>The status\<close>

record port_config =
  Port :: int
  MaxType :: int
  MinType :: int
  Others :: json

definition PortConfig_init :: port_config where
  "PortConfig_init = \<lparr>Port = 0, MaxType = 0, MinType = 0, Others = nullValue\<rparr>"

record server_status =
  ID :: int
  IPs :: "bytes list"
  Ports :: "port_config list"
  Properties :: json

text \<open>Reading: \<open>set_int\<close> is the pattern \<^verbatim>\<open>if (v[key].isInt()) field = v[key].asInt();\<close>.\<close>

definition set_int :: "json \<Rightarrow> string \<Rightarrow> (int \<Rightarrow> 'r \<Rightarrow> 'r) \<Rightarrow> 'r \<Rightarrow> 'r outcome" where
  "set_int v key upd r =
     bind_outcome (jget v key) (\<lambda>x. if isInt x then bind_outcome (asInt x) (\<lambda>i. Done (upd i r)) else Done r)"

fun parse_ips :: "json \<Rightarrow> nat \<Rightarrow> nat \<Rightarrow> server_status \<Rightarrow> server_status outcome" where
  "parse_ips jv i 0 st = Done st"
| "parse_ips jv i (Suc n) st =
     bind_outcome (jindex jv i) (\<lambda>x. bind_outcome (asString x) (\<lambda>ip.
       parse_ips jv (i + 1) n (st\<lparr>IPs := IPs st @ [ip]\<rparr>)))"

definition parse_port :: "json \<Rightarrow> port_config \<Rightarrow> port_config outcome" where
  "parse_port cv pc =
     bind_outcome (set_int cv ''ListenPort'' (\<lambda>i pc. pc\<lparr>Port := i\<rparr>) pc) (\<lambda>pc.
     bind_outcome (set_int cv ''MaxType'' (\<lambda>i pc. pc\<lparr>MaxType := i\<rparr>) pc) (\<lambda>pc.
     bind_outcome (set_int cv ''MinType'' (\<lambda>i pc. pc\<lparr>MinType := i\<rparr>) pc) (\<lambda>pc.
     bind_outcome (jget cv ''Others'') (\<lambda>o'. Done (if isNull o' then pc else pc\<lparr>Others := o'\<rparr>)))))"

text \<open>One \<open>pc\<close> is declared before the loop, and kept by it.\<close>

fun parse_ports :: "json \<Rightarrow> nat \<Rightarrow> nat \<Rightarrow> port_config \<Rightarrow> port_config outcome" where
  "parse_ports jv i 0 pc = Done pc"
| "parse_ports jv i (Suc n) pc =
     bind_outcome (jindex jv i) (\<lambda>cv. bind_outcome (parse_port cv pc) (\<lambda>pc. parse_ports jv (i + 1) n pc))"

definition parseFromJson :: "json \<Rightarrow> server_status \<Rightarrow> (int \<times> server_status) outcome" where
  "parseFromJson v st =
     bind_outcome (set_int v ''ID'' (\<lambda>i st. st\<lparr>ID := i\<rparr>) st) (\<lambda>st.
     bind_outcome (jget v ''IPs'') (\<lambda>jv.
     bind_outcome (if isArray jv then parse_ips jv 0 (jsize jv) st else Done st) (\<lambda>st.
     bind_outcome (jget v ''CliConfigs'') (\<lambda>jv.
     bind_outcome (if isArray jv
                   then bind_outcome (parse_ports jv 0 (jsize jv) PortConfig_init) (\<lambda>pc.
                          Done (st\<lparr>Ports := Ports st @ [pc]\<rparr>))
                   else Done st) (\<lambda>st.
     bind_outcome (jget v ''Properties'') (\<lambda>p.
     Done (0, if isNull p then st else st\<lparr>Properties := p\<rparr>)))))))"

text \<open>Writing: \<open>jupdate\<close> is a change through the reference that \<^verbatim>\<open>v[key]\<close> or \<^verbatim>\<open>v[i]\<close> gives.\<close>

definition jupdate :: "string \<Rightarrow> (json \<Rightarrow> json outcome) \<Rightarrow> json \<Rightarrow> json outcome" where
  "jupdate key f v = bind_outcome (jget v key) (\<lambda>old. bind_outcome (f old) (\<lambda>new. jput key new v))"

definition jupdate_index :: "nat \<Rightarrow> (json \<Rightarrow> json outcome) \<Rightarrow> json \<Rightarrow> json outcome" where
  "jupdate_index i f v = bind_outcome (jindex v i) (\<lambda>old. bind_outcome (f old) (\<lambda>new. jput_index i new v))"

fun serialize_ips :: "nat \<Rightarrow> bytes list \<Rightarrow> json \<Rightarrow> json outcome" where
  "serialize_ips i [] v = Done v"
| "serialize_ips i (ip # ips) v =
     bind_outcome (jupdate ''IPs'' (jput_index i (stringValue ip)) v) (serialize_ips (i + 1) ips)"

definition serialize_port :: "port_config \<Rightarrow> json \<Rightarrow> json outcome" where
  "serialize_port p servcfgs =
     bind_outcome (jput ''ListenPort'' (intValue (Port p)) servcfgs) (\<lambda>servcfgs.
     bind_outcome (jput ''MaxType'' (intValue (MaxType p)) servcfgs) (\<lambda>servcfgs.
     bind_outcome (jput ''MinType'' (intValue (MinType p)) servcfgs) (\<lambda>servcfgs.
     jput ''Others'' (Others p) servcfgs)))"

fun serialize_ports :: "nat \<Rightarrow> port_config list \<Rightarrow> json \<Rightarrow> json outcome" where
  "serialize_ports i [] v = Done v"
| "serialize_ports i (p # ps) v =
     bind_outcome (jupdate ''CliConfigs'' (jupdate_index i (serialize_port p)) v) (serialize_ports (i + 1) ps)"

definition serializeToJson :: "server_status \<Rightarrow> json \<Rightarrow> (int \<times> json) outcome" where
  "serializeToJson st v =
     bind_outcome (jput ''ID'' (intValue (ID st)) v) (\<lambda>v.
     bind_outcome (serialize_ips 0 (IPs st) v) (\<lambda>v.
     bind_outcome (jput ''Properties'' (Properties st) v) (\<lambda>v.
     bind_outcome (serialize_ports 0 (Ports st) v) (\<lambda>v. Done (0, v)))))"

text \<open>\<open>parse\<close>, \<open>write\<close>: the library's reader and writer; the values given back are 0 and -1.\<close>

definition parseFromString :: "(bytes \<Rightarrow> json option) \<Rightarrow> bytes \<Rightarrow> server_status \<Rightarrow> (int \<times> server_status) outcome" where
  "parseFromString parse s st =
     (case parse s of Some v \<Rightarrow> parseFromJson v st | None \<Rightarrow> Done (-1, st))"

definition serializeToString :: "(json \<Rightarrow> bytes) \<Rightarrow> server_status \<Rightarrow> (int \<times> bytes) outcome" where
  "serializeToString write st =
     bind_outcome (serializeToJson st nullValue) (\<lambda>(ret, v). Done (0, write v))"

text \<open>\<open>pub\<close>: what \<^verbatim>\<open>getPublicIPFromShell\<close> gives; \<open>ips\<close>: the local addresses.\<close>

definition autoSetIPs :: "int + bytes \<Rightarrow> bytes list \<Rightarrow> bool \<Rightarrow> server_status \<Rightarrow> int \<times> server_status" where
  "autoSetIPs pub ips need_public_ip st =
     (case pub of
        Inl ret \<Rightarrow> (ret, st)
      | Inr pubip \<Rightarrow>
          let st = st\<lparr>IPs := IPs st @ filter (\<lambda>ip. ip \<noteq> pubip) ips\<rparr>
          in (0, if need_public_ip then st\<lparr>IPs := IPs st @ [pubip]\<rparr> else st))"

subsection \<open>The node of a server\<close>

text \<open>The client of ZooKeeper: codes of creating an ephemeral node and of setting data.\<close>

record 'w zk_api =
  createEphemeralNode :: "bytes \<Rightarrow> bytes \<Rightarrow> 'w \<Rightarrow> int \<times> 'w"
  setNodeData :: "bytes \<Rightarrow> bytes \<Rightarrow> 'w \<Rightarrow> int \<times> 'w"

definition ZNONODE :: int where \<comment> \<open>of \<^verbatim>\<open>zookeeper.h\<close>\<close> "ZNONODE = -101"

record server_node =
  has_cli :: bool
  m_path :: bytes
  m_data :: bytes

definition node_setData :: "'w zk_api \<Rightarrow> server_node \<Rightarrow> 'w \<Rightarrow> int \<times> 'w" where
  "node_setData z n w =
     (if has_cli n
      then let (ret, w) = setNodeData z (m_path n) (m_data n) w
           in if ret = ZNONODE then createEphemeralNode z (m_path n) (m_data n) w else (ret, w)
      else (-1, w))"

definition node_init :: "(json \<Rightarrow> bytes) \<Rightarrow> 'w zk_api \<Rightarrow> server_status \<Rightarrow> server_node \<Rightarrow> 'w \<Rightarrow>
    (int \<times> server_node \<times> 'w) outcome" where
  "node_init write z s n w =
     (if has_cli n
      then bind_outcome (serializeToJson s nullValue) (\<lambda>(ret, v).
             if ret \<ge> 0
             then let n = n\<lparr>m_data := write v\<rparr>; (ret, w) = createEphemeralNode z (m_path n) (m_data n) w
                  in Done (ret, n, w)
             else Done (-1, n, w))
      else Done (-1, n, w))"

definition setStatus :: "(json \<Rightarrow> bytes) \<Rightarrow> 'w zk_api \<Rightarrow> server_status \<Rightarrow> server_node \<Rightarrow> 'w \<Rightarrow>
    (int \<times> server_node \<times> 'w) outcome" where
  "setStatus write z s n w =
     bind_outcome (serializeToJson s nullValue) (\<lambda>(ret, v).
       let data = write v
       in if m_data n \<noteq> data
          then let n = n\<lparr>m_data := data\<rparr>; (ret, w) = node_setData z n w in Done (ret, n, w)
          else Done (0, n, w))"

subsection \<open>Lemmas\<close>

text \<open>The array under a key, which is absent while it is empty.\<close>

definition arr_at :: "(bytes, json) std_map \<Rightarrow> string \<Rightarrow> json list \<Rightarrow> bool" where
  "arr_at m k vs \<longleftrightarrow> (if vs = [] then map_of m (bytes_of k) = None else map_of m (bytes_of k) = Some (arrayValue vs))"

lemma arr_append:
  assumes "arr_at m k vs" "f nullValue = Done x"
  shows "\<exists>m'. jupdate k (jupdate_index (length vs) f) (objectValue m) = Done (objectValue m') \<and>
    arr_at m' k (vs @ [x]) \<and> (\<forall>k'. k' \<noteq> bytes_of k \<longrightarrow> map_of m' k' = map_of m k')"
  using assms by (cases "vs = []") (auto simp: arr_at_def jupdate_def jupdate_index_def jindex_def jput_index_def)

lemma arr_put:
  assumes "arr_at m k vs"
  shows "\<exists>m'. jupdate k (jput_index (length vs) x) (objectValue m) = Done (objectValue m') \<and>
    arr_at m' k (vs @ [x]) \<and> (\<forall>k'. k' \<noteq> bytes_of k \<longrightarrow> map_of m' k' = map_of m k')"
  using assms by (cases "vs = []") (auto simp: arr_at_def jupdate_def jput_index_def)

lemma serialize_ips_arr:
  "arr_at m ''IPs'' vs \<Longrightarrow>
   \<exists>m'. serialize_ips (length vs) ips (objectValue m) = Done (objectValue m') \<and>
     arr_at m' ''IPs'' (vs @ map stringValue ips) \<and>
     (\<forall>k'. k' \<noteq> bytes_of ''IPs'' \<longrightarrow> map_of m' k' = map_of m k')"
proof (induction ips arbitrary: m vs)
  case (Cons ip ips)
  obtain m1 where m1: "jupdate ''IPs'' (jput_index (length vs) (stringValue ip)) (objectValue m) = Done (objectValue m1)"
    "arr_at m1 ''IPs'' (vs @ [stringValue ip])" "\<forall>k'. k' \<noteq> bytes_of ''IPs'' \<longrightarrow> map_of m1 k' = map_of m k'"
    using arr_put [OF Cons.prems] by blast
  show ?case using Cons.IH [OF m1(2)] m1(1,3) by (auto simp del: bytes_of_simps)
qed auto

definition port_json :: "port_config \<Rightarrow> json" where
  "port_json p = objectValue (map_put (bytes_of ''Others'') (Others p)
     (map_put (bytes_of ''MinType'') (intValue (MinType p)) (map_put (bytes_of ''MaxType'') (intValue (MaxType p))
       [(bytes_of ''ListenPort'', intValue (Port p))])))"

lemma serialize_port_null: "serialize_port p nullValue = Done (port_json p)"
  by (simp add: serialize_port_def port_json_def del: bytes_of_simps)

lemma serialize_ports_arr:
  "arr_at m ''CliConfigs'' vs \<Longrightarrow>
   \<exists>m'. serialize_ports (length vs) ps (objectValue m) = Done (objectValue m') \<and>
     arr_at m' ''CliConfigs'' (vs @ map port_json ps) \<and>
     (\<forall>k'. k' \<noteq> bytes_of ''CliConfigs'' \<longrightarrow> map_of m' k' = map_of m k')"
proof (induction ps arbitrary: m vs)
  case (Cons p ps)
  obtain m1 where m1: "jupdate ''CliConfigs'' (jupdate_index (length vs) (serialize_port p)) (objectValue m) = Done (objectValue m1)"
    "arr_at m1 ''CliConfigs'' (vs @ [port_json p])" "\<forall>k'. k' \<noteq> bytes_of ''CliConfigs'' \<longrightarrow> map_of m1 k' = map_of m k'"
    using arr_append [where f = "serialize_port p", OF Cons.prems serialize_port_null] by blast
  show ?case using Cons.IH [OF m1(2)] m1(1,3) by (auto simp del: bytes_of_simps)
qed auto

lemma keys_distinct [simp]:
  "bytes_of ''IPs'' \<noteq> bytes_of ''ID''" "bytes_of ''ID'' \<noteq> bytes_of ''IPs''"
  "bytes_of ''CliConfigs'' \<noteq> bytes_of ''ID''" "bytes_of ''ID'' \<noteq> bytes_of ''CliConfigs''"
  "bytes_of ''Properties'' \<noteq> bytes_of ''ID''" "bytes_of ''ID'' \<noteq> bytes_of ''Properties''"
  "bytes_of ''IPs'' \<noteq> bytes_of ''CliConfigs''" "bytes_of ''CliConfigs'' \<noteq> bytes_of ''IPs''"
  "bytes_of ''IPs'' \<noteq> bytes_of ''Properties''" "bytes_of ''Properties'' \<noteq> bytes_of ''IPs''"
  "bytes_of ''CliConfigs'' \<noteq> bytes_of ''Properties''" "bytes_of ''Properties'' \<noteq> bytes_of ''CliConfigs''"
  by simp_all

lemma serialize_fields:
  "\<exists>m. serializeToJson st nullValue = Done (0, objectValue m) \<and>
     map_of m (bytes_of ''ID'') = Some (intValue (ID st)) \<and> arr_at m ''IPs'' (map stringValue (IPs st)) \<and>
     arr_at m ''CliConfigs'' (map port_json (Ports st)) \<and> map_of m (bytes_of ''Properties'') = Some (Properties st)"
proof -
  obtain m1 where m1: "serialize_ips 0 (IPs st) (objectValue [(bytes_of ''ID'', intValue (ID st))]) = Done (objectValue m1)"
    "arr_at m1 ''IPs'' (map stringValue (IPs st))"
    "\<forall>k'. k' \<noteq> bytes_of ''IPs'' \<longrightarrow> map_of m1 k' = map_of [(bytes_of ''ID'', intValue (ID st))] k'"
    using serialize_ips_arr [of "[(bytes_of ''ID'', intValue (ID st))]" "[]" "IPs st"]
    by (auto simp: arr_at_def simp del: bytes_of_simps)
  let ?m2 = "map_put (bytes_of ''Properties'') (Properties st) m1"
  have "arr_at ?m2 ''CliConfigs'' []" using m1(3) by (simp add: arr_at_def del: bytes_of_simps)
  then obtain m3 where "serialize_ports 0 (Ports st) (objectValue ?m2) = Done (objectValue m3)"
    "arr_at m3 ''CliConfigs'' (map port_json (Ports st))"
    "\<forall>k'. k' \<noteq> bytes_of ''CliConfigs'' \<longrightarrow> map_of m3 k' = map_of ?m2 k'"
    using serialize_ports_arr [of ?m2 "[]" "Ports st"] by auto
  with m1 show ?thesis by (auto simp: serializeToJson_def arr_at_def simp del: bytes_of_simps)
qed

lemma parse_ips_strings:
  "drop i vs = map stringValue ips \<Longrightarrow>
   parse_ips (arrayValue vs) i (length ips) st = Done (st\<lparr>IPs := IPs st @ ips\<rparr>)"
proof (induction ips arbitrary: i st)
  case (Cons ip ips)
  then have "i < length vs" "vs ! i = stringValue ip" "drop (Suc i) vs = map stringValue ips"
    by (auto simp: drop_Suc nth_via_drop dest: arg_cong [where f = length] arg_cong [where f = tl] simp: tl_drop)
  then show ?case using Cons.IH [of "Suc i"] by (simp add: jindex_def asString_def)
qed simp

definition merge_port :: "port_config \<Rightarrow> port_config \<Rightarrow> port_config" where
  "merge_port pc p = (if Others p = nullValue then p\<lparr>Others := Others pc\<rparr> else p)"

lemma parse_port_json: "parse_port (port_json p) pc = Done (merge_port pc p)"
  by (simp add: parse_port_def port_json_def set_int_def merge_port_def asInt_def)

lemma parse_ports_json:
  "drop i vs = map port_json ps \<Longrightarrow>
   parse_ports (arrayValue vs) i (length ps) pc = Done (foldl merge_port pc ps)"
proof (induction ps arbitrary: i pc)
  case (Cons p ps)
  then have "i < length vs" "vs ! i = port_json p" "drop (Suc i) vs = map port_json ps"
    by (auto simp: drop_Suc nth_via_drop dest: arg_cong [where f = length] arg_cong [where f = tl] simp: tl_drop)
  then show ?case using Cons.IH [of "Suc i"] by (simp add: jindex_def parse_port_json)
qed simp

lemma parse_serialized:
  assumes "map_of m (bytes_of ''ID'') = Some (intValue (ID st))" "arr_at m ''IPs'' (map stringValue (IPs st))"
    "arr_at m ''CliConfigs'' (map port_json (Ports st))" "map_of m (bytes_of ''Properties'') = Some (Properties st)"
  shows "parseFromJson (objectValue m) st0 =
    Done (0, st0\<lparr>ID := ID st, IPs := IPs st0 @ IPs st, Ports := Ports st0 @ [foldl merge_port PortConfig_init (Ports st)],
      Properties := (if Properties st = nullValue then Properties st0 else Properties st)\<rparr>)"
  using assms
    parse_ips_strings [of 0 "map stringValue (IPs st)" "IPs st" "st0\<lparr>ID := ID st\<rparr>"]
    parse_ports_json [of 0 "map port_json (Ports st)" "Ports st" PortConfig_init]
  by (auto simp: parseFromJson_def set_int_def arr_at_def asInt_def jsize_def split: if_splits
      simp del: bytes_of_simps)

subsection \<open>Properties\<close>

text \<open>
  What is read back of a published status. Writing a status always works; reading the result into a fresh
  status gives its number, addresses and properties, and exactly one port: the last one, with the other
  settings of an earlier one if it has none, or a port 0 if there was none. So the status is
  read back as it was exactly if it has one port.
\<close>

theorem status_read_back:
  "\<exists>v st'. serializeToJson st nullValue = Done (0, v) \<and>
     parseFromJson v \<lparr>ID = i, IPs = [], Ports = [], Properties = nullValue\<rparr> = Done (0, st') \<and>
     ID st' = ID st \<and> IPs st' = IPs st \<and> Properties st' = Properties st \<and>
     Ports st' = [foldl merge_port PortConfig_init (Ports st)] \<and>
     (st' = st \<longleftrightarrow> length (Ports st) = 1)"
proof -
  obtain m where m: "serializeToJson st nullValue = Done (0, objectValue m)"
    "map_of m (bytes_of ''ID'') = Some (intValue (ID st))" "arr_at m ''IPs'' (map stringValue (IPs st))"
    "arr_at m ''CliConfigs'' (map port_json (Ports st))" "map_of m (bytes_of ''Properties'') = Some (Properties st)"
    using serialize_fields by blast
  let ?p = "[foldl merge_port PortConfig_init (Ports st)]"
  have "?p = Ports st \<longleftrightarrow> length (Ports st) = 1"
  proof
    assume "length (Ports st) = 1"
    then obtain p where "Ports st = [p]" by (auto simp: length_Suc_conv)
    then show "?p = Ports st" by (simp add: merge_port_def PortConfig_init_def)
  qed (metis length_Cons list.size(3) One_nat_def)
  moreover have "st\<lparr>Ports := q\<rparr> = st \<longleftrightarrow> q = Ports st" for q by (cases st) auto
  moreover have "parseFromJson (objectValue m) \<lparr>ID = i, IPs = [], Ports = [], Properties = nullValue\<rparr> =
      Done (0, st\<lparr>Ports := ?p\<rparr>)"
    by (subst parse_serialized [OF m(2-5)]) (cases st; simp)
  ultimately show ?thesis using m(1) by (intro exI conjI) (assumption | simp)+
qed

text \<open>
  A status whose report failed is not reported again. The node remembers the new text before it is
  set, so after a failure other than a missing node the same status counts as reported.
\<close>

theorem failed_report_forgotten:
  assumes "has_cli n" "serializeToJson s nullValue = Done (0, v)" "m_data n \<noteq> write v"
    and "setNodeData z (m_path n) (write v) w = (ret, w')" "ret \<noteq> ZNONODE"
  shows "setStatus write z s n w = Done (ret, n\<lparr>m_data := write v\<rparr>, w') \<and>
    setStatus write z s (n\<lparr>m_data := write v\<rparr>) w'' = Done (0, n\<lparr>m_data := write v\<rparr>, w'')"
  using assms by (simp add: setStatus_def node_setData_def)

definition failing_zk :: "nat zk_api" where
  \<comment> \<open>counts the calls, which all fail with a lost connection (-4)\<close>
  "failing_zk = \<lparr>createEphemeralNode = \<lambda>p d w. (-4, Suc w), setNodeData = \<lambda>p d w. (-4, Suc w)\<rparr>"

theorem failed_report_forgotten_witness:
  "setStatus (\<lambda>v. [1]) failing_zk \<lparr>ID = 1, IPs = [], Ports = [], Properties = nullValue\<rparr>
     \<lparr>has_cli = True, m_path = [47], m_data = []\<rparr> 0 = Done (-4, \<lparr>has_cli = True, m_path = [47], m_data = [1]\<rparr>, 1)"
proof -
  obtain m where "serializeToJson \<lparr>ID = 1, IPs = [], Ports = [], Properties = nullValue\<rparr> nullValue = Done (0, objectValue m)"
    using serialize_fields by blast
  from failed_report_forgotten [of "\<lparr>has_cli = True, m_path = [47], m_data = []\<rparr>", OF _ this,
      of "\<lambda>v. [1]" failing_zk 0 "-4" 1 1]
  show ?thesis by (simp add: failing_zk_def ZNONODE_def)
qed

end
