(* ===== verification/JsonText.thy ===== *)
theory JsonText
  imports Json
begin

unbundle bit_operations_syntax

text \<open>
  JSON text: the reader and the \<^verbatim>\<open>FastWriter\<close> of \<^verbatim>\<open>clientsdk/json/json_reader.cpp\<close> and \<^verbatim>\<open>json_writer.cpp\<close>, with which servers
  and clients exchange values. The reader's position is the rest of the document. A failure anywhere makes the
  whole document fail, so it is \<open>None\<close>: the recorded errors, and the skipping after an error, show only in messages.
  Comments are skipped, not kept. The texts of floating-point numbers are the business of \<^verbatim>\<open>sscanf\<close> and
  \<^verbatim>\<open>sprintf\<close>: \<open>scan\<close> is \<^verbatim>\<open>"%lf"\<close> and \<open>fmt\<close> is \<^verbatim>\<open>"%#.16g"\<close>.
\<close>

subsection \<open>Tokens\<close>

datatype token_type = tokenEndOfStream | tokenObjectBegin | tokenObjectEnd | tokenArrayBegin | tokenArrayEnd
  | tokenString | tokenNumber | tokenTrue | tokenFalse | tokenNull | tokenArraySeparator | tokenMemberSeparator
  | tokenComment | tokenError

record token =
  tk_type :: token_type
  tk_text :: bytes

record json_features =
  allowComments :: bool
  strictRoot :: bool

definition Features_all :: json_features where
  "Features_all = \<lparr>allowComments = True, strictRoot = False\<rparr>"

definition Features_strictMode :: json_features where
  "Features_strictMode = Features_all\<lparr>allowComments := False, strictRoot := True\<rparr>"

definition getNextChar :: "bytes \<Rightarrow> byte \<times> bytes" where
  "getNextChar s = (case s of [] \<Rightarrow> (0, []) | c # s' \<Rightarrow> (c, s'))"

lemma getNextChar_simps [simp]: "getNextChar [] = (0, [])" "getNextChar (c # s) = (c, s)"
  by (simp_all add: getNextChar_def)

lemma getNextChar_less [termination_simp]: "length (snd (getNextChar s)) < Suc (length s)"
  by (cases s) simp_all

definition is_blank :: "byte \<Rightarrow> bool" where
  "is_blank c \<longleftrightarrow> c = ch CHR '' '' \<or> c = 9 \<or> c = 13 \<or> c = 10"

definition skipSpaces :: "bytes \<Rightarrow> bytes" where
  "skipSpaces s = dropWhile is_blank s"

text \<open>\<^verbatim>\<open>match\<close>: whether the document goes on with the pattern, and what follows it then.\<close>

definition match_text :: "bytes \<Rightarrow> bytes \<Rightarrow> bool \<times> bytes" where
  "match_text s pat =
     (if length s < length pat then (False, s)
      else if take (length pat) s = pat then (True, drop (length pat) s) else (False, s))"

fun readCStyleComment :: "bytes \<Rightarrow> bool \<times> bytes" where
  "readCStyleComment [] = (False, [])"
| "readCStyleComment (c # s) =
     (if c = ch CHR ''*'' \<and> s \<noteq> [] \<and> hd s = ch CHR ''/''
      then (let (c', s') = getNextChar s in (c' = ch CHR ''/'', s'))
      else readCStyleComment s)"

fun readCppStyleComment :: "bytes \<Rightarrow> bool \<times> bytes" where
  "readCppStyleComment [] = (True, [])"
| "readCppStyleComment (c # s) = (if c = 13 \<or> c = 10 then (True, s) else readCppStyleComment s)"

definition readComment :: "bytes \<Rightarrow> bool \<times> bytes" where
  "readComment s =
     (let (c, s') = getNextChar s in
      if c = ch CHR ''*'' then readCStyleComment s'
      else if c = ch CHR ''/'' then readCppStyleComment s'
      else (False, s'))"

definition number_char :: "byte \<Rightarrow> bool" where
  "number_char c \<longleftrightarrow> is_digit c \<or> c \<in> {ch CHR ''.'', ch CHR ''e'', ch CHR ''E'', ch CHR ''+'', ch CHR ''-''}"

definition readNumber :: "bytes \<Rightarrow> bytes" where
  "readNumber s = dropWhile number_char s"

text \<open>\<open>c\<close> is the last character that was read, 0 before the first.\<close>

fun readString :: "byte \<Rightarrow> bytes \<Rightarrow> bool \<times> bytes" where
  "readString c [] = (c = ch CHR 0x22, [])"
| "readString c (x # s) =
     (if x = ch CHR 0x5C then readString x (snd (getNextChar s))
      else if x = ch CHR 0x22 then (True, s)
      else readString x s)"

definition token_of :: "byte \<Rightarrow> bytes \<Rightarrow> token_type \<times> bool \<times> bytes" where
  "token_of c s =
     (if c = ch CHR ''{'' then (tokenObjectBegin, True, s)
      else if c = ch CHR ''}'' then (tokenObjectEnd, True, s)
      else if c = ch CHR ''['' then (tokenArrayBegin, True, s)
      else if c = ch CHR '']'' then (tokenArrayEnd, True, s)
      else if c = ch CHR 0x22 then (tokenString, readString 0 s)
      else if c = ch CHR ''/'' then (tokenComment, readComment s)
      else if is_digit c \<or> c = ch CHR ''-'' then (tokenNumber, True, readNumber s)
      else if c = ch CHR ''t'' then (tokenTrue, match_text s (bytes_of ''rue''))
      else if c = ch CHR ''f'' then (tokenFalse, match_text s (bytes_of ''alse''))
      else if c = ch CHR ''n'' then (tokenNull, match_text s (bytes_of ''ull''))
      else if c = ch CHR '','' then (tokenArraySeparator, True, s)
      else if c = ch CHR '':'' then (tokenMemberSeparator, True, s)
      else if c = 0 then (tokenEndOfStream, True, s)
      else (tokenError, False, s))"

definition readToken :: "bytes \<Rightarrow> token \<times> bytes" where
  "readToken s0 =
     (let s = skipSpaces s0;
          (c, s1) = getNextChar s;
          (ty, ok, s2) = token_of c s1
      in (\<lparr>tk_type = if ok then ty else tokenError, tk_text = take (length s - length s2) s\<rparr>, s2))"

lemma readCStyleComment_length: "length (snd (readCStyleComment s)) \<le> length s"
proof (induction s)
  case (Cons c s)
  then show ?case by (cases s) auto
qed simp

lemma readCppStyleComment_length: "length (snd (readCppStyleComment s)) \<le> length s"
  by (induction s) auto

lemma readComment_length: "length (snd (readComment s)) \<le> length s"
proof (cases s)
  case (Cons c s')
  then show ?thesis
    using readCStyleComment_length [of s'] readCppStyleComment_length [of s'] by (simp add: readComment_def)
qed (simp add: readComment_def)

lemma readString_length: "length (snd (readString c s)) \<le> length s"
proof (induction c s rule: readString.induct)
  case (2 c x s)
  then show ?case by (cases s) auto
qed simp

lemma token_of_length: "length (snd (snd (token_of c s))) \<le> length s"
  using readString_length [of 0 s] readComment_length [of s]
  by (simp add: token_of_def readNumber_def match_text_def length_dropWhile_le)

lemma skipSpaces_length: "length (skipSpaces s) \<le> length s"
  by (simp add: skipSpaces_def length_dropWhile_le)

lemma readToken_length: "length (snd (readToken s)) \<le> length s"
  and readToken_shorter: "tk_type (fst (readToken s)) \<noteq> tokenEndOfStream \<Longrightarrow> length (snd (readToken s)) < length s"
proof -
  consider "skipSpaces s = []" | c r where "skipSpaces s = c # r" by (cases "skipSpaces s") auto
  then have "length (snd (readToken s)) \<le> length s \<and>
      (tk_type (fst (readToken s)) \<noteq> tokenEndOfStream \<longrightarrow> length (snd (readToken s)) < length s)"
  proof cases
    case 1
    then show ?thesis by (simp add: readToken_def token_of_def is_digit_def)
  next
    case (2 c r)
    with token_of_length [of c r] skipSpaces_length [of s] show ?thesis
      by (cases "token_of c r") (auto simp: readToken_def)
  qed
  then show "length (snd (readToken s)) \<le> length s"
    "tk_type (fst (readToken s)) \<noteq> tokenEndOfStream \<Longrightarrow> length (snd (readToken s)) < length s" by auto
qed

text \<open>Reading tokens up to the first that is not a comment.\<close>

function skipComments :: "bytes \<Rightarrow> token \<times> bytes" where
  "skipComments s =
     (let (t, s') = readToken s in if tk_type t = tokenComment then skipComments s' else (t, s'))"
  by pat_completeness auto
termination
proof (relation "measure length", goal_cases)
  case (2 s p t s')
  then show ?case using readToken_shorter [of s] by (cases "readToken s") simp
qed simp

declare skipComments.simps [simp del]

definition skipCommentTokens :: "json_features \<Rightarrow> bytes \<Rightarrow> token \<times> bytes" where
  "skipCommentTokens f s = (if allowComments f then skipComments s else readToken s)"

subsection \<open>Strings\<close>

text \<open>A code point as UTF-8; above \<^verbatim>\<open>0x10FFFF\<close> there is none.\<close>

definition codePointToUTF8 :: "u32 \<Rightarrow> bytes" where
  "codePointToUTF8 cp =
     (if cp \<le> 0x7F then [ucast cp]
      else if cp \<le> 0x7FF then [ucast (0xC0 OR (0x1F AND drop_bit 6 cp)), ucast (0x80 OR (0x3F AND cp))]
      else if cp \<le> 0xFFFF then
        [0xE0 OR ucast (0xF AND drop_bit 12 cp), 0x80 OR ucast (0x3F AND drop_bit 6 cp), ucast (0x80 OR (0x3F AND cp))]
      else if cp \<le> 0x10FFFF then
        [ucast (0xF0 OR (0x7 AND drop_bit 18 cp)), ucast (0x80 OR (0x3F AND drop_bit 12 cp)),
         ucast (0x80 OR (0x3F AND drop_bit 6 cp)), ucast (0x80 OR (0x3F AND cp))]
      else [])"

definition hex_value :: "byte \<Rightarrow> u32 option" where
  "hex_value c =
     (if ch CHR ''0'' \<le> c \<and> c \<le> ch CHR ''9'' then Some (ucast (c - ch CHR ''0''))
      else if ch CHR ''a'' \<le> c \<and> c \<le> ch CHR ''f'' then Some (ucast (c - ch CHR ''a'' + 10))
      else if ch CHR ''A'' \<le> c \<and> c \<le> ch CHR ''F'' then Some (ucast (c - ch CHR ''A'' + 10))
      else None)"

fun unicode_digits :: "nat \<Rightarrow> u32 \<Rightarrow> bytes \<Rightarrow> (u32 \<times> bytes) option" where
  "unicode_digits 0 u s = Some (u, s)"
| "unicode_digits (Suc n) u s =
     (let (c, s') = getNextChar s in
      case hex_value c of None \<Rightarrow> None | Some d \<Rightarrow> unicode_digits n (u * 16 + d) s')"

definition decodeUnicodeEscapeSequence :: "bytes \<Rightarrow> (u32 \<times> bytes) option" where
  "decodeUnicodeEscapeSequence s = (if length s < 4 then None else unicode_digits 4 0 s)"

definition decodeUnicodeCodePoint :: "bytes \<Rightarrow> (u32 \<times> bytes) option" where
  "decodeUnicodeCodePoint s =
     (case decodeUnicodeEscapeSequence s of
        None \<Rightarrow> None
      | Some (unicode, s1) \<Rightarrow>
          if 0xD800 \<le> unicode \<and> unicode \<le> 0xDBFF then
            if length s1 < 6 then None
            else if s1 ! 0 = ch CHR 0x5C \<and> s1 ! 1 = ch CHR ''u'' then
              (case decodeUnicodeEscapeSequence (drop 2 s1) of
                 None \<Rightarrow> None
               | Some (surrogatePair, s2) \<Rightarrow>
                   Some (0x10000 + push_bit 10 (unicode AND 0x3FF) + (surrogatePair AND 0x3FF), s2))
            else None
          else Some (unicode, s1))"

definition escape_char :: "byte \<Rightarrow> byte option" where
  "escape_char c =
     (if c = ch CHR 0x22 then Some c
      else if c = ch CHR ''/'' then Some c
      else if c = ch CHR 0x5C then Some c
      else if c = ch CHR ''b'' then Some 8
      else if c = ch CHR ''f'' then Some 12
      else if c = ch CHR ''n'' then Some 10
      else if c = ch CHR ''r'' then Some 13
      else if c = ch CHR ''t'' then Some 9
      else None)"

lemma unicode_digits_length: "unicode_digits n u s = Some (u', s') \<Longrightarrow> length s' \<le> length s"
proof (induction n arbitrary: u s)
  case (Suc n)
  then show ?case by (cases s) (auto split: option.splits dest!: Suc.IH)
qed simp

lemma decodeUnicodeCodePoint_length: "decodeUnicodeCodePoint s = Some (u, s') \<Longrightarrow> length s' \<le> length s"
  by (auto simp: decodeUnicodeCodePoint_def decodeUnicodeEscapeSequence_def
      split: option.splits if_splits dest!: unicode_digits_length)

function decodeString_loop :: "bytes \<Rightarrow> bytes \<Rightarrow> bytes option" where
  "decodeString_loop decoded s =
     (case s of
        [] \<Rightarrow> Some decoded
      | c # s1 \<Rightarrow>
          if c = ch CHR 0x22 then Some decoded
          else if c = ch CHR 0x5C then
            (case s1 of
               [] \<Rightarrow> None
             | e # s2 \<Rightarrow>
                 if e = ch CHR ''u'' then
                   (case decodeUnicodeCodePoint s2 of
                      None \<Rightarrow> None
                    | Some (unicode, s3) \<Rightarrow> decodeString_loop (decoded @ codePointToUTF8 unicode) s3)
                 else (case escape_char e of None \<Rightarrow> None | Some b \<Rightarrow> decodeString_loop (decoded @ [b]) s2))
          else decodeString_loop (decoded @ [c]) s1)"
  by pat_completeness auto
termination
  by (relation "measure (\<lambda>(d, s). length s)") (auto dest: decodeUnicodeCodePoint_length)

declare decodeString_loop.simps [simp del]

text \<open>The text of the token has its quotes.\<close>

definition decodeString :: "bytes \<Rightarrow> bytes option" where
  "decodeString text = decodeString_loop [] (butlast (tl text))"

text \<open>A string value and the name of a member are kept as C strings.\<close>

definition c_str :: "bytes \<Rightarrow> bytes" where
  "c_str s = takeWhile (\<lambda>c. c \<noteq> 0) s"

subsection \<open>Numbers\<close>

text \<open>The buffer for a text of up to 32 characters has no place for the end mark of one of exactly 32.\<close>

definition decodeDouble :: "(bytes \<Rightarrow> real option) \<Rightarrow> bytes \<Rightarrow> json option outcome" where
  "decodeDouble scan text =
     (if length text = 32 then Fault else Done (map_option realValue (scan text)))"

datatype digits_result = digits_value nat | digits_large | digits_bad

fun number_loop :: "nat \<Rightarrow> nat \<Rightarrow> bytes \<Rightarrow> digits_result" where
  "number_loop threshold value [] = digits_value value"
| "number_loop threshold value (c # s) =
     (if \<not> is_digit c then digits_bad
      else if threshold \<le> value then digits_large
      else number_loop threshold (value * 10 + nat (uint c - 48)) s)"

definition maxUInt :: int where "maxUInt = 2 ^ 32 - 1"

definition decodeNumber :: "(bytes \<Rightarrow> real option) \<Rightarrow> bytes \<Rightarrow> json option outcome" where
  "decodeNumber scan text =
     (if (\<exists>c \<in> set text. c \<in> {ch CHR ''.'', ch CHR ''e'', ch CHR ''E'', ch CHR ''+''}) \<or> ch CHR ''-'' \<in> set (tl text)
      then decodeDouble scan text
      else let isNegative = (take 1 text = [ch CHR ''-'']);
               threshold = nat ((if isNegative then - minInt else maxUInt) div 10)
           in case number_loop threshold 0 (if isNegative then tl text else text) of
                digits_bad \<Rightarrow> Done None
              | digits_large \<Rightarrow> decodeDouble scan text
              | digits_value value \<Rightarrow>
                  Done (Some (if isNegative then intValue (- int value)
                              else if int value \<le> maxInt then intValue (int value)
                              else uintValue (int value))))"

subsection \<open>Values\<close>

type_synonym value_read = "(json \<times> bytes) option outcome"

text \<open>
  \<open>readObject\<close> and \<open>readArray_loop\<close> are the rounds of the loops, with the members and elements read so far and a bound for the
  number of rounds, \<open>readComma\<close> is what a round does behind a member; \<open>rv\<close> is \<open>readValue\<close>, \<open>name\<close> is the last member's name. \<open>badTokenType\<close> is the condition as it
  stands: no token is both.
\<close>

definition readComma :: "bytes \<Rightarrow> (token \<times> bytes) option" where
  "readComma s =
     (let (comma, s1) = readToken s in
      if tk_type comma \<noteq> tokenObjectEnd \<and> tk_type comma \<noteq> tokenArraySeparator \<and> tk_type comma \<noteq> tokenComment
      then None
      else Some (if tk_type comma = tokenComment then skipComments s1 else (comma, s1)))"

primrec readObject :: "(bytes \<Rightarrow> value_read) \<Rightarrow> nat \<Rightarrow> bytes \<Rightarrow> (bytes, json) std_map \<Rightarrow> bytes \<Rightarrow> value_read" where
  "readObject rv 0 s members name = NoFuel"
| "readObject rv (Suc n) s members name =
     (let (tokenName, s1) = skipComments s in
      if tk_type tokenName = tokenObjectEnd \<and> name = [] then Done (Some (objectValue members, s1))
      else if tk_type tokenName \<noteq> tokenString then Done None
      else case decodeString (tk_text tokenName) of
        None \<Rightarrow> Done None
      | Some name' \<Rightarrow>
          (let (colon, s2) = readToken s1 in
           if tk_type colon \<noteq> tokenMemberSeparator then Done None
           else bind_outcome (rv s2) (\<lambda>r. case r of
             None \<Rightarrow> Done None
           | Some (v, s3) \<Rightarrow>
               (case readComma s3 of
                  None \<Rightarrow> Done None
                | Some (comma, s4) \<Rightarrow>
                    if tk_type comma = tokenObjectEnd then Done (Some (objectValue (map_put (c_str name') v members), s4))
                    else readObject rv n s4 (map_put (c_str name') v members) name'))))"

primrec readArray_loop :: "(bytes \<Rightarrow> value_read) \<Rightarrow> nat \<Rightarrow> bytes \<Rightarrow> json list \<Rightarrow> value_read" where
  "readArray_loop rv 0 s vs = NoFuel"
| "readArray_loop rv (Suc n) s vs =
     bind_outcome (rv s) (\<lambda>r. case r of
       None \<Rightarrow> Done None
     | Some (v, s1) \<Rightarrow>
         (let (token, s2) = skipComments s1;
              badTokenType = (tk_type token = tokenArraySeparator \<and> tk_type token = tokenArrayEnd) in
          if badTokenType then Done None
          else if tk_type token = tokenArrayEnd then Done (Some (arrayValue (vs @ [v]), s2))
          else readArray_loop rv n s2 (vs @ [v])))"

definition readArray :: "(bytes \<Rightarrow> value_read) \<Rightarrow> nat \<Rightarrow> bytes \<Rightarrow> value_read" where
  "readArray rv n s =
     (let s1 = skipSpaces s in
      if fst (getNextChar s1) = ch CHR '']'' then (let (endArray, s2) = readToken s1 in Done (Some (arrayValue [], s2)))
      else readArray_loop rv n s1 [])"

primrec readValue :: "json_features \<Rightarrow> (bytes \<Rightarrow> real option) \<Rightarrow> nat \<Rightarrow> bytes \<Rightarrow> value_read" where
  "readValue f scan 0 s = NoFuel"
| "readValue f scan (Suc n) s =
     (let (token, s1) = skipCommentTokens f s in
      case tk_type token of
        tokenObjectBegin \<Rightarrow> readObject (readValue f scan n) n s1 [] []
      | tokenArrayBegin \<Rightarrow> readArray (readValue f scan n) n s1
      | tokenNumber \<Rightarrow> bind_outcome (decodeNumber scan (tk_text token)) (\<lambda>v. Done (map_option (\<lambda>v. (v, s1)) v))
      | tokenString \<Rightarrow> Done (map_option (\<lambda>d. (stringValue (c_str d), s1)) (decodeString (tk_text token)))
      | tokenTrue \<Rightarrow> Done (Some (booleanValue True, s1))
      | tokenFalse \<Rightarrow> Done (Some (booleanValue False, s1))
      | tokenNull \<Rightarrow> Done (Some (nullValue, s1))
      | _ \<Rightarrow> Done None)"

text \<open>What follows the value is not looked at. The fuel is enough, see \<open>parse_returns\<close> below.\<close>

definition parse :: "json_features \<Rightarrow> (bytes \<Rightarrow> real option) \<Rightarrow> bytes \<Rightarrow> json option outcome" where
  "parse f scan document =
     bind_outcome (readValue f scan (length document + 1) document) (\<lambda>r. case r of
       None \<Rightarrow> Done None
     | Some (v, s) \<Rightarrow> if strictRoot f \<and> \<not> isArray v \<and> \<not> isObject v then Done None else Done (Some v))"

subsection \<open>The writer\<close>

definition isControlCharacter :: "byte \<Rightarrow> bool" where
  "isControlCharacter c \<longleftrightarrow> 0 < sint c \<and> sint c \<le> 0x1F"

definition containsControlCharacter :: "bytes \<Rightarrow> bool" where
  "containsControlCharacter s \<longleftrightarrow> (\<exists>c \<in> set s. isControlCharacter c)"

fun uintToString :: "nat \<Rightarrow> bytes \<Rightarrow> bytes" where
  "uintToString value current =
     (let current = of_nat (value mod 10 + 48) # current
      in if value div 10 \<noteq> 0 then uintToString (value div 10) current else current)"

declare uintToString.simps [simp del]

definition valueToString_int :: "int \<Rightarrow> bytes" where
  "valueToString_int value =
     (let isNegative = value < 0;
          value = (if isNegative then i32 (- value) else value);
          current = uintToString (nat (value mod 2 ^ 32)) []
      in if isNegative then ch CHR ''-'' # current else current)"

definition valueToString_uint :: "int \<Rightarrow> bytes" where
  "valueToString_uint value = uintToString (nat value) []"

text \<open>
  The zeros at the end of a printed number are cut off, all but one behind the point: \<open>n\<close> characters are up to the last that
  is no zero (or the first one), and the point must be the first of them from the right that is no digit.
\<close>

definition valueToString_double :: "(real \<Rightarrow> bytes) \<Rightarrow> real \<Rightarrow> bytes" where
  "valueToString_double fmt value =
     (let buffer = fmt value in
      if buffer = [] \<or> last buffer \<noteq> ch CHR ''0'' then buffer
      else let n = length buffer - length (takeWhile (\<lambda>c. c = ch CHR ''0'') (rev (tl buffer)));
               ch' = dropWhile is_digit (rev (take n buffer))
           in if ch' \<noteq> [] \<and> hd ch' = ch CHR ''.'' then take (n + 1) buffer else buffer)"

definition valueToString_bool :: "bool \<Rightarrow> bytes" where
  "valueToString_bool value = (if value then bytes_of ''true'' else bytes_of ''false'')"

text \<open>One digit of \<^verbatim>\<open>std::hex << std::uppercase\<close>.\<close>

definition hex_upper :: "byte \<Rightarrow> byte" where
  "hex_upper d = (if d < 10 then d + ch CHR ''0'' else d - 10 + ch CHR ''A'')"

definition quote_char :: "byte \<Rightarrow> bytes" where
  "quote_char c =
     (if c = ch CHR 0x22 then [ch CHR 0x5C, ch CHR 0x22]
      else if c = ch CHR 0x5C then [ch CHR 0x5C, ch CHR 0x5C]
      else if c = 8 then [ch CHR 0x5C, ch CHR ''b'']
      else if c = 12 then [ch CHR 0x5C, ch CHR ''f'']
      else if c = 10 then [ch CHR 0x5C, ch CHR ''n'']
      else if c = 13 then [ch CHR 0x5C, ch CHR ''r'']
      else if c = 9 then [ch CHR 0x5C, ch CHR ''t'']
      else if isControlCharacter c
        then [ch CHR 0x5C, ch CHR ''u'', ch CHR ''0'', ch CHR ''0'', hex_upper (drop_bit 4 c), hex_upper (c AND 0xF)]
      else [c])"

definition valueToQuotedString :: "bytes \<Rightarrow> bytes" where
  "valueToQuotedString s =
     (let value = c_str s in
      if (\<forall>c \<in> set value. c \<notin> {ch CHR 0x22, ch CHR 0x5C, 8, 12, 10, 13, 9}) \<and> \<not> containsControlCharacter value
      then [ch CHR 0x22] @ value @ [ch CHR 0x22]
      else [ch CHR 0x22] @ concat (map quote_char value) @ [ch CHR 0x22])"

text \<open>Pieces with a comma between each two.\<close>

fun with_commas :: "bytes list \<Rightarrow> bytes" where
  "with_commas [] = []"
| "with_commas (p # ps) = p @ concat (map (\<lambda>q. ch CHR '','' # q) ps)"

fun writeValue :: "bool \<Rightarrow> (real \<Rightarrow> bytes) \<Rightarrow> json \<Rightarrow> bytes" where
  "writeValue yaml fmt nullValue = bytes_of ''null''"
| "writeValue yaml fmt (intValue i) = valueToString_int i"
| "writeValue yaml fmt (uintValue u) = valueToString_uint u"
| "writeValue yaml fmt (realValue r) = valueToString_double fmt r"
| "writeValue yaml fmt (stringValue s) = valueToQuotedString s"
| "writeValue yaml fmt (booleanValue b) = valueToString_bool b"
| "writeValue yaml fmt (arrayValue vs) =
     ch CHR ''['' # with_commas (map (writeValue yaml fmt) vs) @ [ch CHR '']'']"
| "writeValue yaml fmt (objectValue m) =
     ch CHR ''{'' # with_commas (map (\<lambda>(name, v). valueToQuotedString name @
       (if yaml then bytes_of '': '' else bytes_of '':'') @ writeValue yaml fmt v) m) @ [ch CHR ''}'']"

definition FastWriter_write :: "bool \<Rightarrow> (real \<Rightarrow> bytes) \<Rightarrow> json \<Rightarrow> bytes" where
  "FastWriter_write yaml fmt v = writeValue yaml fmt v @ [10]"

subsection \<open>Reading returns\<close>

lemma skipComments_length: "length (snd (skipComments s)) \<le> length s"
  and skipComments_shorter:
    "tk_type (fst (skipComments s)) \<noteq> tokenEndOfStream \<Longrightarrow> length (snd (skipComments s)) < length s"
  and skipComments_type: "tk_type (fst (skipComments s)) \<noteq> tokenComment"
proof -
  have "length (snd (skipComments s)) \<le> length s \<and> tk_type (fst (skipComments s)) \<noteq> tokenComment \<and>
      (tk_type (fst (skipComments s)) \<noteq> tokenEndOfStream \<longrightarrow> length (snd (skipComments s)) < length s)"
  proof (induction s rule: skipComments.induct)
    case (1 s)
    obtain t r where t: "readToken s = (t, r)" by fastforce
    with readToken_length [of s] have len: "length r \<le> length s" by simp
    have "skipComments s = (if tk_type t = tokenComment then skipComments r else (t, r))"
      by (subst skipComments.simps) (simp add: t)
    with 1 [OF t [symmetric] refl] len readToken_shorter [of s] t show ?case by (cases "tk_type t = tokenComment") auto
  qed
  then show "length (snd (skipComments s)) \<le> length s" "tk_type (fst (skipComments s)) \<noteq> tokenComment"
    "tk_type (fst (skipComments s)) \<noteq> tokenEndOfStream \<Longrightarrow> length (snd (skipComments s)) < length s" by auto
qed

lemma skipCommentTokens_shorter:
  "tk_type (fst (skipCommentTokens f s)) \<noteq> tokenEndOfStream \<Longrightarrow> length (snd (skipCommentTokens f s)) < length s"
  using skipComments_shorter readToken_shorter by (simp add: skipCommentTokens_def split: if_splits)

text \<open>A result within the fuel, and a rest that is shorter than what was read.\<close>

definition shortens :: "bytes \<Rightarrow> value_read \<Rightarrow> bool" where
  "shortens s r \<longleftrightarrow> (case r of NoFuel \<Rightarrow> False | Done (Some (v, s')) \<Rightarrow> length s' < length s | _ \<Rightarrow> True)"

lemma shortens_simps [simp]:
  "\<not> shortens s NoFuel" "shortens s Fault" "shortens s (Done None)"
  "shortens s (Done (Some (v, s'))) \<longleftrightarrow> length s' < length s"
  by (simp_all add: shortens_def)

lemma shortens_weaken: "shortens s r \<Longrightarrow> length s \<le> length s' \<Longrightarrow> shortens s' r"
  by (auto simp: shortens_def split: outcome.splits option.splits)

lemma shortens_bind:
  assumes "shortens s r" "\<And>v s'. r = Done (Some (v, s')) \<Longrightarrow> length s' < length s \<Longrightarrow> shortens t (g v s')"
  shows "shortens t (bind_outcome r (\<lambda>r. case r of None \<Rightarrow> Done None | Some (v, s') \<Rightarrow> g v s'))"
  using assms by (cases r) (auto split: option.split)

lemma readArray_loop_shortens:
  assumes "\<And>s'. length s' \<le> length s \<Longrightarrow> shortens s' (rv s')" "length s < n"
  shows "shortens s (readArray_loop rv n s vs)"
  using assms
proof (induction n arbitrary: s vs)
  case (Suc n)
  show ?case unfolding readArray_loop.simps
  proof (rule shortens_bind [OF Suc.prems(1) [OF order_refl]])
    fix v and s1 :: bytes assume s1: "length s1 < length s"
    obtain t s2 where t: "skipComments s1 = (t, s2)" by fastforce
    with skipComments_length [of s1] s1 have s2: "length s2 < length s" by simp
    then have "shortens s2 (readArray_loop rv n s2 (vs @ [v]))" using Suc.prems by (intro Suc.IH) auto
    with s2 shortens_weaken have "shortens s (readArray_loop rv n s2 (vs @ [v]))" by fastforce
    with s2 show "shortens s (let (token, s2) = skipComments s1;
        badTokenType = (tk_type token = tokenArraySeparator \<and> tk_type token = tokenArrayEnd) in
        if badTokenType then Done None
        else if tk_type token = tokenArrayEnd then Done (Some (arrayValue (vs @ [v]), s2))
        else readArray_loop rv n s2 (vs @ [v]))" by (simp add: t)
  qed
qed simp

lemma readArray_shortens:
  assumes "\<And>s'. length s' \<le> length s \<Longrightarrow> shortens s' (rv s')" "length s < n"
  shows "shortens s (readArray rv n s)"
proof (cases "fst (getNextChar (skipSpaces s)) = ch CHR '']''")
  case True
  then obtain r where "skipSpaces s = 93 # r" by (cases "skipSpaces s") auto
  with True skipSpaces_length [of s] show ?thesis
    by (simp add: readArray_def readToken_def skipSpaces_def token_of_def is_blank_def is_digit_def)
next
  case False
  have "shortens (skipSpaces s) (readArray_loop rv n (skipSpaces s) [])"
    using assms skipSpaces_length [of s] by (intro readArray_loop_shortens) auto
  from shortens_weaken [OF this skipSpaces_length] False show ?thesis by (simp add: readArray_def Let_def)
qed

lemma readComma_length: "readComma s = Some (c, s') \<Longrightarrow> length s' \<le> length s"
  using readToken_length [of s] skipComments_length [of "snd (readToken s)"]
  by (auto simp: readComma_def split: prod.splits if_splits)

lemma readObject_shortens:
  assumes "\<And>s'. length s' \<le> length s \<Longrightarrow> shortens s' (rv s')" "length s < n"
  shows "shortens s (readObject rv n s members name)"
  using assms
proof (induction n arbitrary: s members name)
  case (Suc n)
  obtain tn s1 where tn: "skipComments s = (tn, s1)" by fastforce
  obtain colon s2 where colon: "readToken s1 = (colon, s2)" by fastforce
  have s1: "length s1 < length s" if "tk_type tn \<noteq> tokenEndOfStream" using skipComments_shorter [of s] tn that by simp
  have s2: "length s2 \<le> length s1" using readToken_length [of s1] colon by simp
  have next_round: "shortens s (readObject rv n s' m' name')" if "length s' < length s" for s' m' name'
    using that Suc.prems by (intro shortens_weaken [OF Suc.IH]) auto
  have "shortens s (bind_outcome (rv s2) (\<lambda>r. case r of None \<Rightarrow> Done None | Some (v, s3) \<Rightarrow>
       (case readComma s3 of
          None \<Rightarrow> Done None
        | Some (comma, s4) \<Rightarrow>
            if tk_type comma = tokenObjectEnd then Done (Some (objectValue (map_put (c_str name') v members), s4))
            else readObject rv n s4 (map_put (c_str name') v members) name')))" if "tk_type tn = tokenString" for name'
  proof (rule shortens_bind)
    have l: "length s2 < length s" using s1 s2 that by simp
    then show "shortens s2 (rv s2)" using Suc.prems by simp
    fix v and s3 :: bytes assume s3: "length s3 < length s2"
    have "length s4 < length s" if "readComma s3 = Some (c, s4)" for c s4
      using readComma_length [OF that] l s3 by simp
    then show "shortens s (case readComma s3 of
          None \<Rightarrow> Done None
        | Some (comma, s4) \<Rightarrow>
            if tk_type comma = tokenObjectEnd then Done (Some (objectValue (map_put (c_str name') v members), s4))
            else readObject rv n s4 (map_put (c_str name') v members) name')"
      using next_round by (auto simp: Let_def split: option.split)
  qed
  then show ?case using s1 by (simp add: tn colon Let_def split: option.split)
qed simp

lemma readValue_shortens: "length s < n \<Longrightarrow> shortens s (readValue f scan n s)"
proof (induction n arbitrary: s)
  case (Suc n)
  obtain t s1 where t: "skipCommentTokens f s = (t, s1)" by fastforce
  have s1: "length s1 < length s" if "tk_type t \<noteq> tokenEndOfStream"
    using skipCommentTokens_shorter [of f s] t that by simp
  have rv: "shortens s' (readValue f scan n s')" if "length s' \<le> length s1" "length s1 < length s" for s'
    using that Suc.prems by (intro Suc.IH) simp
  have "shortens s (readObject (readValue f scan n) n s1 [] [])" if "length s1 < length s"
    using that Suc.prems rv by (intro shortens_weaken [OF readObject_shortens]) auto
  moreover have "shortens s (readArray (readValue f scan n) n s1)" if "length s1 < length s"
    using that Suc.prems rv by (intro shortens_weaken [OF readArray_shortens]) auto
  moreover have "shortens s (bind_outcome (decodeNumber scan x) (\<lambda>v. Done (map_option (\<lambda>v. (v, s1)) v)))"
    if "length s1 < length s" for x
    using that by (cases "decodeNumber scan x")
      (auto simp: decodeNumber_def decodeDouble_def shortens_def Let_def split: option.splits if_splits digits_result.splits)
  ultimately show ?case using s1
    by (cases "tk_type t") (auto simp: t shortens_def split: option.split)
qed simp

lemma parse_returns: "parse f scan document \<noteq> NoFuel"
  using readValue_shortens [of document "length document + 1" f scan]
  by (auto simp: parse_def shortens_def split: outcome.splits option.splits)

end
