(* ===== verification/JsonRoundtrip.thy ===== *)
theory JsonRoundtrip
  imports JsonText
begin

unbundle bit_operations_syntax

text \<open>
  What the writer of \<open>JsonText\<close> writes is read back by its reader: strings, numbers and tokens first, then values by
  induction over their structure. At the end, what the reader makes of texts that are not JSON.
\<close>

subsection \<open>Quoted strings\<close>

lemma isControlCharacter_cases: "isControlCharacter c \<Longrightarrow> \<exists>k \<in> set [1..<32]. c = of_nat k"
proof -
  assume c: "isControlCharacter c"
  then have "uint c = sint c"
    unfolding isControlCharacter_def by (subst uint_sint) (simp add: take_bit_eq_mod)
  with c have "0 < nat (uint c)" "nat (uint c) < 32" by (simp_all add: isControlCharacter_def nat_less_iff)
  then have "nat (uint c) \<in> set [1..<32]" by simp
  moreover have "c = of_nat (nat (uint c))" by simp
  ultimately show ?thesis by blast
qed

text \<open>A character as the writer escapes it: itself, an escape of two characters, or one of six.\<close>

lemma quote_char_cases:
  obtains "quote_char c = [c]" "c \<noteq> 34" "c \<noteq> 92"
  | e where "quote_char c = [92, e]" "e \<noteq> 117" "escape_char e = Some c"
  | k where "k \<in> set [1..<32]" "c = of_nat k"
      "quote_char c = [92, 117, 48, 48, hex_upper (drop_bit 4 c), hex_upper (c AND 0xF)]"
proof -
  consider "c = 34" | "c = 92" | "c = 8" | "c = 12" | "c = 10" | "c = 13" | "c = 9"
    | "c \<notin> {34, 92, 8, 12, 10, 13, 9}" "isControlCharacter c"
    | "c \<notin> {34, 92, 8, 12, 10, 13, 9}" "\<not> isControlCharacter c" by blast
  then show ?thesis
  proof cases
    case 8
    then show ?thesis using isControlCharacter_cases [of c] that(3) by (auto simp: quote_char_def simp del: set_upt upt_conv_Cons)
  next
    case 9
    then show ?thesis by (intro that(1)) (simp_all add: quote_char_def)
  qed (rule that(2), simp add: quote_char_def, simp, simp add: escape_char_def)+
qed

lemma hex_digits: "\<forall>k \<in> set [0..<16]. hex_value (hex_upper (of_nat k)) = Some (of_nat k) \<and>
    hex_upper (of_nat k) \<noteq> 34 \<and> hex_upper (of_nat k) \<noteq> 92"
  by code_simp

lemma control_halves: "\<forall>k \<in> set [1..<32]. drop_bit 4 (of_nat k :: byte) = of_nat (k div 16) \<and>
    of_nat k AND (0xF :: byte) = of_nat (k mod 16) \<and> codePointToUTF8 (of_nat k) = [of_nat k] \<and>
    (of_nat k :: u32) < 0xD800 \<and> of_nat (k div 16) * 16 + of_nat (k mod 16) = (of_nat k :: u32) \<and>
    hex_value 48 = Some 0"
  by code_simp

lemma unicode_digits_4:
  "hex_value a = Some p \<Longrightarrow> hex_value b = Some q \<Longrightarrow> hex_value c = Some r \<Longrightarrow> hex_value d = Some t \<Longrightarrow>
    unicode_digits 4 0 (a # b # c # d # s) = Some (((p * 16 + q) * 16 + r) * 16 + t, s)"
  by (simp add: eval_nat_numeral)

lemma control_unicode:
  assumes "k \<in> set [1..<32]" "c = (of_nat k :: byte)"
  shows "decodeUnicodeCodePoint (48 # 48 # hex_upper (drop_bit 4 c) # hex_upper (c AND 0xF) # s) = Some (of_nat k, s)"
    and "codePointToUTF8 (of_nat k) = [c]"
    and "hex_upper (drop_bit 4 c) \<noteq> 34 \<and> hex_upper (drop_bit 4 c) \<noteq> 92"
    and "hex_upper (c AND 0xF) \<noteq> 34 \<and> hex_upper (c AND 0xF) \<noteq> 92"
proof -
  have d: "k div 16 \<in> set [0..<16]" "k mod 16 \<in> set [0..<16]" using assms(1) by auto
  note h = bspec [OF control_halves assms(1)]
  have c: "drop_bit 4 c = of_nat (k div 16)" "c AND 0xF = of_nat (k mod 16)" using h assms(2) by simp_all
  have u: "unicode_digits 4 0 (48 # 48 # hex_upper (drop_bit 4 c) # hex_upper (c AND 0xF) # s) = Some (of_nat k, s)"
    unfolding c using h unicode_digits_4 [of 48 0 48 0 "hex_upper (of_nat (k div 16))" "of_nat (k div 16)"
      "hex_upper (of_nat (k mod 16))" "of_nat (k mod 16)" s] bspec [OF hex_digits d(1)] bspec [OF hex_digits d(2)] by auto
  moreover have "\<not> (0xD800 \<le> (of_nat k :: u32))" using h by (simp add: not_le del: of_nat_numeral)
  ultimately show "decodeUnicodeCodePoint (48 # 48 # hex_upper (drop_bit 4 c) # hex_upper (c AND 0xF) # s) = Some (of_nat k, s)"
    by (simp add: decodeUnicodeCodePoint_def decodeUnicodeEscapeSequence_def)
  show "codePointToUTF8 (of_nat k) = [c]" using h assms(2) by simp
  show "hex_upper (drop_bit 4 c) \<noteq> 34 \<and> hex_upper (drop_bit 4 c) \<noteq> 92"
    "hex_upper (c AND 0xF) \<noteq> 34 \<and> hex_upper (c AND 0xF) \<noteq> 92"
    using bspec [OF hex_digits d(1)] bspec [OF hex_digits d(2)] unfolding c by auto
qed

lemma readString_quoted: "readString c (concat (map quote_char s) @ 34 # rest) = (True, rest)"
proof (induction s arbitrary: c)
  case (Cons x s)
  show ?case
  proof (cases x rule: quote_char_cases)
    case (3 k)
    with control_unicode(3,4) [OF 3(1,2)] Cons show ?thesis by simp
  qed (simp_all add: Cons)
qed simp

lemma decodeString_loop_quoted: "decodeString_loop d (concat (map quote_char s)) = Some (d @ s)"
proof (induction s arbitrary: d)
  case Nil
  then show ?case by (subst decodeString_loop.simps) simp
next
  case (Cons x s)
  show ?case
  proof (cases x rule: quote_char_cases)
    case 1
    then show ?thesis by (subst decodeString_loop.simps) (simp add: Cons)
  next
    case (2 e)
    then show ?thesis by (subst decodeString_loop.simps) (simp add: Cons)
  next
    case (3 k)
    then show ?thesis
      using control_unicode(1) [OF 3(1,2), of "concat (map quote_char s)"] control_unicode(2) [OF 3(1,2)]
      by (subst decodeString_loop.simps) (simp add: Cons)
  qed
qed

lemma c_str_id: "0 \<notin> set s \<Longrightarrow> c_str s = s"
  unfolding c_str_def by (rule takeWhile_eq_all_conv [THEN iffD2]) auto

lemma quoted_eq: "0 \<notin> set s \<Longrightarrow> valueToQuotedString s = 34 # concat (map quote_char s) @ [34]"
proof -
  have "quote_char c = [c]" if "c \<in> set s" "\<forall>c \<in> set s. c \<notin> {34, 92, 8, 12, 10, 13, 9}" "\<not> containsControlCharacter s" for c
    using that by (auto simp: quote_char_def containsControlCharacter_def)
  then have "concat (map quote_char s) = s"
    if "\<forall>c \<in> set s. c \<notin> {34, 92, 8, 12, 10, 13, 9}" "\<not> containsControlCharacter s"
    using that by (induction s) (auto simp: containsControlCharacter_def)
  moreover assume "0 \<notin> set s"
  ultimately show ?thesis by (simp add: valueToQuotedString_def Let_def c_str_id)
qed

lemma decodeString_quoted: "0 \<notin> set s \<Longrightarrow> decodeString (valueToQuotedString s) = Some s"
  using decodeString_loop_quoted [of "[]" s] by (simp add: decodeString_def quoted_eq butlast_append)

subsection \<open>Tokens of the writer's text\<close>

lemma skipSpaces_simps [simp]:
  "is_blank c \<Longrightarrow> skipSpaces (c # s) = skipSpaces s" "\<not> is_blank c \<Longrightarrow> skipSpaces (c # s) = c # s"
  by (simp_all add: skipSpaces_def)

lemma readToken_Cons:
  "\<not> is_blank c \<Longrightarrow> readToken (c # s) =
     (let (ty, ok, s') = token_of c s in
      (\<lparr>tk_type = if ok then ty else tokenError, tk_text = take (Suc (length s) - length s') (c # s)\<rparr>, s'))"
  by (simp add: readToken_def)

lemma readToken_blank: "is_blank c \<Longrightarrow> readToken (c # s) = readToken s"
  by (simp add: readToken_def)

lemma readToken_marks:
  "readToken (123 # s) = (\<lparr>tk_type = tokenObjectBegin, tk_text = [123]\<rparr>, s)"
  "readToken (125 # s) = (\<lparr>tk_type = tokenObjectEnd, tk_text = [125]\<rparr>, s)"
  "readToken (91 # s) = (\<lparr>tk_type = tokenArrayBegin, tk_text = [91]\<rparr>, s)"
  "readToken (93 # s) = (\<lparr>tk_type = tokenArrayEnd, tk_text = [93]\<rparr>, s)"
  "readToken (44 # s) = (\<lparr>tk_type = tokenArraySeparator, tk_text = [44]\<rparr>, s)"
  "readToken (58 # s) = (\<lparr>tk_type = tokenMemberSeparator, tk_text = [58]\<rparr>, s)"
  by (simp_all add: readToken_Cons is_blank_def token_of_def is_digit_def)

lemma readToken_words:
  "readToken (bytes_of ''null'' @ s) = (\<lparr>tk_type = tokenNull, tk_text = bytes_of ''null''\<rparr>, s)"
  "readToken (bytes_of ''true'' @ s) = (\<lparr>tk_type = tokenTrue, tk_text = bytes_of ''true''\<rparr>, s)"
  "readToken (bytes_of ''false'' @ s) = (\<lparr>tk_type = tokenFalse, tk_text = bytes_of ''false''\<rparr>, s)"
  by (simp_all add: readToken_Cons is_blank_def token_of_def is_digit_def match_text_def)

lemma readToken_quoted:
  assumes "0 \<notin> set k"
  shows "readToken (valueToQuotedString k @ s) = (\<lparr>tk_type = tokenString, tk_text = valueToQuotedString k\<rparr>, s)"
  using readString_quoted [of 0 k s]
  by (simp add: quoted_eq [OF assms] readToken_Cons is_blank_def token_of_def is_digit_def)

definition ends_number :: "bytes \<Rightarrow> bool" where
  "ends_number s \<longleftrightarrow> s = [] \<or> \<not> number_char (hd s)"

lemma readToken_number:
  assumes "is_digit c \<or> c = 45" "\<forall>x \<in> set t. number_char x" "ends_number s"
  shows "readToken (c # t @ s) = (\<lparr>tk_type = tokenNumber, tk_text = c # t\<rparr>, s)"
proof -
  have c: "is_digit c \<Longrightarrow> c \<noteq> 123 \<and> c \<noteq> 125 \<and> c \<noteq> 91 \<and> c \<noteq> 93 \<and> c \<noteq> 34 \<and> c \<noteq> 47 \<and> \<not> is_blank c"
    by (auto simp: is_digit_def is_blank_def)
  have "readNumber (t @ s) = s" using assms(2,3) by (cases s) (auto simp: readNumber_def ends_number_def dropWhile_append)
  with c assms(1) show ?thesis by (auto simp: readToken_Cons token_of_def is_blank_def)
qed

lemma skipComments_token: "tk_type (fst (readToken s)) \<noteq> tokenComment \<Longrightarrow> skipComments s = readToken s"
  by (subst skipComments.simps) (auto split: prod.split)

lemma skipCommentTokens_token: "tk_type (fst (readToken s)) \<noteq> tokenComment \<Longrightarrow> skipCommentTokens f s = readToken s"
  by (simp add: skipCommentTokens_def skipComments_token)

lemmas next_token = skipComments_token skipCommentTokens_token readToken_marks readToken_words readToken_quoted

subsection \<open>Numbers of the writer\<close>

lemma uintToString_digits: "uintToString n current = nat_digits n @ current"
proof (induction n arbitrary: current rule: less_induct)
  case (less n)
  show ?case
  proof (cases "n < 10")
    case True
    then show ?thesis by (subst uintToString.simps, subst nat_digits.simps) (simp add: add.commute)
  next
    case False
    then show ?thesis
      by (subst uintToString.simps, subst nat_digits.simps) (simp add: less.IH add.commute div_eq_0_iff)
  qed
qed

lemma number_loop_append:
  "number_loop t v xs = digits_value w \<Longrightarrow> number_loop t v (xs @ ys) = number_loop t w ys"
  by (induction xs arbitrary: v) (auto split: if_splits)

lemma number_loop_digits: "0 < t \<Longrightarrow> n div 10 < t \<Longrightarrow> number_loop t 0 (nat_digits n) = digits_value n"
proof (induction n rule: less_induct)
  case (less n)
  show ?case
  proof (cases "n < 10")
    case True
    with less.prems uint_digit [OF True] show ?thesis by (subst nat_digits.simps) (simp add: is_digit_def)
  next
    case False
    have d: "n mod 10 < 10" by simp
    have "number_loop t 0 (nat_digits (n div 10)) = digits_value (n div 10)"
      using False less.prems by (intro less.IH) auto
    from number_loop_append [OF this, of "[of_nat (48 + n mod 10)]"] False less.prems uint_digit [OF d]
    show ?thesis by (subst nat_digits.simps) (simp add: is_digit_def)
  qed
qed

lemma decodeNumber_digits:
  assumes "n div 10 < 429496729"
  shows "decodeNumber scan (nat_digits n) =
    Done (Some (if int n \<le> maxInt then intValue (int n) else uintValue (int n)))"
proof -
  have d: "c \<notin> {46, 101, 69, 43, 45}" if "c \<in> set (nat_digits n)" for c
    using nat_digits_digits [of n] that by (auto simp: is_digit_def)
  have "45 \<notin> set (tl (nat_digits n))" using d by (meson insertCI list.set_sel(2) nat_digits_nonempty)
  moreover have "take 1 (nat_digits n) \<noteq> [45]" using d by (cases "nat_digits n") auto
  moreover have "number_loop 429496729 0 (nat_digits n) = digits_value n"
    using assms by (intro number_loop_digits) simp_all
  moreover have "\<not> (\<exists>c \<in> set (nat_digits n). c \<in> {46, 101, 69, 43})" using d by blast
  ultimately show ?thesis by (simp add: decodeNumber_def maxUInt_def)
qed

lemma decodeNumber_negative:
  assumes "n div 10 < 214748364"
  shows "decodeNumber scan (45 # nat_digits n) = Done (Some (intValue (- int n)))"
proof -
  have d: "c \<notin> {46, 101, 69, 43, 45}" if "c \<in> set (nat_digits n)" for c
    using nat_digits_digits [of n] that by (auto simp: is_digit_def)
  then have "45 \<notin> set (nat_digits n)" "\<not> (\<exists>c \<in> set (nat_digits n). c \<in> {46, 101, 69, 43})" by blast+
  moreover have "number_loop 214748364 0 (nat_digits n) = digits_value n"
    using assms by (intro number_loop_digits) simp_all
  ultimately show ?thesis by (simp add: decodeNumber_def minInt_def)
qed

lemma valueToString_int_itostr: "- (2 ^ 31) < i \<Longrightarrow> i < 2 ^ 31 \<Longrightarrow> valueToString_int i = itostr i"
  by (simp add: valueToString_int_def itostr_def uintToString_digits i32_id Let_def)

lemma decodeNumber_int:
  assumes "-2147483639 \<le> i" "i \<le> maxInt"
  shows "decodeNumber scan (valueToString_int i) = Done (Some (intValue i))"
proof (cases "i < 0")
  case True
  with assms(1) have "nat (- i) div 10 < 214748364" by (simp add: less_mult_imp_div_less nat_less_iff)
  from decodeNumber_negative [OF this] True assms show ?thesis
    by (simp add: valueToString_int_itostr itostr_def maxInt_def)
next
  case False
  with assms(2) have "nat i div 10 < 429496729" by (simp add: less_mult_imp_div_less nat_less_iff maxInt_def)
  from decodeNumber_digits [OF this] False assms show ?thesis
    by (simp add: valueToString_int_itostr itostr_def maxInt_def)
qed

lemma decodeNumber_uint:
  assumes "maxInt < u" "u \<le> 4294967289"
  shows "decodeNumber scan (valueToString_uint u) = Done (Some (uintValue u))"
proof -
  have "nat u div 10 < 429496729" using assms(2) by (simp add: less_mult_imp_div_less nat_less_iff)
  from decodeNumber_digits [OF this] assms show ?thesis
    by (simp add: valueToString_uint_def uintToString_digits maxInt_def)
qed

lemma readToken_digits:
  assumes "ends_number s"
  shows "readToken (nat_digits n @ s) = (\<lparr>tk_type = tokenNumber, tk_text = nat_digits n\<rparr>, s)"
proof -
  obtain c t where c: "nat_digits n = c # t" using nat_digits_nonempty by (cases "nat_digits n") auto
  with nat_digits_digits [of n] have "is_digit c" "\<forall>x \<in> set t. number_char x" by (auto simp: number_char_def)
  with readToken_number [of c t s] assms show ?thesis by (simp add: c)
qed

lemma readToken_int:
  assumes "- (2 ^ 31) < i" "i < 2 ^ 31" "ends_number s"
  shows "readToken (valueToString_int i @ s) = (\<lparr>tk_type = tokenNumber, tk_text = valueToString_int i\<rparr>, s)"
proof (cases "i < 0")
  case True
  have "\<forall>x \<in> set (nat_digits (nat (- i))). number_char x"
    using nat_digits_digits by (auto simp: number_char_def)
  with readToken_number [of 45 _ s] True assms show ?thesis by (simp add: valueToString_int_itostr itostr_def)
qed (use assms in \<open>simp add: valueToString_int_itostr itostr_def readToken_digits\<close>)

lemma readToken_uint:
  "ends_number s \<Longrightarrow>
    readToken (valueToString_uint u @ s) = (\<lparr>tk_type = tokenNumber, tk_text = valueToString_uint u\<rparr>, s)"
  by (simp add: valueToString_uint_def uintToString_digits readToken_digits)

subsection \<open>What is written is read back\<close>

text \<open>
  The values of which this holds: numbers are integers, more than a few away from the ends of the 32-bit ranges (the reader takes the
  others for floating-point numbers), strings and names have no character 0, and a member occurs once.
\<close>

fun text_ok :: "json \<Rightarrow> bool" where
  "text_ok nullValue \<longleftrightarrow> True"
| "text_ok (intValue i) \<longleftrightarrow> -2147483639 \<le> i \<and> i \<le> maxInt"
| "text_ok (uintValue u) \<longleftrightarrow> maxInt < u \<and> u \<le> 4294967289"
| "text_ok (realValue r) \<longleftrightarrow> False"
| "text_ok (stringValue s) \<longleftrightarrow> 0 \<notin> set s"
| "text_ok (booleanValue b) \<longleftrightarrow> True"
| "text_ok (arrayValue vs) \<longleftrightarrow> (\<forall>v \<in> set vs. text_ok v)"
| "text_ok (objectValue m) \<longleftrightarrow> map_ok m \<and> (\<forall>(k, v) \<in> set m. 0 \<notin> set k \<and> text_ok v)"

text \<open>\<open>rv\<close> reads back the text of \<open>v\<close> from any document of less than \<open>n\<close> characters.\<close>

definition reads_back :: "(bytes \<Rightarrow> value_read) \<Rightarrow> (json \<Rightarrow> bytes) \<Rightarrow> nat \<Rightarrow> json \<Rightarrow> bool" where
  "reads_back rv w n v \<longleftrightarrow>
     (\<forall>s. ends_number s \<longrightarrow> length (w v @ s) < n \<longrightarrow> rv (w v @ s) = Done (Some (v, s)))"

lemma with_commas_Cons: "with_commas (p # ps) = p @ (if ps = [] then [] else 44 # with_commas ps)"
  by (cases ps) simp_all

lemma with_commas_single [simp]: "with_commas [p] = p"
  by simp

declare with_commas.simps(2) [simp del]

lemma ends_number_marks [simp]: "ends_number (44 # s)" "ends_number (93 # s)" "ends_number (125 # s)" "ends_number (10 # s)"
  by (simp_all add: ends_number_def number_char_def is_digit_def)

lemma readArray_loop_written:
  assumes "vs \<noteq> []" "\<And>v. v \<in> set vs \<Longrightarrow> reads_back rv w k v" "length (with_commas (map w vs) @ 93 # s) < k" "length vs \<le> n"
  shows "readArray_loop rv n (with_commas (map w vs) @ 93 # s) acc = Done (Some (arrayValue (acc @ vs), s))"
  using assms
proof (induction vs arbitrary: n acc)
  case (Cons v vs)
  then obtain n' where n: "n = Suc n'" by (cases n) auto
  have v: "reads_back rv w k v" by (rule Cons.prems) simp
  show ?case
  proof (cases "vs = []")
    case True
    with v Cons.prems(3) have "rv (w v @ 93 # s) = Done (Some (v, 93 # s))" by (simp add: reads_back_def)
    with True show ?thesis by (simp add: n next_token)
  next
    case False
    let ?r = "with_commas (map w vs) @ 93 # s"
    have "rv (w v @ 44 # ?r) = Done (Some (v, 44 # ?r))"
      using v Cons.prems(3) False by (simp add: reads_back_def with_commas_Cons)
    moreover have "readArray_loop rv n' ?r (acc @ [v]) = Done (Some (arrayValue ((acc @ [v]) @ vs), s))"
      using Cons.prems False by (intro Cons.IH) (auto simp: with_commas_Cons n)
    ultimately show ?thesis using False by (simp add: n next_token with_commas_Cons)
  qed
qed simp

lemma readComma_written: "readComma (44 # s) = Some (\<lparr>tk_type = tokenArraySeparator, tk_text = [44]\<rparr>, s)"
  "readComma (125 # s) = Some (\<lparr>tk_type = tokenObjectEnd, tk_text = [125]\<rparr>, s)"
  by (simp_all add: readComma_def next_token)

definition member_text :: "bool \<Rightarrow> (json \<Rightarrow> bytes) \<Rightarrow> bytes \<times> json \<Rightarrow> bytes" where
  "member_text yaml w = (\<lambda>(name, v). valueToQuotedString name @
     (if yaml then bytes_of '': '' else bytes_of '':'') @ w v)"

lemma readObject_written:
  assumes "m \<noteq> []" "\<And>e. e \<in> set m \<Longrightarrow> reads_back rv w k (snd e) \<and> 0 \<notin> set (fst e)"
    "length (with_commas (map (member_text yaml w) m) @ 125 # s) < k" "length m \<le> n"
    "\<And>t. rv (32 # t) = rv t"
  shows "readObject rv n (with_commas (map (member_text yaml w) m) @ 125 # s) acc name =
    Done (Some (objectValue (fold (\<lambda>(k, v). map_put k v) m acc), s))"
  using assms(1-4)
proof (induction m arbitrary: n acc name)
  case (Cons e m)
  obtain key v where e: "e = (key, v)" by fastforce
  obtain n' where n: "n = Suc n'" using Cons.prems by (cases n) auto
  have v: "reads_back rv w k v" and key: "0 \<notin> set key" using Cons.prems(2) [of e] e by simp_all
  define sp where "sp = (if yaml then [32] else [] :: bytes)"
  have sep: "(if yaml then bytes_of '': '' else bytes_of '':'') = 58 # sp" by (simp add: sp_def)
  have rv_sp: "rv (sp @ t) = rv t" for t using assms(5) by (simp add: sp_def)
  have first: "readObject rv (Suc n') (valueToQuotedString key @ 58 # sp @ w v @ c # r) acc name =
      (case readComma (c # r) of
         None \<Rightarrow> Done None
       | Some (comma, s4) \<Rightarrow>
           if tk_type comma = tokenObjectEnd then Done (Some (objectValue (map_put key v acc), s4))
           else readObject rv n' s4 (map_put key v acc) key)"
    if "ends_number (c # r)" "length (w v @ c # r) < k" for c r
  proof -
    have "rv (w v @ c # r) = Done (Some (v, c # r))" using v that by (simp add: reads_back_def)
    with key show ?thesis by (simp add: next_token decodeString_quoted rv_sp c_str_id split: option.split)
  qed
  show ?case
  proof (cases "m = []")
    case True
    with first [of 125 s] Cons.prems(3) show ?thesis
      by (simp add: e n member_text_def sep readComma_written del: readObject.simps)
  next
    case False
    let ?r = "with_commas (map (member_text yaml w) m) @ 125 # s"
    have "readObject rv n' ?r (map_put key v acc) key = Done (Some (objectValue (fold (\<lambda>(k, v). map_put k v) m (map_put key v acc)), s))"
      using Cons.prems False by (intro Cons.IH) (auto simp: with_commas_Cons n)
    with first [of 44 ?r] Cons.prems(3) False show ?thesis
      by (simp add: e n member_text_def sep readComma_written with_commas_Cons del: readObject.simps)
  qed
qed simp

lemma readValue_blank: "is_blank c \<Longrightarrow> readValue f scan n (c # s) = readValue f scan n s"
proof (induction n)
  case (Suc n)
  have "skipComments (c # s) = skipComments s"
    using Suc.prems by (subst (1 2) skipComments.simps) (simp add: readToken_blank)
  with Suc.prems show ?case by (simp add: skipCommentTokens_def readToken_blank)
qed simp

text \<open>A text starts with a character that is no blank and does not close an array.\<close>

lemma written_first: "text_ok v \<Longrightarrow> \<exists>c s. writeValue yaml fmt v = c # s \<and> \<not> is_blank c \<and> c \<noteq> 93"
proof -
  have d: "\<exists>c s. nat_digits n = c # s \<and> \<not> is_blank c \<and> c \<noteq> 93" for n
    using nat_digits_digits [of n] nat_digits_nonempty [of n]
    by (cases "nat_digits n") (auto simp: is_digit_def is_blank_def)
  then have "\<exists>c s. itostr i = c # s \<and> \<not> is_blank c \<and> c \<noteq> 93" for i by (simp add: itostr_def is_blank_def)
  moreover assume "text_ok v"
  ultimately show ?thesis using d
    by (cases v) (auto simp: valueToString_int_itostr maxInt_def valueToString_uint_def uintToString_digits
        quoted_eq valueToString_bool_def is_blank_def)
qed

lemma readArray_written:
  assumes "\<And>v. v \<in> set vs \<Longrightarrow> reads_back rv w k v" "length (with_commas (map w vs) @ 93 # s) < k" "length vs \<le> n"
    "\<And>v. v \<in> set vs \<Longrightarrow> \<exists>c t. w v = c # t \<and> \<not> is_blank c \<and> c \<noteq> 93"
  shows "readArray rv n (with_commas (map w vs) @ 93 # s) = Done (Some (arrayValue vs, s))"
proof (cases vs)
  case Nil
  then show ?thesis by (simp add: readArray_def is_blank_def readToken_marks)
next
  case (Cons v vs')
  with assms(4) [of v] obtain c t where "w v = c # t" "\<not> is_blank c" "c \<noteq> 93" by auto
  then have "readArray rv n (with_commas (map w vs) @ 93 # s) = readArray_loop rv n (with_commas (map w vs) @ 93 # s) []"
    by (simp add: readArray_def Cons with_commas_Cons)
  with readArray_loop_written [of vs rv w k s n "[]"] assms(1-3) Cons show ?thesis by simp
qed

lemma length_with_commas: "(\<And>x. x \<in> set xs \<Longrightarrow> w x \<noteq> []) \<Longrightarrow> length xs \<le> length (with_commas (map w xs))"
proof (induction xs)
  case (Cons x xs)
  then have "length xs \<le> length (with_commas (map w xs))" "w x \<noteq> []" by auto
  then show ?case by (cases "w x") (auto simp: with_commas_Cons)
qed simp

lemma written_reads_back: "text_ok v \<Longrightarrow> reads_back (readValue f scan n) (writeValue yaml fmt) n v"
proof (induction v arbitrary: n)
  case (arrayValue vs)
  let ?w = "writeValue yaml fmt"
  show ?case unfolding reads_back_def
  proof (intro allI impI)
    fix s assume s: "ends_number s" "length (?w (arrayValue vs) @ s) < n"
    then obtain n' where n: "n = Suc n'" by (cases n) auto
    have first: "\<exists>c t. ?w v = c # t \<and> \<not> is_blank c \<and> c \<noteq> 93" if "v \<in> set vs" for v
      using that arrayValue.prems by (intro written_first) simp
    then have "length vs \<le> length (with_commas (map ?w vs))" by (intro length_with_commas) fastforce
    with s n have "readArray (readValue f scan n') n' (with_commas (map ?w vs) @ 93 # s) = Done (Some (arrayValue vs, s))"
      using arrayValue first by (intro readArray_written) auto
    then show "readValue f scan n (?w (arrayValue vs) @ s) = Done (Some (arrayValue vs, s))"
      by (simp add: n next_token)
  qed
next
  case (objectValue m)
  let ?w = "writeValue yaml fmt"
  have m: "?w (objectValue m) = 123 # with_commas (map (member_text yaml ?w) m) @ [125]"
    by (simp add: member_text_def case_prod_unfold)
  have ok: "map_ok m" "\<And>e. e \<in> set m \<Longrightarrow> 0 \<notin> set (fst e) \<and> text_ok (snd e)"
    using objectValue.prems by auto
  show ?case unfolding reads_back_def m
  proof (intro allI impI)
    fix s assume s: "ends_number s" "length ((123 # with_commas (map (member_text yaml ?w) m) @ [125]) @ s) < n"
    then obtain n' where n: "n = Suc n'" by (cases n) auto
    have len: "length m \<le> length (with_commas (map (member_text yaml ?w) m))"
      using ok(2) by (intro length_with_commas) (auto simp: member_text_def)
    have "readObject (readValue f scan n') n' (with_commas (map (member_text yaml ?w) m) @ 125 # s) [] [] = Done (Some (objectValue m, s))"
    proof (cases "m = []")
      case True
      with s n show ?thesis by (cases n') (simp_all add: next_token)
    next
      case False
      have "reads_back (readValue f scan n') ?w n' (snd e)" if "e \<in> set m" for e
        using that ok(2) by (intro objectValue.IH [of e "snd e"]) (auto simp: snds.simps)
      then show ?thesis
        using s n len False ok
        by (subst readObject_written [where k = n']) (auto simp: map_put_all readValue_blank is_blank_def)
    qed
    then show "readValue f scan n ((123 # with_commas (map (member_text yaml ?w) m) @ [125]) @ s) = Done (Some (objectValue m, s))"
      by (simp add: n next_token)
  qed
next
  case (intValue i)
  then show ?case
    by (cases n) (auto simp: reads_back_def skipCommentTokens_token readToken_int decodeNumber_int maxInt_def)
next
  case (uintValue u)
  then show ?case
    by (cases n) (auto simp: reads_back_def skipCommentTokens_token readToken_uint decodeNumber_uint)
next
  case (stringValue b)
  then show ?case
    by (cases n) (auto simp: reads_back_def next_token decodeString_quoted c_str_id)
next
  case (booleanValue b)
  then show ?case
    by (cases n) (auto simp: reads_back_def valueToString_bool_def next_token simp del: bytes_of_simps)
next
  case nullValue
  then show ?case
    by (cases n) (auto simp: reads_back_def next_token simp del: bytes_of_simps)
qed simp

text \<open>
  What follows a value is not looked at, so any rest of a line may.
\<close>

lemma parse_prefix:
  assumes "text_ok v" "strictRoot f \<Longrightarrow> isArray v \<or> isObject v" "ends_number s"
  shows "parse f scan (writeValue yaml fmt v @ s) = Done (Some v)"
proof -
  have "readValue f scan (length (writeValue yaml fmt v @ s) + 1) (writeValue yaml fmt v @ s) = Done (Some (v, s))"
    using written_reads_back [OF assms(1), of f scan "length (writeValue yaml fmt v @ s) + 1" yaml fmt] assms(3)
    by (simp add: reads_back_def)
  then show ?thesis using assms(2) by (auto simp: parse_def)
qed



subsection \<open>Where the reader differs from JSON\<close>

text \<open>
  Between the elements of an array any token will do for a comma. So \<^verbatim>\<open>[1:2]\<close> has two elements, and of
  \<^verbatim>\<open>[1 2 3]\<close> the second is lost.
\<close>

lemma array_separator_unchecked:
  assumes "text_ok v" "text_ok v'" "readToken (sep @ writeValue yaml fmt v' @ [93]) = (t, writeValue yaml fmt v' @ [93])"
    "tk_type t \<notin> {tokenComment, tokenArrayEnd}" "ends_number (sep @ writeValue yaml fmt v' @ [93])"
  shows "parse f scan (91 # writeValue yaml fmt v @ sep @ writeValue yaml fmt v' @ [93]) = Done (Some (arrayValue [v, v']))"
proof -
  let ?w = "writeValue yaml fmt" let ?s = "?w v @ sep @ ?w v' @ [93]"
  obtain c r where c: "?w v = c # r" "\<not> is_blank c" "c \<noteq> 93" using written_first [OF assms(1)] by metis
  obtain c' r' where c': "?w v' = c' # r'" using written_first [OF assms(2)] by metis
  define n where "n = length ?s"
  have n: "\<exists>k. n = Suc (Suc k)" using c c' by (simp add: n_def)
  have "readValue f scan (Suc n) ?s = Done (Some (v, sep @ ?w v' @ [93]))"
    using written_reads_back [OF assms(1), of f scan "Suc n" yaml fmt] assms(5) by (simp add: reads_back_def n_def)
  moreover have "readValue f scan (Suc n) (?w v' @ [93]) = Done (Some (v', [93]))"
    using written_reads_back [OF assms(2), of f scan "Suc n" yaml fmt] by (simp add: reads_back_def n_def)
  moreover have "skipComments (sep @ ?w v' @ [93]) = (t, ?w v' @ [93])"
    using assms(3,4) by (subst skipComments_token) auto
  ultimately have "readArray_loop (readValue f scan (Suc n)) (Suc n) ?s [] = Done (Some (arrayValue [v, v'], []))"
    using n assms(4) by (auto simp: next_token simp del: readValue.simps)
  with c have "readArray (readValue f scan (Suc n)) (Suc n) ?s = Done (Some (arrayValue [v, v'], []))"
    by (simp add: readArray_def del: readArray_loop.simps readValue.simps)
  then have "readValue f scan (Suc (Suc n)) (91 # ?s) = Done (Some (arrayValue [v, v'], []))"
    by (subst readValue.simps) (simp add: next_token del: readValue.simps)
  then show ?thesis by (simp add: parse_def n_def)
qed

text \<open>
  A number of exactly 32 characters that is not a small integer is written with its end mark into a buffer of 32.
\<close>

lemma number_of_32_faults:
  assumes "is_digit c" "\<forall>x \<in> set t. number_char x" "46 \<in> set t" "length t = 31" "ends_number s"
  shows "parse f scan (c # t @ s) = Fault"
proof -
  have "readValue f scan (Suc n) (c # t @ s) = Fault" for n
    using assms readToken_number [of c t s]
    by (auto simp: skipCommentTokens_token decodeNumber_def decodeDouble_def)
  then show ?thesis by (simp only: parse_def Suc_eq_plus1 [symmetric] bind_outcome.simps)
qed

text \<open>The smallest integers and the largest unsigned ones come back as floating-point numbers.\<close>

lemma number_loop_large: "0 < t \<Longrightarrow> t \<le> n div 10 \<Longrightarrow> number_loop t 0 (nat_digits n) = digits_large"
proof (induction n rule: less_induct)
  case (less n)
  then have "\<not> n < 10" by auto
  have d: "is_digit (of_nat (48 + n mod 10))" using uint_digit [of "n mod 10"] by (simp add: is_digit_def)
  show ?case
  proof (cases "n div 10 div 10 < t")
    case True
    then have "number_loop t 0 (nat_digits (n div 10)) = digits_value (n div 10)"
      using less.prems by (intro number_loop_digits)
    from number_loop_append [OF this, of "[of_nat (48 + n mod 10)]"] d less.prems \<open>\<not> n < 10\<close> show ?thesis
      by (subst nat_digits.simps) simp
  next
    case False
    have "number_loop t v xs = digits_large \<Longrightarrow> number_loop t v (xs @ ys) = digits_large" for v xs ys
      by (induction xs arbitrary: v) (auto split: if_splits)
    moreover have "number_loop t 0 (nat_digits (n div 10)) = digits_large"
      using False less.prems \<open>\<not> n < 10\<close> by (intro less.IH) auto
    ultimately show ?thesis using \<open>\<not> n < 10\<close> by (subst nat_digits.simps) simp
  qed
qed

lemma smallest_ints_become_real:
  assumes "- (2 ^ 31) < i" "i \<le> -2147483640"
  shows "decodeNumber scan (valueToString_int i) = Done (map_option realValue (scan (valueToString_int i)))"
proof -
  have d: "c \<notin> {46, 101, 69, 43, 45}" if "c \<in> set (nat_digits (nat (- i)))" for c
    using nat_digits_digits [of "nat (- i)"] that by (auto simp: is_digit_def)
  then have "45 \<notin> set (nat_digits (nat (- i)))" "\<not> (\<exists>c \<in> set (nat_digits (nat (- i))). c \<in> {46, 101, 69, 43})" by blast+
  moreover have "nat (- i) < 10 ^ 10" using assms by (simp add: nat_less_iff)
  then have "length (nat_digits (nat (- i))) \<le> 10" using length_nat_digits [of "nat (- i)" 10] by simp
  moreover have "214748364 \<le> nat (- i) div 10" using assms by (simp add: div_greater_zero_iff less_eq_div_iff_mult_less_eq le_nat_iff)
  then have "number_loop 214748364 0 (nat_digits (nat (- i))) = digits_large" by (intro number_loop_large) simp_all
  ultimately show ?thesis using assms
    by (simp add: valueToString_int_itostr itostr_def decodeNumber_def minInt_def decodeDouble_def)
qed

text \<open>Members and elements that are no JSON: a lone minus is 0, and a comma may end an object whose last name is empty.\<close>

lemma lone_minus: "decodeNumber scan [45] = Done (Some (intValue 0))"
  by (simp add: decodeNumber_def)

lemma comma_after_empty_name:
  "readObject rv (Suc (Suc n)) (34 # 34 # 58 # writeValue yaml fmt v @ 44 # 125 # s) m name =
    Done (Some (objectValue (map_put [] v m), s))"
  if "rv (writeValue yaml fmt v @ 44 # 125 # s) = Done (Some (v, 44 # 125 # s))"
proof -
  have q: "readToken (34 # 34 # t) = (\<lparr>tk_type = tokenString, tk_text = [34, 34]\<rparr>, t)" for t
    using readToken_quoted [of "[]" t] by (simp add: quoted_eq)
  have "decodeString [34, 34] = Some []" using decodeString_quoted [of "[]"] by (simp add: quoted_eq)
  with that show ?thesis by (simp add: q next_token readComma_written c_str_def)
qed

end
