(* ===== verification/StatusText.thy ===== *)
theory StatusText
  imports ServerStatus JsonRoundtrip
begin

text \<open>
  \<^verbatim>\<open>common/src/server_status.cpp\<close> with the reader and the writer of JSON in the place of its parameters: the status of
  a server from its structure to the text in ZooKeeper and back.
\<close>

subsection \<open>The status of a server as text\<close>

lemma set_map_put: "set (map_put k v m) \<subseteq> insert (k, v) (set m)"
  by (induction m) (auto split: if_splits)

lemma text_ok_put:
  "text_ok (objectValue m) \<Longrightarrow> text_ok x \<Longrightarrow> 0 \<notin> set k \<Longrightarrow> text_ok (objectValue (map_put k x m))"
  using set_map_put [of k x m] by auto

lemma jput_text_ok:
  "jput key x v = Done v' \<Longrightarrow> text_ok v \<Longrightarrow> text_ok x \<Longrightarrow> 0 \<notin> set (bytes_of key) \<Longrightarrow> text_ok v'"
  using text_ok_put text_ok_put [of "[]" x "bytes_of key"] by (cases v) (auto simp: jput_def simp del: bytes_of_simps)

lemma jget_text_ok: "jget v key = Done x \<Longrightarrow> text_ok v \<Longrightarrow> text_ok x"
  by (cases v) (auto simp: jget_def split: option.splits dest: map_of_SomeD)

lemma jput_index_text_ok: "jput_index i x v = Done v' \<Longrightarrow> text_ok v \<Longrightarrow> text_ok x \<Longrightarrow> text_ok v'"
  by (cases v) (auto simp: jput_index_def split: if_splits dest!: set_update_subset_insert [THEN subsetD])

lemma jindex_text_ok: "jindex v i = Done x \<Longrightarrow> text_ok v \<Longrightarrow> text_ok x"
  by (cases v) (auto simp: jindex_def)

lemma jupdate_text_ok:
  assumes "jupdate key f v = Done v'" "text_ok v" "0 \<notin> set (bytes_of key)" "\<And>x y. f x = Done y \<Longrightarrow> text_ok x \<Longrightarrow> text_ok y"
  shows "text_ok v'"
  using assms by (auto simp: jupdate_def bind_outcome_Done_iff intro: jput_text_ok jget_text_ok)

lemma jupdate_index_text_ok:
  assumes "jupdate_index i f v = Done v'" "text_ok v" "\<And>x y. f x = Done y \<Longrightarrow> text_ok x \<Longrightarrow> text_ok y"
  shows "text_ok v'"
  using assms by (auto simp: jupdate_index_def bind_outcome_Done_iff intro: jput_index_text_ok jindex_text_ok)

definition port_ok :: "port_config \<Rightarrow> bool" where
  "port_ok p \<longleftrightarrow> text_ok (intValue (Port p)) \<and> text_ok (intValue (MaxType p)) \<and> text_ok (intValue (MinType p)) \<and>
     text_ok (Others p)"

definition status_ok :: "server_status \<Rightarrow> bool" where
  "status_ok st \<longleftrightarrow> text_ok (intValue (ID st)) \<and> (\<forall>ip \<in> set (IPs st). 0 \<notin> set ip) \<and> (\<forall>p \<in> set (Ports st). port_ok p) \<and>
     text_ok (Properties st)"

lemma serialize_ips_text_ok:
  "serialize_ips i ips v = Done v' \<Longrightarrow> text_ok v \<Longrightarrow> \<forall>ip \<in> set ips. 0 \<notin> set ip \<Longrightarrow> text_ok v'"
proof (induction ips arbitrary: i v)
  case (Cons ip ips)
  then obtain w where w: "jupdate ''IPs'' (jput_index i (stringValue ip)) v = Done w" "serialize_ips (i + 1) ips w = Done v'"
    by (auto simp: bind_outcome_Done_iff)
  have "text_ok w" using w(1) Cons.prems by (auto elim!: jupdate_text_ok intro: jput_index_text_ok)
  with Cons w(2) show ?case by simp
qed simp

lemma serialize_port_text_ok: "serialize_port p v = Done v' \<Longrightarrow> text_ok v \<Longrightarrow> port_ok p \<Longrightarrow> text_ok v'"
  unfolding serialize_port_def port_ok_def bind_outcome_Done_iff by (elim exE conjE) (simp add: jput_text_ok del: text_ok.simps)

lemma serialize_ports_text_ok:
  "serialize_ports i ps v = Done v' \<Longrightarrow> text_ok v \<Longrightarrow> \<forall>p \<in> set ps. port_ok p \<Longrightarrow> text_ok v'"
proof (induction ps arbitrary: i v)
  case (Cons p ps)
  then obtain w where w: "jupdate ''CliConfigs'' (jupdate_index i (serialize_port p)) v = Done w" "serialize_ports (i + 1) ps w = Done v'"
    by (auto simp: bind_outcome_Done_iff)
  have "text_ok w" using w(1) Cons.prems by (auto elim!: jupdate_text_ok jupdate_index_text_ok intro: serialize_port_text_ok)
  with Cons w(2) show ?case by simp
qed simp

lemma serializeToJson_text_ok: "serializeToJson st nullValue = Done (r, v) \<Longrightarrow> status_ok st \<Longrightarrow> text_ok v"
proof -
  assume st: "status_ok st" and "serializeToJson st nullValue = Done (r, v)"
  then obtain v1 v2 v3 where v: "jput ''ID'' (intValue (ID st)) nullValue = Done v1" "serialize_ips 0 (IPs st) v1 = Done v2"
    "jput ''Properties'' (Properties st) v2 = Done v3" "serialize_ports 0 (Ports st) v3 = Done v"
    unfolding serializeToJson_def bind_outcome_Done_iff by auto
  have "text_ok v1" by (rule jput_text_ok [OF v(1)]) (use st in \<open>simp_all add: status_ok_def\<close>)
  then have "text_ok v2" using serialize_ips_text_ok [OF v(2)] st by (simp add: status_ok_def)
  then have "text_ok v3" by (rule jput_text_ok [OF v(3)]) (use st in \<open>simp_all add: status_ok_def\<close>)
  then show "text_ok v" using serialize_ports_text_ok [OF v(4)] st by (simp add: status_ok_def)
qed

text \<open>
  C22: the status that a server writes to its node, as text, is what the others read from it. Writing it, reading the text
  with the reader of JSON and taking the value apart works without a fault, and gives the number, addresses and properties back, and
  exactly one port: the last one, with the other settings of an earlier one if it has none. So the status comes back as it was
  exactly if it has one port.
\<close>

theorem status_text_read_back:
  assumes "status_ok st" "strictRoot f = False"
  shows "\<exists>text st'. serializeToString (FastWriter_write yaml fmt) st = Done (0, text) \<and>
    bind_outcome (parse f scan text) (\<lambda>r. parseFromString (\<lambda>s. r) text
      \<lparr>ID = i, IPs = [], Ports = [], Properties = nullValue\<rparr>) = Done (0, st') \<and>
    ID st' = ID st \<and> IPs st' = IPs st \<and> Properties st' = Properties st \<and>
    Ports st' = [foldl merge_port PortConfig_init (Ports st)] \<and> (st' = st \<longleftrightarrow> length (Ports st) = 1)"
proof -
  obtain v st' where v: "serializeToJson st nullValue = Done (0, v)"
    "parseFromJson v \<lparr>ID = i, IPs = [], Ports = [], Properties = nullValue\<rparr> = Done (0, st')"
    "ID st' = ID st \<and> IPs st' = IPs st \<and> Properties st' = Properties st \<and>
     Ports st' = [foldl merge_port PortConfig_init (Ports st)] \<and> (st' = st \<longleftrightarrow> length (Ports st) = 1)"
    using status_read_back [of st i] by blast
  have "parse f scan (FastWriter_write yaml fmt v) = Done (Some v)"
    using parse_prefix [of v f "[10]"] serializeToJson_text_ok [OF v(1) assms(1)] assms(2)
    by (simp add: FastWriter_write_def)
  with v show ?thesis by (simp add: serializeToString_def parseFromString_def)
qed

theorem status_text_read_back_witness:
  "let st = \<lparr>ID = 7, IPs = [bytes_of ''10.0.0.1''], Ports = [\<lparr>Port = 8080, MaxType = 9, MinType = 1, Others = nullValue\<rparr>],
        Properties = objectValue [(bytes_of ''zone'', stringValue (bytes_of ''a''))]\<rparr>
   in \<exists>text st'. serializeToString (FastWriter_write False (\<lambda>r. [])) st = Done (0, text) \<and>
    bind_outcome (parse Features_all (\<lambda>s. None) text) (\<lambda>r. parseFromString (\<lambda>s. r) text
      \<lparr>ID = 0, IPs = [], Ports = [], Properties = nullValue\<rparr>) = Done (0, st') \<and>
    ID st' = ID st \<and> IPs st' = IPs st \<and> Properties st' = Properties st \<and>
    Ports st' = [foldl merge_port PortConfig_init (Ports st)] \<and> (st' = st \<longleftrightarrow> length (Ports st) = 1)"
  unfolding Let_def
  by (rule status_text_read_back) (simp_all add: status_ok_def port_ok_def maxInt_def map_ok_def Features_all_def)

end
