(* ===== verification/Messages.thy ===== *)
theory Messages
  imports GP_Prelude
begin

text \<open>
  The messages of \<^verbatim>\<open>proto/session.proto\<close> and \<^verbatim>\<open>proto/gpush.proto\<close> as records, and the codes of
  \<^verbatim>\<open>head/err_no.h\<close>. The classes generated from the files and their encoding are not under the repository's
  own code: where the servers read or write a message, that is a parameter. An absent optional field reads
  as its default; the servers ask for presence of one only (\<open>to_sessid\<close> of a response, an option here).
\<close>

record sess =
  s_id :: bytes
  s_type :: int
  lasttime :: int
  sessid :: bytes
  consvid :: int
  version :: bytes
  kvs :: "(bytes \<times> bytes) list"

definition Sess_init :: sess where
  "Sess_init = \<lparr>s_id = [], s_type = 0, lasttime = 0, sessid = [], consvid = 0, version = [], kvs = []\<rparr>"

record login_request =
  lq_id :: bytes
  lq_type :: int
  lq_token :: bytes
  lq_version :: bytes
  lq_kvs :: "(bytes \<times> bytes) list"

record login_response =
  lr_status :: int
  lr_sessid :: bytes

record push_request =
  pq_from :: bytes
  pq_to :: bytes
  pq_sn :: bytes
  pq_type :: int
  pq_payload :: bytes

record push_response =
  pr_from :: bytes
  pr_to :: "bytes option"
  pr_sn :: bytes
  pr_status :: int

definition INPUT_FORMAT_ERROR :: int where "INPUT_FORMAT_ERROR = -1"
definition CREATE_SESSION_FAIL :: int where "CREATE_SESSION_FAIL = -10"
definition INVALID_SESSION_ID :: int where "INVALID_SESSION_ID = -20"
definition MISS_TO_SESSION_ID :: int where "MISS_TO_SESSION_ID = -22"
definition NO_SERVICE :: int where "NO_SERVICE = -30"
definition INVALID_TYPE :: int where "INVALID_TYPE = -60"
definition INNER_ERROR :: int where "INNER_ERROR = -100"

lemmas err_defs = INPUT_FORMAT_ERROR_def CREATE_SESSION_FAIL_def INVALID_SESSION_ID_def
  MISS_TO_SESSION_ID_def NO_SERVICE_def INVALID_TYPE_def INNER_ERROR_def

end
