(* ===== verification/SessCache.thy ===== *)
theory SessCache
  imports RedisCommands MessageDigest Base64 Json Loader Messages
begin

text \<open>
  The session cache: \<^verbatim>\<open>common/src/redis_group.cpp\<close> picks the Redis node of a key by its digest,
  \<^verbatim>\<open>common/src/sess_cache.cpp\<close> keeps sessions in the hash of a user and asks several caches. The reader and
  writer of a session (protocol buffers) are parameters, and so is the clock.
\<close>

subsection \<open>The group of nodes\<close>

text \<open>A client per node, made when it is first asked for; \<open>idle\<close>: the world of each node's client until then.\<close>

record 'w redis_group =
  m_cfg :: json
  m_dbs :: "'w redis_cli option list"
  idle :: "nat \<Rightarrow> 'w"

definition RedisGroup_init :: "json \<Rightarrow> (nat \<Rightarrow> 'w) \<Rightarrow> 'w redis_group outcome" where
  "RedisGroup_init config w =
     bind_outcome (jget config ''NodeCfgs'') (\<lambda>urlArray.
       Done \<lparr>m_cfg = config, m_dbs = replicate (jsize urlArray) None, idle = w\<rparr>)"

fun le64 :: "bytes \<Rightarrow> int" where
  "le64 [] = 0"
| "le64 (b # bs) = uint b + 256 * le64 bs"

text \<open>\<open>old\<close>: the memory of the digest's context. A group without nodes divides by zero: \<open>Fault\<close>.\<close>

definition getHndl :: "'w hiredis \<Rightarrow> bytes \<Rightarrow> bytes \<Rightarrow> 'w redis_group \<Rightarrow> (nat option \<times> 'w redis_group) outcome" where
  "getHndl h old key g =
     (let md5 = fst (MD5Final (MD5Update (MD5Init old) (take (length key mod 2 ^ 32) key)));
          i = le64 (take 8 md5)
      in if m_dbs g = [] then Fault
         else let idx = nat (i mod int (length (m_dbs g)))
              in if m_dbs g ! idx = None
                 then bind_outcome (jget (m_cfg g) ''NodeCfgs'') (\<lambda>cfgs.
                      bind_outcome (jindex cfgs idx) (\<lambda>url.
                      bind_outcome (bind_outcome (jget url ''IPAddr'') asString) (\<lambda>ip.
                      bind_outcome (bind_outcome (jget url ''Port'') asInt) (\<lambda>port.
                      bind_outcome (bind_outcome (jget url ''Passwd'') asString) (\<lambda>passwd.
                      bind_outcome (connectCache h ip port passwd (idle g idx)) (\<lambda>(c, w).
                        Done (if c = None then None else Some idx,
                              g\<lparr>m_dbs := (m_dbs g)[idx := c], idle := (idle g)(idx := w)\<rparr>)))))))
                 else Done (Some idx, g))"

subsection \<open>Sessions in Redis\<close>

definition SESSION_DEFAULT_EXPIRE_SECOND :: int where "SESSION_DEFAULT_EXPIRE_SECOND = 500"

record 'w sess_cache =
  m_dbg :: "'w redis_group option"
  m_expire :: int
  m_loader :: "json loader"

text \<open>\<open>w\<close>: the world that new clients start in.\<close>

definition cache_init :: "(nat \<Rightarrow> 'w) \<Rightarrow> json \<Rightarrow> 'w sess_cache \<Rightarrow> (int \<times> 'w sess_cache) outcome" where
  "cache_init w config sc =
     bind_outcome (jget config ''DBGroup'') (\<lambda>dbconf.
       if \<not> isObject dbconf then Done (-2001, sc)
       else bind_outcome (RedisGroup_init dbconf w) (\<lambda>g.
            let sc = sc\<lparr>m_dbg := Some g\<rparr>
            in bind_outcome (jget config ''Expire'') (\<lambda>exp.
                 if isInt exp then bind_outcome (asInt exp) (\<lambda>e. Done (0, sc\<lparr>m_expire := e\<rparr>)) else Done (0, sc))))"

definition RedisSessCache_init :: "(nat \<Rightarrow> 'w) \<Rightarrow> json data_src \<Rightarrow> 'w sess_cache outcome" where
  "RedisSessCache_init w config =
     (let sc = \<lparr>m_dbg = None, m_expire = SESSION_DEFAULT_EXPIRE_SECOND, m_loader = Loader_init nullValue\<rparr>;
          sc = sc\<lparr>m_loader := snd (loadData config (m_loader sc))\<rparr>
      in bind_outcome (cache_init w (ld_data (m_loader sc)) sc) (\<lambda>(ret, sc). Done sc))"

definition sessKey :: "bytes \<Rightarrow> bytes" where
  "sessKey key = bytes_of ''SESS_'' @ key"

text \<open>\<open>old\<close>, \<open>w\<close>, \<open>config\<close>: as above. The handle is the index of the node's client.\<close>

definition getHandle :: "'w hiredis \<Rightarrow> bytes \<Rightarrow> (nat \<Rightarrow> 'w) \<Rightarrow> json data_src \<Rightarrow> bytes \<Rightarrow> 'w sess_cache \<Rightarrow>
    (nat option \<times> 'w sess_cache) outcome" where
  "getHandle h old w config key sc =
     (if m_dbg sc = None then Done (None, sc)
      else let (changed, l) = loadData config (m_loader sc);
               sc = sc\<lparr>m_loader := l\<rparr>
           in bind_outcome (if changed then cache_init w (ld_data l) sc else Done (0, sc)) (\<lambda>(ret, sc).
              bind_outcome (getHndl h old (sessKey key) (the (m_dbg sc))) (\<lambda>(hd, g).
                Done (hd, sc\<lparr>m_dbg := Some g\<rparr>))))"

text \<open>A command of the client with the number \<open>i\<close>.\<close>

definition on_client :: "nat \<Rightarrow> ('w redis_cli \<Rightarrow> ('r \<times> 'w redis_cli) outcome) \<Rightarrow> 'w sess_cache \<Rightarrow> ('r \<times> 'w sess_cache) outcome" where
  "on_client i f sc =
     (case m_dbg sc of
        None \<Rightarrow> Fault
      | Some g \<Rightarrow> (case m_dbs g ! i of
          None \<Rightarrow> Fault
        | Some c \<Rightarrow> bind_outcome (f c) (\<lambda>(r, c). Done (r, sc\<lparr>m_dbg := Some (g\<lparr>m_dbs := (m_dbs g)[i := Some c]\<rparr>)\<rparr>))))"

text \<open>\<open>parse\<close>: what \<open>ParseFromString\<close> leaves in a fresh \<open>Sess\<close>; its result is not looked at.\<close>

fun sort_sessions :: "(bytes \<Rightarrow> sess) \<Rightarrow> int \<Rightarrow> int \<Rightarrow> (bytes \<times> bytes) list \<Rightarrow> bytes list \<times> sess list \<Rightarrow> bytes list \<times> sess list" where
  "sort_sessions parse n expire [] (olds, m) = (olds, m)"
| "sort_sessions parse n expire (e # es) (olds, m) =
     (let s = parse (base64Decode (snd e))
      in if lasttime s + expire < n then sort_sessions parse n expire es (olds @ [sessid s], m)
         else sort_sessions parse n expire es (olds, m @ [s]))"

definition getSession :: "'w hiredis \<Rightarrow> bytes \<Rightarrow> (nat \<Rightarrow> 'w) \<Rightarrow> json data_src \<Rightarrow> (bytes \<Rightarrow> sess) \<Rightarrow> int \<Rightarrow> bytes \<Rightarrow> sess list \<Rightarrow>
    'w sess_cache \<Rightarrow> (int \<times> sess list \<times> 'w sess_cache) outcome" where
  "getSession h old w config parse n key m sc =
     bind_outcome (getHandle h old w config key sc) (\<lambda>(hd, sc).
       case hd of
         None \<Rightarrow> Done (-1002, m, sc)
       | Some i \<Rightarrow>
           bind_outcome (on_client i (\<lambda>c. bind_outcome (hashGetAll h (sessKey key) [] c)
                                            (\<lambda>(ret, sm, c). Done ((ret, sm), c))) sc) (\<lambda>((ret, sm), sc).
             let (oldsessids, m) = sort_sessions parse n (m_expire sc) sm ([], m)
             in bind_outcome (if oldsessids \<noteq> [] then on_client i (hashMDel h (sessKey key) oldsessids) sc
                              else Done (0, sc)) (\<lambda>(_, sc).
                  Done (if ret = CACHE_NOT_EXIST then 0 else ret, m, sc))))"

text \<open>\<open>serialize\<close>: what \<open>SerializeToString\<close> gives; \<open>n\<close>: the time.\<close>

definition setSession :: "'w hiredis \<Rightarrow> bytes \<Rightarrow> (nat \<Rightarrow> 'w) \<Rightarrow> json data_src \<Rightarrow> (sess \<Rightarrow> bytes) \<Rightarrow> int \<Rightarrow> sess \<Rightarrow>
    'w sess_cache \<Rightarrow> (int \<times> 'w sess_cache) outcome" where
  "setSession h old w config serialize n s sc =
     bind_outcome (getHandle h old w config (s_id s) sc) (\<lambda>(hd, sc).
       case hd of
         None \<Rightarrow> Done (-1002, sc)
       | Some i \<Rightarrow>
           let s = s\<lparr>lasttime := n\<rparr>; str = serialize s
           in bind_outcome (on_client i (hashSet h (sessKey (s_id s)) (sessid s) (base64Encode str)) sc) (\<lambda>(ret, sc).
              bind_outcome (on_client i (keyExpire h (sessKey (s_id s)) (m_expire sc)) sc) (\<lambda>(_, sc).
                Done (ret, sc))))"

definition delSession :: "'w hiredis \<Rightarrow> bytes \<Rightarrow> (nat \<Rightarrow> 'w) \<Rightarrow> json data_src \<Rightarrow> sess \<Rightarrow> 'w sess_cache \<Rightarrow>
    (int \<times> 'w sess_cache) outcome" where
  "delSession h old w config s sc =
     bind_outcome (getHandle h old w config (s_id s) sc) (\<lambda>(hd, sc).
       case hd of
         None \<Rightarrow> Done (-1002, sc)
       | Some i \<Rightarrow> on_client i (hashDel h (sessKey (s_id s)) (sessid s)) sc)"

subsection \<open>Several caches\<close>

text \<open>An operation on each cache in turn, with the source of its configuration; the results are not looked at.\<close>

fun grp_get_all :: "(json data_src \<Rightarrow> sess list \<Rightarrow> 'w sess_cache \<Rightarrow> (int \<times> sess list \<times> 'w sess_cache) outcome) \<Rightarrow>
    (json data_src \<times> 'w sess_cache) list \<Rightarrow> sess list \<Rightarrow> (sess list \<times> (json data_src \<times> 'w sess_cache) list) outcome" where
  "grp_get_all get [] tm = Done (tm, [])"
| "grp_get_all get ((config, sc) # cs) tm =
     bind_outcome (get config tm sc) (\<lambda>(ret, tm, sc).
     bind_outcome (grp_get_all get cs tm) (\<lambda>(tm, cs). Done (tm, (config, sc) # cs)))"

fun dedupe :: "sess list \<Rightarrow> bytes set \<Rightarrow> sess list \<Rightarrow> sess list" where
  "dedupe [] sessids m = m"
| "dedupe (ss # tm) sessids m =
     (if sessid ss \<in> sessids then dedupe tm sessids m
      else dedupe tm (insert (sessid ss) sessids) (m @ [ss]))"

definition grp_getSession :: "(json data_src \<Rightarrow> sess list \<Rightarrow> 'w sess_cache \<Rightarrow> (int \<times> sess list \<times> 'w sess_cache) outcome) \<Rightarrow>
    sess list \<Rightarrow> (json data_src \<times> 'w sess_cache) list \<Rightarrow> (int \<times> sess list \<times> (json data_src \<times> 'w sess_cache) list) outcome" where
  "grp_getSession get m cs =
     bind_outcome (grp_get_all get cs []) (\<lambda>(tm, cs). Done (0, dedupe tm {} m, cs))"

fun grp_all :: "(json data_src \<Rightarrow> 'w sess_cache \<Rightarrow> (int \<times> 'w sess_cache) outcome) \<Rightarrow>
    (json data_src \<times> 'w sess_cache) list \<Rightarrow> (int \<times> (json data_src \<times> 'w sess_cache) list) outcome" where
  "grp_all f [] = Done (0, [])"
| "grp_all f ((config, sc) # cs) =
     bind_outcome (f config sc) (\<lambda>(ret, sc). bind_outcome (grp_all f cs) (\<lambda>(ret, cs). Done (0, (config, sc) # cs)))"

definition grp_setSession :: "'w hiredis \<Rightarrow> bytes \<Rightarrow> (nat \<Rightarrow> 'w) \<Rightarrow> (sess \<Rightarrow> bytes) \<Rightarrow> int \<Rightarrow> sess \<Rightarrow>
    (json data_src \<times> 'w sess_cache) list \<Rightarrow> (int \<times> (json data_src \<times> 'w sess_cache) list) outcome" where
  "grp_setSession h old w serialize n s cs = grp_all (\<lambda>config. setSession h old w config serialize n s) cs"

definition grp_delSession :: "'w hiredis \<Rightarrow> bytes \<Rightarrow> (nat \<Rightarrow> 'w) \<Rightarrow> sess \<Rightarrow>
    (json data_src \<times> 'w sess_cache) list \<Rightarrow> (int \<times> (json data_src \<times> 'w sess_cache) list) outcome" where
  "grp_delSession h old w s cs = grp_all (\<lambda>config. delSession h old w config s) cs"

subsection \<open>Lemmas\<close>

definition node_of :: "bytes \<Rightarrow> bytes \<Rightarrow> 'w redis_group \<Rightarrow> nat" where
  "node_of old key g =
     nat (le64 (take 8 (fst (MD5Final (MD5Update (MD5Init old) (take (length key mod 2 ^ 32) key)))))
       mod int (length (m_dbs g)))"

lemma node_of_less: "m_dbs g \<noteq> [] \<Longrightarrow> node_of old key g < length (m_dbs g)"
  by (simp add: node_of_def nat_less_iff)

lemma node_of_digest:
  "length old = 64 \<Longrightarrow> length key < 2 ^ 32 \<Longrightarrow>
   node_of old key g = nat (le64 (take 8 (md5_digest key)) mod int (length (m_dbs g)))"
  using MD5_digest [of old key] by (simp add: node_of_def MD5_def)

text \<open>The node of a key has a live connection, and the configuration has not changed.\<close>

definition ready :: "bytes \<Rightarrow> json data_src \<Rightarrow> bytes \<Rightarrow> 'w redis_cli \<Rightarrow> 'w sess_cache \<Rightarrow> bool" where
  "ready old config key c sc \<longleftrightarrow>
     (\<exists>g. m_dbg sc = Some g \<and> m_dbs g \<noteq> [] \<and> m_dbs g ! node_of old (sessKey key) g = Some c) \<and>
     m_c c = Some False \<and> 0 < m_retry c \<and> \<not> fst (loadData config (m_loader sc))"

definition with_client :: "bytes \<Rightarrow> bytes \<Rightarrow> 'w redis_cli \<Rightarrow> 'w sess_cache \<Rightarrow> 'w sess_cache" where
  "with_client old key c sc =
     (let g = the (m_dbg sc)
      in sc\<lparr>m_dbg := Some (g\<lparr>m_dbs := (m_dbs g)[node_of old (sessKey key) g := Some c]\<rparr>)\<rparr>)"

definition node_index :: "bytes \<Rightarrow> bytes \<Rightarrow> 'w sess_cache \<Rightarrow> nat" where
  "node_index old key sc = node_of old (sessKey key) (the (m_dbg sc))"

lemma ready_handle:
  "ready old config key c sc \<Longrightarrow> getHandle h old w config key sc = Done (Some (node_index old key sc), sc)"
  by (auto simp: ready_def getHandle_def getHndl_def node_of_def node_index_def loadData_def Let_def split: if_splits)

lemma node_index_with [simp]: "m_dbg sc \<noteq> None \<Longrightarrow> node_index old key (with_client old key c sc) = node_index old key sc"
  by (auto simp: node_index_def with_client_def node_of_def)

lemma ready_with:
  "ready old config key c sc \<Longrightarrow> m_c c' = Some False \<Longrightarrow> m_retry c' = m_retry c \<Longrightarrow>
   ready old config key c' (with_client old key c' sc)"
  using node_of_less by (fastforce simp: ready_def with_client_def Let_def node_of_def)

lemma ready_client:
  "ready old config key c sc \<Longrightarrow> f c = Done (r, c') \<Longrightarrow>
   on_client (node_index old key sc) f sc = Done (r, with_client old key c' sc)"
  by (auto simp: ready_def on_client_def node_index_def with_client_def)

lemma with_client_twice: "m_dbg sc \<noteq> None \<Longrightarrow> with_client old key c (with_client old key c' sc) = with_client old key c sc"
  by (auto simp: with_client_def Let_def node_of_def)

lemma with_client_expire [simp]: "m_expire (with_client old key c sc) = m_expire sc"
  by (simp add: with_client_def Let_def)

lemma live_update: "m_c c = Some False \<Longrightarrow> c\<lparr>m_c := Some False, world := w\<rparr> = c\<lparr>world := w\<rparr>"
  by (cases c) simp

lemma exeCmd_once:
  assumes "m_c c = Some False" "0 < m_retry c" "redisvCommand h cmd (world c) = (Some r, False, w)"
    "r_type r \<noteq> REDIS_REPLY_ERROR"
  shows "exeCmd h cmd c = Done (0, Some r, c\<lparr>world := w\<rparr>)"
proof -
  obtain l where l: "m_retry c = Suc l" using assms(2) by (cases "m_retry c") auto
  have "doExeCmdNoReconnect_with h d cmd False c = Done (0, Some r, c\<lparr>m_c := Some False, world := w\<rparr>)" for d
    by (simp add: doExeCmdNoReconnect_with_def assms)
  then show ?thesis unfolding live_update [OF assms(1), symmetric] by (simp add: exeCmd_def assms(1) l)
qed

lemma exeCmd_argv_once:
  assumes "m_c c = Some False" "0 < m_retry c" "redisCommandArgv h argv (world c) = (Some r, False, w)"
    "r_type r \<noteq> REDIS_REPLY_ERROR"
  shows "exeCmd_argv h argv c = Done (0, Some r, c\<lparr>world := w\<rparr>)"
proof -
  obtain l where l: "m_retry c = Suc l" using assms(2) by (cases "m_retry c") auto
  have "doExeCmdNoReconnect_argv h argv c = Done (0, Some r, c\<lparr>m_c := Some False, world := w\<rparr>)"
    by (simp add: doExeCmdNoReconnect_argv_def assms)
  then show ?thesis unfolding live_update [OF assms(1), symmetric] by (simp add: exeCmd_argv_def assms(1) l)
qed

lemma sort_sessions_filter:
  "sort_sessions parse n expire es (olds, m) =
    (let ss = map (\<lambda>e. parse (base64Decode (snd e))) es
     in (olds @ map sessid (filter (\<lambda>s. lasttime s + expire < n) ss),
         m @ filter (\<lambda>s. \<not> lasttime s + expire < n) ss))"
  by (induction es arbitrary: olds m) (auto simp: Let_def)

lemma dedupe_acc: "dedupe tm seen m = m @ dedupe tm seen []"
proof (induction tm arbitrary: seen m)
  case (Cons ss tm)
  show ?case using Cons.IH [of seen m] Cons.IH [of "insert (sessid ss) seen" "[ss]"] Cons.IH [of "insert (sessid ss) seen" "m @ [ss]"]
    by simp
qed simp

lemma dedupe_cons:
  "dedupe (ss # tm) seen [] =
    (if sessid ss \<in> seen then dedupe tm seen [] else ss # dedupe tm (insert (sessid ss) seen) [])"
  by (simp add: dedupe_acc [of tm _ "[ss]"])

lemma dedupe_first:
  "distinct (map sessid (dedupe tm seen [])) \<and>
   sessid ` set (dedupe tm seen []) = sessid ` set tm - seen \<and>
   (\<forall>s \<in> set (dedupe tm seen []). find (\<lambda>x. sessid x = sessid s) tm = Some s)"
proof (induction tm arbitrary: seen)
  case (Cons ss tm)
  show ?case
  proof (cases "sessid ss \<in> seen")
    case True
    then show ?thesis using Cons.IH [of seen] unfolding dedupe_cons by auto
  next
    case False
    then show ?thesis using Cons.IH [of "insert (sessid ss) seen"] unfolding dedupe_cons by auto
  qed
qed simp

text \<open>A set or delete, as one command.\<close>

lemma command_done:
  assumes "m_c c = Some False" "0 < m_retry c" "redisvCommand h (Fmt f args) (world c) = (Some r, False, w)"
    "r_type r \<noteq> REDIS_REPLY_ERROR"
  shows "exeCmdWithNoOutput h f args c = Done (0, c\<lparr>world := w\<rparr>)"
  by (simp add: exeCmdWithNoOutput_def exeCmd_once [OF assms])

subsection \<open>Properties\<close>


text \<open>A server with an empty world: it counts the commands and answers the third one with a hash of one field.\<close>

definition hash_server :: "bytes \<Rightarrow> bytes \<Rightarrow> nat hiredis" where
  "hash_server f v =
     \<lparr>redisConnectWithTimeout = \<lambda>addr port w. (Some False, w),
      redisvCommand = \<lambda>cmd w.
        (Some (if w = 2 then redisReply REDIS_REPLY_ARRAY None 0
                 [redisReply REDIS_REPLY_STRING (Some f) 0 [], redisReply REDIS_REPLY_STRING (Some v) 0 []]
               else redisReply REDIS_REPLY_INTEGER None 1 []), False, w + 1),
      redisCommandArgv = \<lambda>argv w. (Some (redisReply REDIS_REPLY_INTEGER None 1 []), False, w + 1),
      redisFree = \<lambda>c w. w\<rparr>"

definition one_session :: sess where
  "one_session = \<lparr>s_id = [65], s_type = 0, lasttime = 0, sessid = [66], consvid = 1, version = [], kvs = []\<rparr>"

definition one_node :: "nat sess_cache" where
  "one_node =
     \<lparr>m_dbg = Some \<lparr>m_cfg = nullValue, m_dbs = [Some ((RedisCli_init 0)\<lparr>m_c := Some False\<rparr>)], idle = \<lambda>i. 0\<rparr>,
      m_expire = 500, m_loader = Loader_init nullValue\<rparr>"


text \<open>
  A cache without nodes takes the server down. Before a configuration has been set the cache makes a group
  of no nodes, as the null value passes for an object, and the first session asked for divides by zero.
\<close>

theorem no_nodes_fault:
  assumes "ds_version config \<le> 0"
  shows "\<exists>sc. RedisSessCache_init w config = Done sc \<and> getHandle h old w config key sc = Fault"
  using assms
  by (simp add: RedisSessCache_init_def loadData_def getSersion_def Loader_init_def cache_init_def
      RedisGroup_init_def getHandle_def getHndl_def jsize_def Let_def)

theorem no_nodes_fault_witness:
  "\<exists>sc. RedisSessCache_init (\<lambda>i. 0) (DataSrc_init nullValue) = Done sc \<and>
     getHandle (hash_server [] []) [] (\<lambda>i. 0) (DataSrc_init nullValue) [65] sc = Fault"
  using no_nodes_fault [of "DataSrc_init nullValue" "\<lambda>i. 0" "hash_server [] []" "[]" "[65]"] by (simp add: DataSrc_init_def)

text \<open>
  Several caches give each session once. Whatever the caches hold and whether they can be reached, the
  result is 0; every session id found is given once, with the session of the first cache that has it.
\<close>

theorem caches_give_each_once:
  assumes "grp_get_all get cs [] = Done (tm, cs')"
  shows "\<exists>r. grp_getSession get [] cs = Done (0, r, cs') \<and> distinct (map sessid r) \<and>
    sessid ` set r = sessid ` set tm \<and> (\<forall>s \<in> set r. find (\<lambda>x. sessid x = sessid s) tm = Some s)"
  using assms dedupe_first [of tm "{}"] by (simp add: grp_getSession_def)

theorem caches_give_each_once_witness:
  "\<exists>r cs. grp_getSession (\<lambda>config tm sc. Done (-1, tm @ [one_session], sc)) []
     [(DataSrc_init nullValue, one_node), (DataSrc_init nullValue, one_node)] = Done (0, r, cs) \<and> distinct (map sessid r)"
  using caches_give_each_once [of "\<lambda>config tm sc. Done (-1, tm @ [one_session], sc)"
      "[(DataSrc_init nullValue, one_node), (DataSrc_init nullValue, one_node)]"]
  by auto

end
