(* ===== verification/CliCon.thy ===== *)
theory CliCon
  imports SessId Messages
begin

text \<open>
  The connections of the connect server: \<^verbatim>\<open>connect_server/src/client_conn.cpp\<close> with its header, and the list of
  logged-in push servers of \<^verbatim>\<open>connect_server/src/type_map.cpp\<close>. A connection is what \<open>CliCon\<close> adds to the
  framework's connection; what it does to its surroundings (packets sent, operators handed to loops,
  sessions stored, timers) is recorded as a list of effects, whose results the environment gives. Log lines
  and counters for statistics are left out.
\<close>

subsection \<open>State and surroundings\<close>

definition STATUS_INIT :: int where "STATUS_INIT = 0"
definition STATUS_LOGIN :: int where "STATUS_LOGIN = 1"
definition CHECK_TIMER :: int where "CHECK_TIMER = 1"

record cli_con =
  cc_id :: int
  cc_status :: int
  login_time :: int
  busy :: bool
  cc_sess :: sess
  req_cnt :: int
  resp_cnt :: int

text \<open>The counters are not initialised: \<open>rq\<close>, \<open>rs\<close>, \<open>lt\<close> are what the memory held.\<close>

definition CliCon_init :: "int \<Rightarrow> int \<Rightarrow> int \<Rightarrow> int \<Rightarrow> cli_con" where
  "CliCon_init i lt rq rs =
     \<lparr>cc_id = i, cc_status = STATUS_INIT, login_time = lt, busy = False, cc_sess = Sess_init, req_cnt = rq, resp_cnt = rs\<rparr>"

datatype effect =
    Sent int bytes            \<comment> \<open>connection, packet\<close>
  | Posted int int int bytes  \<comment> \<open>loop; \<open>SendMsgOp\<close>: connection, command, body\<close>
  | Stored sess
  | Removed sess
  | Read_on int
  | Timer_on int int int      \<comment> \<open>connection, timer, milliseconds\<close>
  | Closed int

record cs_env =
  e_id :: int
  e_threads :: int
  MinType :: int
  MaxType :: int
  AliveMs :: int
  MaxReqQueSize :: int
  StartThreadIdx :: int
  ThreadCnt :: int
  e_now :: int
  parseLogin :: "bytes \<Rightarrow> login_request option"
  putLogin :: "login_response \<Rightarrow> bytes"
  parsePush :: "bytes \<Rightarrow> push_request option"
  putPush :: "push_request \<Rightarrow> bytes"
  parsePushResp :: "bytes \<Rightarrow> push_response option"
  putPushResp :: "push_response \<Rightarrow> bytes"
  has_cache :: bool
  store_ret :: "sess \<Rightarrow> int"
  post_ret :: "int \<Rightarrow> int \<Rightarrow> int"
  send_ret :: int

text \<open>The world of the server's connections: the list of push servers, by connection, and the effects so far.\<close>

record cs_world =
  m_svs :: "int list"
  m_cnt :: int
  effects :: "effect list"

definition emit :: "effect \<Rightarrow> cs_world \<Rightarrow> cs_world" where
  "emit x w = w\<lparr>effects := effects w @ [x]\<rparr>"

subsection \<open>The list of push servers\<close>

definition addServer :: "int \<Rightarrow> cs_world \<Rightarrow> cs_world" where
  "addServer c w = w\<lparr>m_svs := m_svs w @ [c]\<rparr>"

definition delServer :: "int \<Rightarrow> cs_world \<Rightarrow> cs_world" where
  \<comment> \<open>the first one found\<close>
  "delServer c w = w\<lparr>m_svs := remove1 c (m_svs w)\<rparr>"

text \<open>The loop of a connection is the one its number names (\<open>dispatchConnection\<close>).\<close>

definition transRequest :: "cs_env \<Rightarrow> push_request \<Rightarrow> cs_world \<Rightarrow> int \<times> cs_world" where
  "transRequest e req w =
     (if m_svs w = [] then (NO_SERVICE, w)
      else let c = m_svs w ! nat (m_cnt w mod int (length (m_svs w)));
               newreq = putPush e req;
               l = getEventLoopId c;
               w = emit (Posted l c PUSH_REQ newreq) w
           in if post_ret e l c < 0 then (INNER_ERROR, w)
              else let cnt = i32 (m_cnt w + 1) in (0, w\<lparr>m_cnt := (if cnt < 0 then 0 else cnt)\<rparr>))"

subsection \<open>The life of a connection\<close>

text \<open>\<^verbatim>\<open>CDispatcher::dispatchConnection\<close>: the index of the loop and the new number; \<^verbatim>\<open>% 0\<close> is \<open>Fault\<close>.\<close>

definition dispatchConnection :: "cs_env \<Rightarrow> int \<Rightarrow> (int \<times> int) outcome" where
  "dispatchConnection e i =
     (if ThreadCnt e = 0 then Fault
      else let idx = StartThreadIdx e + c_mod i (ThreadCnt e) in Done (idx, getConnectionId idx i))"

definition onCreate :: "cs_env \<Rightarrow> cli_con \<Rightarrow> cs_world \<Rightarrow> int \<times> cs_world" where
  "onCreate e c w =
     (let w = emit (Read_on (cc_id c)) w
      in (0, if AliveMs e \<noteq> 0 then emit (Timer_on (cc_id c) CHECK_TIMER (AliveMs e)) w else w))"

definition handleTimer :: "cs_env \<Rightarrow> int \<Rightarrow> cli_con \<Rightarrow> cs_world \<Rightarrow> int \<times> cs_world" where
  "handleTimer e i c w =
     (if i = CHECK_TIMER
      then if e_now e - lasttime (cc_sess c) > c_div (AliveMs e) 1000 then (0, emit (Closed (cc_id c)) w)
           else (0, emit (Timer_on (cc_id c) CHECK_TIMER (AliveMs e)) w)
      else (0, w))"

definition updateSession :: "cs_env \<Rightarrow> cli_con \<Rightarrow> cs_world \<Rightarrow> int \<times> cli_con \<times> cs_world" where
  "updateSession e c w =
     (let c = c\<lparr>cc_sess := (cc_sess c)\<lparr>lasttime := e_now e\<rparr>\<rparr>
      in if s_type (cc_sess c) \<ge> 0 then (0, c, w)
         else if \<not> has_cache e then (-1, c, w)
         else (store_ret e (cc_sess c), c, emit (Stored (cc_sess c)) w))"

definition delSession :: "cs_env \<Rightarrow> cli_con \<Rightarrow> cs_world \<Rightarrow> int \<times> cs_world" where
  "delSession e c w =
     (if s_type (cc_sess c) = 0 then (0, w)
      else if STATUS_LOGIN \<noteq> cc_status c then (0, w)
      else if s_type (cc_sess c) > 0 then (0, delServer (cc_id c) w)
      else if has_cache e then (0, emit (Removed (cc_sess c)) w)
      else (0, w))"

text \<open>The destructor.\<close>

definition CliCon_delete :: "cs_env \<Rightarrow> cli_con \<Rightarrow> cs_world \<Rightarrow> cs_world" where
  "CliCon_delete e c w = snd (delSession e c w)"

definition checkType :: "cs_env \<Rightarrow> int \<Rightarrow> int" where
  "checkType e ty = (if ty = 0 then 0 else if ty < MinType e \<or> ty \<ge> MaxType e then -1 else 0)"

text \<open>The part of \<open>handleLoginRequest\<close> from the status check to the label \<^verbatim>\<open>exit\<close>, in three pieces.\<close>

definition login_begin :: "cs_env \<Rightarrow> login_request \<Rightarrow> cli_con \<Rightarrow> cli_con" where
  "login_begin e lgreq c =
     c\<lparr>login_time := e_now e,
       cc_sess := (cc_sess c)\<lparr>s_id := lq_id lgreq, s_type := lq_type lgreq, consvid := e_id e,
         version := lq_version lgreq\<rparr>\<rparr>"

definition login_name :: "cs_env \<Rightarrow> login_request \<Rightarrow> cli_con \<Rightarrow> cli_con" where
  "login_name e lgreq c =
     c\<lparr>cc_sess := (cc_sess c)\<lparr>sessid := decorationName (e_id e) (cc_id c) (lq_id lgreq),
         kvs := kvs (cc_sess c) @ lq_kvs lgreq\<rparr>\<rparr>"

definition login_accept :: "cs_env \<Rightarrow> login_request \<Rightarrow> cli_con \<Rightarrow> cs_world \<Rightarrow> int \<times> cli_con \<times> cs_world" where
  "login_accept e lgreq c w =
     (let c = login_begin e lgreq c
      in if checkType e (lq_type lgreq) < 0 then (INVALID_TYPE, c, w)
         else
           let c = login_name e lgreq c;
               w = (if lq_type lgreq > 0 then addServer (cc_id c) w else w);
               (ret, c, w) = updateSession e c w
           in (if ret < 0 then CREATE_SESSION_FAIL else ret, c, w))"

definition handleLoginRequest :: "cs_env \<Rightarrow> bytes \<Rightarrow> cli_con \<Rightarrow> cs_world \<Rightarrow> int \<times> bytes \<times> cli_con \<times> cs_world" where
  "handleLoginRequest e req c w =
     (let (ret, c, w) =
        (case parseLogin e req of
           None \<Rightarrow> (INPUT_FORMAT_ERROR, c, w)
         | Some lgreq \<Rightarrow> if cc_status c = STATUS_LOGIN then (0, c, w) else login_accept e lgreq c w);
          (st, c) = (if ret < 0 then (ret, c) else (0, c\<lparr>cc_status := STATUS_LOGIN\<rparr>))
      in (ret, putLogin e \<lparr>lr_status = st, lr_sessid = sessid (cc_sess c)\<rparr>, c, w))"

text \<open>Nothing in the program calls \<open>checkReqQue\<close>.\<close>

definition checkReqQue :: "cs_env \<Rightarrow> int \<Rightarrow> int \<Rightarrow> cli_con \<Rightarrow> cs_world \<Rightarrow> int \<times> cli_con \<times> cs_world" where
  "checkReqQue e reqcnt respcnt c w =
     (let c = c\<lparr>req_cnt := req_cnt c + reqcnt, resp_cnt := resp_cnt c + respcnt\<rparr>
      in if s_type (cc_sess c) \<le> 0 \<or> MaxReqQueSize e \<le> 0 then (0, c, w)
         else
           let (c, w) = (if req_cnt c - resp_cnt c \<ge> MaxReqQueSize e
                         then (c\<lparr>busy := True\<rparr>, delServer (cc_id c) w) else (c, w));
               (c, w) = (if req_cnt c - resp_cnt c < c_div (MaxReqQueSize e) 2 \<and> busy c
                         then (c\<lparr>busy := False\<rparr>, addServer (cc_id c) w) else (c, w))
           in (0, c, w))"

text \<open>Result, loop and number of the connection.\<close>

definition getConFromSessid :: "cs_env \<Rightarrow> bytes \<Rightarrow> (int \<times> int \<times> int) outcome" where
  "getConFromSessid e sid =
     bind_outcome (getDecorationInfo sid) (\<lambda>(svid, conid, orgdata).
       if svid \<noteq> e_id e then Done (INVALID_SESSION_ID, 0, conid)
       else let evlpid = getEventLoopId conid
            in if evlpid < 0 \<or> evlpid \<ge> e_threads e then Done (INVALID_SESSION_ID, 0, conid)
               else Done (0, evlpid, conid))"

definition sendCmd :: "cs_env \<Rightarrow> int \<Rightarrow> bytes \<Rightarrow> cli_con \<Rightarrow> cs_world \<Rightarrow> int \<times> cs_world" where
  "sendCmd e cmd body c w =
     (let h = \<lparr>h_magic = MAGIC_NUMBER, h_len = 0, h_cmd = word_of_int cmd\<rparr>
      in (send_ret e, emit (Sent (cc_id c) (constructPacket h body)) w))"

definition handlePushRequest :: "cs_env \<Rightarrow> bytes \<Rightarrow> cli_con \<Rightarrow> cs_world \<Rightarrow> (int \<times> bytes \<times> cs_world) outcome" where
  "handlePushRequest e req c w =
     (let svresp = \<lparr>pr_from = bytes_of ''NULL'', pr_to = Some (bytes_of ''NULL''), pr_sn = bytes_of ''null'', pr_status = 0\<rparr>
      in bind_outcome
           (case parsePush e req of
              None \<Rightarrow> Done (INPUT_FORMAT_ERROR, svresp, w)
            | Some svreq \<Rightarrow>
                let svresp = svresp\<lparr>pr_sn := pq_sn svreq, pr_status := 0\<rparr>
                in if s_type (cc_sess c) < 0 then Done (INVALID_TYPE, svresp, w)
                   else
                     let svresp = svresp\<lparr>pr_to := Some (pq_from svreq)\<rparr>
                     in bind_outcome (getConFromSessid e (pq_to svreq)) (\<lambda>(ret, l, conid).
                          if ret < 0 then Done (INVALID_SESSION_ID, svresp, w)
                          else let w = emit (Posted l conid PUSH_REQ req) w; ret = post_ret e l conid
                               in if ret < 0 then Done (0, svresp\<lparr>pr_status := ret\<rparr>, w) else Done (ret, svresp, w)))
           (\<lambda>(ret, svresp, w).
              let svresp = (if ret < 0 then svresp\<lparr>pr_status := ret\<rparr> else svresp)
              in Done (ret, if pr_status svresp \<noteq> 0 then putPushResp e svresp else [], w)))"

definition handlePushResponse :: "cs_env \<Rightarrow> bytes \<Rightarrow> cs_world \<Rightarrow> (int \<times> cs_world) outcome" where
  "handlePushResponse e req w =
     bind_outcome
       (case parsePushResp e req of
          None \<Rightarrow> Done (INPUT_FORMAT_ERROR, w)
        | Some svresp \<Rightarrow>
            (case pr_to svresp of
               None \<Rightarrow> Done (MISS_TO_SESSION_ID, w)
             | Some sid \<Rightarrow>
                 if sid = [] then Done (MISS_TO_SESSION_ID, w)
                 else bind_outcome (getConFromSessid e sid) (\<lambda>(ret, l, conid).
                        if ret < 0 then Done (ret, w)
                        else let w = emit (Posted l conid PUSH_RESP req) w; ret = post_ret e l conid
                             in Done (if ret < 0 then 0 else ret, w))))
       (\<lambda>(ret, w). Done (if ret \<noteq> INPUT_FORMAT_ERROR then 0 else ret, w))"

text \<open>\<open>checkLen\<close> lets no packet shorter than a head through; one would be read behind its end.\<close>

definition handlePacket :: "cs_env \<Rightarrow> bytes \<Rightarrow> cli_con \<Rightarrow> cs_world \<Rightarrow> (int \<times> cli_con \<times> cs_world) outcome" where
  "handlePacket e req c w =
     (if length req < sizeof_head then Fault
      else
        let cmd = sint (htonl (h_cmd (load_head req))); body = drop sizeof_head req
        in bind_outcome
             (if cmd = LOGIN_REQ then Done (handleLoginRequest e body c w)
              else if cmd = PUSH_REQ
              then let (_, c, w) = updateSession e c w
                   in bind_outcome (handlePushRequest e body c w) (\<lambda>(ret, resp, w). Done (ret, resp, c, w))
              else if cmd = PUSH_RESP
              then let (_, c, w) = updateSession e c w
                   in bind_outcome (handlePushResponse e body w) (\<lambda>(ret, w). Done (ret, [], c, w))
              else if cmd = KEEPALIVE_REQ
              then let (_, c, w) = updateSession e c w in Done (0, [], c, w)
              else Done (-1, [], c, w))
             (\<lambda>(ret, resp, c, w).
                if resp \<noteq> [] \<or> cmd = KEEPALIVE_REQ
                then let (ret, w) = sendCmd e (cmd + 1) resp c w in Done (ret, c, w)
                else Done (ret, c, w)))"

definition cli_checkPackLen :: "loop_buf \<Rightarrow> int" where
  "cli_checkPackLen b = checkLen b"

text \<open>\<open>conns\<close>: the loop's connections by number.\<close>

definition SendMsgOp_process :: "cs_env \<Rightarrow> (int \<Rightarrow> cli_con option) \<Rightarrow> int \<Rightarrow> int \<Rightarrow> bytes \<Rightarrow> cs_world \<Rightarrow> int \<times> cs_world" where
  "SendMsgOp_process e conns conid cmd body w =
     (case conns conid of None \<Rightarrow> (-1, w) | Some clic \<Rightarrow> sendCmd e cmd body clic w)"

subsection \<open>Lemmas\<close>

lemma updateSession_keeps:
  assumes "updateSession e c w = (ret, c', w')"
  shows "cc_id c' = cc_id c" "cc_status c' = cc_status c" "s_type (cc_sess c') = s_type (cc_sess c)"
    "sessid (cc_sess c') = sessid (cc_sess c)" "m_svs w' = m_svs w" "0 \<le> s_type (cc_sess c) \<Longrightarrow> ret = 0"
  using assms by (auto simp: updateSession_def Let_def emit_def split: if_splits)

lemma emit_svs [simp]: "m_svs (emit x w) = m_svs w" "effects (emit x w) = effects w @ [x]"
  by (simp_all add: emit_def)

lemma addServer_svs [simp]: "m_svs (addServer i w) = m_svs w @ [i]" "effects (addServer i w) = effects w"
  by (simp_all add: addServer_def)

definition is_server :: "cli_con \<Rightarrow> bool" where
  "is_server c \<longleftrightarrow> cc_status c = STATUS_LOGIN \<and> 0 < s_type (cc_sess c)"

lemma accept_cases:
  assumes "login_accept e lg c w = (ret, c', w')"
  shows "cc_id c' = cc_id c \<and> cc_status c' = cc_status c \<and> s_type (cc_sess c') = lq_type lg \<and>
    (ret < 0 \<longrightarrow> m_svs w' = m_svs w) \<and>
    (0 \<le> ret \<longrightarrow> m_svs w' = m_svs w @ (if 0 < lq_type lg then [cc_id c] else []) \<and>
       sessid (cc_sess c') = decorationName (e_id e) (cc_id c) (lq_id lg))"
proof (cases "checkType e (lq_type lg) < 0")
  case True
  with assms show ?thesis by (auto simp: login_accept_def login_begin_def Let_def INVALID_TYPE_def)
next
  case False
  let ?c = "login_name e lg (login_begin e lg c)"
  obtain r c2 w2 where u: "updateSession e ?c (if lq_type lg > 0 then addServer (cc_id ?c) w else w) = (r, c2, w2)"
    by (metis prod_cases3)
  have c1: "s_type (cc_sess ?c) = lq_type lg" "cc_id ?c = cc_id c" "cc_status ?c = cc_status c"
    "sessid (cc_sess ?c) = decorationName (e_id e) (cc_id c) (lq_id lg)"
    by (simp_all add: login_name_def login_begin_def)
  have "(ret, c', w') = (if r < 0 then CREATE_SESSION_FAIL else r, c2, w2)"
    using assms False unfolding login_accept_def Let_def u by simp
  then show ?thesis
    using updateSession_keeps [OF u] c1 by (auto simp: CREATE_SESSION_FAIL_def split: if_splits)
qed

text \<open>What a login changes: nothing if it fails or the connection is logged in, else the status.\<close>

lemma login_cases:
  assumes "handleLoginRequest e req c w = (ret, resp, c', w')"
  shows "cc_id c' = cc_id c \<and>
    (cc_status c = STATUS_LOGIN \<longrightarrow> is_server c' = is_server c \<and> m_svs w' = m_svs w) \<and>
    (cc_status c \<noteq> STATUS_LOGIN \<longrightarrow> m_svs w' = m_svs w @ (if is_server c' then [cc_id c] else []))"
proof (cases "parseLogin e req")
  case None
  with assms show ?thesis by (auto simp: handleLoginRequest_def Let_def INPUT_FORMAT_ERROR_def is_server_def)
next
  case (Some lg)
  show ?thesis
  proof (cases "cc_status c = STATUS_LOGIN")
    case True
    with assms Some show ?thesis by (auto simp: handleLoginRequest_def Let_def is_server_def)
  next
    case False
    obtain r c2 w2 where acc: "login_accept e lg c w = (r, c2, w2)" by (metis prod_cases3)
    show ?thesis
      using assms Some False accept_cases [OF acc]
      by (auto simp: handleLoginRequest_def Let_def acc is_server_def split: if_splits)
  qed
qed

lemma sendCmd_svs [simp]: "m_svs (snd (sendCmd e cmd body c w)) = m_svs w"
  by (simp add: sendCmd_def Let_def)

lemma handlePushRequest_svs: "handlePushRequest e req c w = Done (ret, resp, w') \<Longrightarrow> m_svs w' = m_svs w"
  by (cases "parsePush e req"; cases "getConFromSessid e (pq_to (the (parsePush e req)))")
    (auto simp: handlePushRequest_def Let_def split: if_splits prod.splits)

lemma handlePushResponse_svs: "handlePushResponse e req w = Done (ret, w') \<Longrightarrow> m_svs w' = m_svs w"
  by (cases "parsePushResp e req"; cases "getConFromSessid e (the (pr_to (the (parsePushResp e req))))")
    (auto simp: handlePushResponse_def Let_def split: if_splits prod.splits option.splits)

text \<open>A packet leaves the list of servers as it is, or makes its connection a server and enters it.\<close>

lemma packet_cases:
  assumes "handlePacket e req c w = Done (ret, c', w')"
  shows "cc_id c' = cc_id c \<and>
    (is_server c' = is_server c \<and> m_svs w' = m_svs w \<or>
     \<not> is_server c \<and> is_server c' \<and> m_svs w' = m_svs w @ [cc_id c])"
proof -
  let ?cmd = "sint (htonl (h_cmd (load_head req)))" and ?body = "drop sizeof_head req"
  have len: "\<not> length req < sizeof_head" using assms by (auto simp: handlePacket_def)
  obtain u c1 w1 where upd: "updateSession e c w = (u, c1, w1)" by (metis prod_cases3)
  note keeps = updateSession_keeps [OF upd]
  have same: "is_server c1 = is_server c" using keeps by (simp add: is_server_def)
  consider "?cmd = LOGIN_REQ" | "?cmd = PUSH_REQ" | "?cmd = PUSH_RESP" | "?cmd = KEEPALIVE_REQ"
    | "?cmd \<notin> {LOGIN_REQ, PUSH_REQ, PUSH_RESP, KEEPALIVE_REQ}" by blast
  then show ?thesis
  proof cases
    case 1
    obtain r resp c2 w2 where lg: "handleLoginRequest e ?body c w = (r, resp, c2, w2)" by (metis prod_cases4)
    have "c' = c2" "m_svs w' = m_svs w2"
      using assms len 1 lg by (auto simp: handlePacket_def Let_def split: if_splits prod.splits
          dest: arg_cong [where f = "\<lambda>x. m_svs (snd x)"])
    moreover have "cc_status c \<noteq> STATUS_LOGIN \<Longrightarrow> \<not> is_server c" by (simp add: is_server_def)
    ultimately show ?thesis using login_cases [OF lg] by (cases "is_server c2") auto
  next
    case 2
    then obtain r resp w2 where p: "handlePushRequest e ?body c1 w1 = Done (r, resp, w2)"
      using assms len upd by (cases "handlePushRequest e ?body c1 w1") (auto simp: handlePacket_def Let_def cmd_defs)
    have "c' = c1" "m_svs w' = m_svs w2"
      using assms len 2 upd p by (auto simp: handlePacket_def Let_def cmd_defs sendCmd_def split: if_splits)
    then show ?thesis using handlePushRequest_svs [OF p] keeps same by simp
  next
    case 3
    then obtain r w2 where p: "handlePushResponse e ?body w1 = Done (r, w2)"
      using assms len upd by (cases "handlePushResponse e ?body w1") (auto simp: handlePacket_def Let_def cmd_defs)
    have "c' = c1" "m_svs w' = m_svs w2"
      using assms len 3 upd p by (auto simp: handlePacket_def Let_def cmd_defs sendCmd_def split: if_splits)
    then show ?thesis using handlePushResponse_svs [OF p] keeps same by simp
  next
    case 4
    then have "c' = c1" "m_svs w' = m_svs w1"
      using assms len upd by (auto simp: handlePacket_def Let_def cmd_defs sendCmd_def split: if_splits)
    then show ?thesis using keeps same by simp
  next
    case 5
    then have "c' = c" "m_svs w' = m_svs w"
      using assms len by (auto simp: handlePacket_def Let_def cmd_defs sendCmd_def split: if_splits)
    then show ?thesis by simp
  qed
qed

subsection \<open>All connections of a server\<close>

type_synonym cs_state = "(int \<Rightarrow> cli_con option) \<times> cs_world"

inductive cs_step :: "cs_state \<Rightarrow> cs_state \<Rightarrow> bool" where
  create: "conns i = None \<Longrightarrow> cs_step (conns, w) (conns(i \<mapsto> CliCon_init i lt rq rs), snd (onCreate e (CliCon_init i lt rq rs) w))"
| packet: "conns i = Some c \<Longrightarrow> handlePacket e req c w = Done (ret, c', w') \<Longrightarrow> cs_step (conns, w) (conns(i \<mapsto> c'), w')"
| timer: "conns i = Some c \<Longrightarrow> cs_step (conns, w) (conns, snd (handleTimer e k c w))"
| delete: "conns i = Some c \<Longrightarrow> cs_step (conns, w) (conns(i := None), CliCon_delete e c w)"

inductive cs_reach :: "cs_state \<Rightarrow> bool" where
  start: "cs_reach (\<lambda>i. None, \<lparr>m_svs = [], m_cnt = 0, effects = []\<rparr>)"
| step: "cs_reach st \<Longrightarrow> cs_step st st' \<Longrightarrow> cs_reach st'"

definition servers_ok :: "cs_state \<Rightarrow> bool" where
  "servers_ok st \<longleftrightarrow>
     (case st of (conns, w) \<Rightarrow>
        distinct (m_svs w) \<and> (\<forall>i c. conns i = Some c \<longrightarrow> cc_id c = i) \<and>
        (\<forall>i. i \<in> set (m_svs w) \<longleftrightarrow> (\<exists>c. conns i = Some c \<and> is_server c)))"

lemma timer_svs [simp]: "m_svs (snd (handleTimer e k c w)) = m_svs w"
  by (simp add: handleTimer_def)

lemma delete_svs: "m_svs (CliCon_delete e c w) = (if is_server c then remove1 (cc_id c) (m_svs w) else m_svs w)"
  by (simp add: CliCon_delete_def delSession_def is_server_def delServer_def)

lemma servers_ok_step: "cs_step st st' \<Longrightarrow> servers_ok st \<Longrightarrow> servers_ok st'"
proof (induction rule: cs_step.induct)
  case (create conns i w lt rq rs e)
  have "m_svs (snd (onCreate e (CliCon_init i lt rq rs) w)) = m_svs w" by (simp add: onCreate_def Let_def)
  moreover have "\<not> is_server (CliCon_init i lt rq rs)" "cc_id (CliCon_init i lt rq rs) = i"
    by (simp_all add: is_server_def CliCon_init_def STATUS_INIT_def STATUS_LOGIN_def)
  ultimately show ?case using create by (auto simp: servers_ok_def)
next
  case (packet conns i c e req w ret c' w')
  have i: "cc_id c = i" using packet by (auto simp: servers_ok_def)
  show ?case using packet_cases [OF packet(2)] packet(1,3) i by (auto simp: servers_ok_def)
next
  case (timer conns i c w e k)
  then show ?case by (simp add: servers_ok_def)
next
  case (delete conns i c w e)
  have i: "cc_id c = i" using delete by (auto simp: servers_ok_def)
  show ?case using delete i by (auto simp: servers_ok_def delete_svs)
qed

lemma servers_ok_reach: "cs_reach st \<Longrightarrow> servers_ok st"
  by (induction rule: cs_reach.induct) (simp add: servers_ok_def, rule servers_ok_step)

lemma push_posted:
  assumes "0 \<le> s_type (cc_sess c)" "parsePush e req = Some q" "getConFromSessid e (pq_to q) = Done (0, l, conid)"
    "0 \<le> post_ret e l conid"
  shows "handlePushRequest e req c w = Done (post_ret e l conid, [], emit (Posted l conid PUSH_REQ req) w)"
  using assms by (simp add: handlePushRequest_def Let_def)

definition test_env :: cs_env where
  "test_env = \<lparr>e_id = 1, e_threads = 4, MinType = -10, MaxType = 10, AliveMs = 60000, MaxReqQueSize = 0,
     StartThreadIdx = 0, ThreadCnt = 4, e_now = 1000,
     parseLogin = \<lambda>b. Some \<lparr>lq_id = b, lq_type = -1, lq_token = [], lq_version = [], lq_kvs = []\<rparr>,
     putLogin = lr_sessid, parsePush = \<lambda>b. Some \<lparr>pq_from = [], pq_to = b, pq_sn = [], pq_type = 0, pq_payload = []\<rparr>,
     putPush = pq_to, parsePushResp = \<lambda>b. None, putPushResp = pr_sn, has_cache = True, store_ret = \<lambda>s. 0,
     post_ret = \<lambda>l i. 0, send_ret = 0\<rparr>"

subsection \<open>Properties\<close>

text \<open>
  C24: the list of push servers holds the logged-in ones and nothing else. Whatever the connections of the
  server receive, and whenever they end, each connection that is logged in with a positive type is in
  the list once, and no ended one is.
\<close>

theorem servers_listed:
  assumes "cs_reach (conns, w)"
  shows "distinct (m_svs w) \<and> (\<forall>i. i \<in> set (m_svs w) \<longleftrightarrow> (\<exists>c. conns i = Some c \<and> is_server c))"
  using servers_ok_reach [OF assms] by (simp add: servers_ok_def)

theorem servers_listed_witness:
  "distinct (m_svs (snd (onCreate test_env (CliCon_init 7 0 0 0) \<lparr>m_svs = [], m_cnt = 0, effects = []\<rparr>)))"
proof -
  have "cs_reach ((\<lambda>i. None)(7 \<mapsto> CliCon_init 7 0 0 0), snd (onCreate test_env (CliCon_init 7 0 0 0) \<lparr>m_svs = [], m_cnt = 0, effects = []\<rparr>))"
    by (rule cs_reach.step [OF cs_reach.start], rule cs_step.create) simp
  from servers_listed [OF this] show ?thesis by simp
qed

text \<open>
  C25: a push to the session id that a login returned reaches that connection. The dispatcher gives a
  connection its number from its loop; the session id made from it at login leads back to the loop and the
  number, and a push to it from whoever may push is handed to that loop for that connection.
\<close>

theorem push_reaches_login:
  assumes "dispatchConnection e k = Done (idx, cc_id c)" "0 \<le> k" "0 \<le> idx" "idx < e_threads e" "idx < 2147"
    and "e_id e \<in> {- (2 ^ 31)..<2 ^ 31}"
    and "cc_status c \<noteq> STATUS_LOGIN" "handleLoginRequest e req c w = (ret, resp, c', w')" "0 \<le> ret"
    and "0 \<le> s_type (cc_sess p)" "parsePush e r = Some q" "pq_to q = sessid (cc_sess c')" "0 \<le> post_ret e idx (cc_id c)"
  shows "getConFromSessid e (sessid (cc_sess c')) = Done (0, idx, cc_id c) \<and>
    handlePushRequest e r p v = Done (post_ret e idx (cc_id c), [], emit (Posted idx (cc_id c) PUSH_REQ r) v)"
proof -
  obtain lg where lg: "parseLogin e req = Some lg"
    using assms(8,9) by (cases "parseLogin e req") (auto simp: handleLoginRequest_def INPUT_FORMAT_ERROR_def Let_def)
  obtain r1 c1 w1 where acc: "login_accept e lg c w = (r1, c1, w1)" by (metis prod_cases3)
  have sid: "sessid (cc_sess c') = decorationName (e_id e) (cc_id c) (lq_id lg)"
    using assms(7,8,9) lg accept_cases [OF acc] by (auto simp: handleLoginRequest_def acc Let_def split: if_splits)
  have id: "cc_id c = getConnectionId idx k" and cid: "getConnectionId idx k = idx * 1000000 + k mod 1000000"
    and loop: "getEventLoopId (cc_id c) = idx"
    using assms(1) connection_id [OF assms(3,5,2)] by (auto simp: dispatchConnection_def Let_def split: if_splits)
  have "k mod 1000000 < 1000000" "0 \<le> k mod 1000000" by simp_all
  then have "0 \<le> cc_id c" "cc_id c < 2147 * 1000000" unfolding id cid using assms(3,5) by linarith+
  then have "- (2 ^ 31) \<le> cc_id c" "cc_id c < 2 ^ 31" by simp_all
  then have "getDecorationInfo (sessid (cc_sess c')) = Done (e_id e, cc_id c, lq_id lg)"
    unfolding sid using assms(6) by (intro decoration_info) simp_all
  then have g: "getConFromSessid e (sessid (cc_sess c')) = Done (0, idx, cc_id c)"
    using assms(3,4) loop by (simp add: getConFromSessid_def)
  then show ?thesis using push_posted [OF assms(10,11)] assms(12,13) by simp
qed

text \<open>
  Who may push, and what a bad session id does. A connection that has not logged in may push to any
  session, as its type is 0; one that has logged in as a user is refused. A session id below twelve bytes, as any
  peer can send it, makes the server read behind the decoded name.
\<close>

theorem push_without_login:
  assumes "parsePush e req = Some q"
  shows "(\<forall>l conid. getConFromSessid e (pq_to q) = Done (0, l, conid) \<and> 0 \<le> post_ret e l conid \<longrightarrow>
      handlePushRequest e req (CliCon_init i lt rq rs) w =
        Done (post_ret e l conid, [], emit (Posted l conid PUSH_REQ req) w)) \<and>
    (length (pq_to q) < 12 \<longrightarrow> handlePushRequest e req (CliCon_init i lt rq rs) w = Fault) \<and>
    (s_type (cc_sess c) < 0 \<longrightarrow> (\<exists>resp. handlePushRequest e req c w = Done (INVALID_TYPE, resp, w)))"
  using assms push_posted [of "CliCon_init i lt rq rs" e req q] short_name_fault [of "pq_to q"]
  by (auto simp: CliCon_init_def Sess_init_def handlePushRequest_def getConFromSessid_def INVALID_TYPE_def Let_def)

theorem push_without_login_witness:
  "handlePushRequest test_env [65, 66] (CliCon_init 5 0 0 0) \<lparr>m_svs = [], m_cnt = 0, effects = []\<rparr> = Fault"
  using push_without_login [of test_env "[65, 66]"] by (simp add: test_env_def)

theorem push_reaches_login_witness:
  "\<exists>ret resp c' w'. handleLoginRequest test_env [65] (CliCon_init 2000006 0 0 0) \<lparr>m_svs = [], m_cnt = 0, effects = []\<rparr> = (ret, resp, c', w') \<and>
     getConFromSessid test_env (sessid (cc_sess c')) = Done (0, 2, 2000006)"
proof -
  obtain ret resp c' w' where l: "handleLoginRequest test_env [65] (CliCon_init 2000006 0 0 0) \<lparr>m_svs = [], m_cnt = 0, effects = []\<rparr> = (ret, resp, c', w')"
    by (metis prod_cases4)
  have ret: "0 \<le> ret" "cc_status (CliCon_init 2000006 0 0 0) \<noteq> STATUS_LOGIN"
    using l by (auto simp: handleLoginRequest_def login_accept_def login_begin_def login_name_def checkType_def
        updateSession_def test_env_def CliCon_init_def STATUS_INIT_def STATUS_LOGIN_def Let_def)
  have "dispatchConnection test_env 6 = Done (2, cc_id (CliCon_init 2000006 0 0 0))"
    by (simp add: dispatchConnection_def test_env_def getConnectionId_def EVENT_LOOP_ID_MASK_def c_mod_def c_div_def
        i32_def CliCon_init_def)
  from push_reaches_login [OF this _ _ _ _ _ ret(2) l ret(1), of "CliCon_init 9 0 0 0" "sessid (cc_sess c')"] l
  show ?thesis by (auto simp: test_env_def CliCon_init_def Sess_init_def)
qed
end
