(* ===== verification/PushServer.thy ===== *)
theory PushServer
  imports SessId Messages Json Sock Loader ServerStatus
begin

text \<open>
  The push server: its connections to the connect servers (\<^verbatim>\<open>push_server/src/server_conn.cpp\<close>), the table of
  those that have registered and its upkeep (\<^verbatim>\<open>push_server/src/server_manager.cpp\<close>), and the requests of
  applications (\<^verbatim>\<open>push_server/src/listen_conn.cpp\<close>). As for the connect server, the effects on the
  surroundings are recorded in a list and their results come from the environment; the message readers and
  writers, the JSON library's parser and writer and the session cache are part of it.
\<close>

subsection \<open>State and surroundings\<close>

definition SV_STATUS_INIT :: int where "SV_STATUS_INIT = 0"
definition SV_STATUS_LOGIN :: int where "SV_STATUS_LOGIN = 1"

record sv_con =
  sc_status :: int
  con_serv_id :: int
  sc_sessid :: bytes

datatype sv_effect =
    SvSent int bytes             \<comment> \<open>connection, packet\<close>
  | SvConnect int bytes int      \<comment> \<open>connection, address, port\<close>
  | SvAdded int                  \<comment> \<open>handed to the loop\<close>
  | SvDisconnect int
  | ListenSent bytes             \<comment> \<open>packet to the application\<close>

record ps_env =
  ps_id :: int
  ps_type :: int
  putLoginReq :: "login_request \<Rightarrow> bytes"
  parseLoginResp :: "bytes \<Rightarrow> login_response"
  putPushReq :: "push_request \<Rightarrow> bytes"
  parsePResp :: "bytes \<Rightarrow> push_response option"
  parseJson :: "bytes \<Rightarrow> json option"
  styled :: "json \<Rightarrow> bytes"
  sess_of :: "bytes \<Rightarrow> sess list"
  got_cache :: bool
  connect_ret :: "bytes \<Rightarrow> int \<Rightarrow> int"
  sv_send :: "int \<Rightarrow> int"
  listen_send :: int

text \<open>
  One loop's world: its connections by identity, \<open>Svlist::m_svcons\<close> by server id, the next new identity, the
  loader, the effects.
\<close>

record ps_world =
  sv_conns :: "int \<Rightarrow> sv_con option"
  m_svcons :: "(int, int) std_map"
  next_con :: int
  sv_loader :: "(int, server_status) std_map loader"
  sv_effects :: "sv_effect list"

definition sv_emit :: "sv_effect \<Rightarrow> ps_world \<Rightarrow> ps_world" where
  "sv_emit x w = w\<lparr>sv_effects := sv_effects w @ [x]\<rparr>"

subsection \<open>The table of servers\<close>

definition sv_addServer :: "int \<Rightarrow> int \<Rightarrow> ps_world \<Rightarrow> ps_world" where
  "sv_addServer i con w = w\<lparr>m_svcons := map_put i con (m_svcons w)\<rparr>"

definition sv_delServer :: "int \<Rightarrow> ps_world \<Rightarrow> ps_world" where
  "sv_delServer i w = w\<lparr>m_svcons := map_erase i (m_svcons w)\<rparr>"

definition getServer :: "int \<Rightarrow> ps_world \<Rightarrow> int option" where
  "getServer i w = map_of (m_svcons w) i"

subsection \<open>A connection to a connect server\<close>

definition SvCon_init :: "int \<Rightarrow> sv_con" where
  \<comment> \<open>with \<open>setConnSvID\<close>, which follows at once\<close>
  "SvCon_init svid = \<lparr>sc_status = SV_STATUS_INIT, con_serv_id = svid, sc_sessid = []\<rparr>"

definition sv_head :: "int \<Rightarrow> head" where
  "sv_head cmd = \<lparr>h_magic = MAGIC_NUMBER, h_len = 0, h_cmd = word_of_int cmd\<rparr>"

definition doRegister :: "ps_env \<Rightarrow> int \<Rightarrow> ps_world \<Rightarrow> int \<times> ps_world" where
  "doRegister e con w =
     (let lgr = \<lparr>lq_id = itostr (ps_id e), lq_type = ps_type e, lq_token = [], lq_version = [], lq_kvs = []\<rparr>;
          req = lg_constructPacket (sv_head LOGIN_REQ) (putLoginReq e lgr)
      in (sv_send e con, sv_emit (SvSent con req) w))"

definition sv_onConnected :: "ps_env \<Rightarrow> int \<Rightarrow> ps_world \<Rightarrow> int \<times> ps_world" where
  "sv_onConnected e con w = doRegister e con w"

definition sv_keepAlive :: "ps_env \<Rightarrow> int \<Rightarrow> ps_world \<Rightarrow> int \<times> ps_world" where
  "sv_keepAlive e con w =
     (sv_send e con, sv_emit (SvSent con (lg_constructPacket (sv_head KEEPALIVE_REQ) [])) w)"

definition sv_onDisconnected :: "sv_con \<Rightarrow> ps_world \<Rightarrow> int \<times> ps_world" where
  "sv_onDisconnected c w = (0, sv_delServer (con_serv_id c) w)"

text \<open>The destructor; the connection is gone afterwards.\<close>

definition SvCon_delete :: "int \<Rightarrow> sv_con \<Rightarrow> ps_world \<Rightarrow> ps_world" where
  "SvCon_delete con c w = (sv_delServer (con_serv_id c) w)\<lparr>sv_conns := (sv_conns w)(con := None)\<rparr>"

text \<open>\<open>parseLoginResp\<close>: what the message is after parsing, whose result is not looked at.\<close>

definition handleRegisterResponse :: "ps_env \<Rightarrow> bytes \<Rightarrow> int \<Rightarrow> sv_con \<Rightarrow> ps_world \<Rightarrow> int \<times> ps_world" where
  "handleRegisterResponse e resp con c w =
     (let lgresp = parseLoginResp e resp
      in if lr_status lgresp < 0 then (0, sv_emit (SvDisconnect con) w)
         else let c = c\<lparr>sc_status := SV_STATUS_LOGIN, sc_sessid := lr_sessid lgresp\<rparr>;
                  w = w\<lparr>sv_conns := (sv_conns w)(con \<mapsto> c)\<rparr>
              in (0, sv_addServer (con_serv_id c) con w))"

definition sv_handlePushResponse :: "ps_env \<Rightarrow> bytes \<Rightarrow> int" where
  "sv_handlePushResponse e resp = (case parsePResp e resp of None \<Rightarrow> -1 | Some presp \<Rightarrow> 0)"

text \<open>A packet shorter than a head would be read behind its end; \<open>checkPackLen\<close> lets none through.\<close>

definition sv_handlePacket :: "ps_env \<Rightarrow> bytes \<Rightarrow> int \<Rightarrow> sv_con \<Rightarrow> ps_world \<Rightarrow> (int \<times> ps_world) outcome" where
  "sv_handlePacket e req con c w =
     (if length req < sizeof_head then Fault
      else
        let cmd = sint (htonl (h_cmd (load_head req))); body = drop sizeof_head req
        in Done (if cmd = LOGIN_RESP then handleRegisterResponse e body con c w
                 else if cmd = PUSH_RESP then (sv_handlePushResponse e body, w)
                 else (0, w)))"

definition sendPushRequest :: "ps_env \<Rightarrow> push_request \<Rightarrow> int \<Rightarrow> sv_con \<Rightarrow> ps_world \<Rightarrow> int \<times> ps_world" where
  "sendPushRequest e req con c w =
     (let req1 = req\<lparr>pq_from := sc_sessid c\<rparr>
      in (sv_send e con, sv_emit (SvSent con (lg_constructPacket (sv_head PUSH_REQ) (putPushReq e req1))) w))"

subsection \<open>Keeping the table\<close>

fun connectIP_loop :: "ps_env \<Rightarrow> int \<Rightarrow> int \<Rightarrow> bytes list \<Rightarrow> int \<Rightarrow> ps_world \<Rightarrow> int \<times> ps_world" where
  "connectIP_loop e con port [] ret w = (ret, w)"
| "connectIP_loop e con port (ip # a) ret w =
     (let w = sv_emit (SvConnect con ip port) w; ret = connect_ret e ip port
      in if ret \<ge> 0 then (ret, w) else connectIP_loop e con port a ret w)"

definition connectIPArray :: "ps_env \<Rightarrow> int \<Rightarrow> bytes list \<Rightarrow> int \<Rightarrow> ps_world \<Rightarrow> int \<times> ps_world" where
  "connectIPArray e con a port w = (if a = [] then (-1, w) else connectIP_loop e con port a 0 w)"

fun local_ips :: "bytes list \<Rightarrow> (bytes list \<times> bytes list) outcome" where
  "local_ips [] = Done ([], [])"
| "local_ips (ip # ips) =
     bind_outcome (isLocalIP_str ip) (\<lambda>b. bind_outcome (local_ips ips) (\<lambda>(ls, ps).
       Done (if b then (ip # ls, ps) else (ls, ip # ps))))"

definition connectServer :: "ps_env \<Rightarrow> server_status \<Rightarrow> ps_world \<Rightarrow> (int \<times> ps_world) outcome" where
  "connectServer e s w =
     (let con = next_con w;
          w = w\<lparr>sv_conns := (sv_conns w)(con \<mapsto> SvCon_init (ID s)), next_con := con + 1\<rparr>
      in if Ports s = [] then Fault
         else let port = Port (hd (Ports s))
              in bind_outcome (local_ips (IPs s)) (\<lambda>(localIPs, publicIPs).
                   let (ret, w) = connectIPArray e con localIPs port w;
                       (ret, w) = (if ret < 0 then connectIPArray e con publicIPs port w else (ret, w))
                   in Done (0, sv_emit (SvAdded con) w)))"

fun connect_missing :: "ps_env \<Rightarrow> (int, server_status) std_map \<Rightarrow> ps_world \<Rightarrow> ps_world outcome" where
  "connect_missing e [] w = Done w"
| "connect_missing e ((i, s) # m) w =
     (if getServer i w \<noteq> None then connect_missing e m w
      else bind_outcome (connectServer e s w) (\<lambda>(ret, w). connect_missing e m w))"

definition checkServers :: "ps_env \<Rightarrow> (int, server_status) std_map data_src \<Rightarrow> ps_world \<Rightarrow> (int \<times> ps_world) outcome" where
  "checkServers e src w =
     (let (l, ld) = loadData src (sv_loader w);
          w = w\<lparr>sv_loader := ld\<rparr>
      in if \<not> l then Done (0, w)
         else bind_outcome (connect_missing e (ld_data ld) w) (\<lambda>w. Done (0, w)))"

definition for_type :: "int \<Rightarrow> server_status \<Rightarrow> server_status" where
  "for_type ty s2 = s2\<lparr>Ports := filter (\<lambda>p. MinType p \<le> ty \<and> MaxType p > ty) (Ports s2)\<rparr>"

definition onSvListChange :: "ps_env \<Rightarrow> (bytes, server_status) std_map \<Rightarrow> (int, server_status) std_map data_src \<Rightarrow>
    int \<times> (int, server_status) std_map data_src" where
  "onSvListChange e notify src =
     (let m = fold (\<lambda>(k, s2) m. let s1 = for_type (ps_type e) s2
                               in if Ports s1 = [] then m else map_put (atoi k) s1 m) notify []
      in (0, snd (setData m src)))"

subsection \<open>Requests of applications\<close>

definition sendJsonResponse :: "ps_env \<Rightarrow> json \<Rightarrow> ps_world \<Rightarrow> int \<times> ps_world" where
  "sendJsonResponse e v w =
     (listen_send e, sv_emit (ListenSent (lg_constructPacket (sv_head JSON_PUSH_RESP) (styled e v))) w)"

text \<open>A pointer in the table to a connection that is gone would be \<open>Fault\<close>.\<close>

definition sendToServer :: "ps_env \<Rightarrow> int \<Rightarrow> push_request \<Rightarrow> ps_world \<Rightarrow> (int \<times> ps_world) outcome" where
  "sendToServer e svid preq w =
     (case getServer svid w of
        None \<Rightarrow> Done (-1, w)
      | Some con \<Rightarrow>
          (case sv_conns w con of
             None \<Rightarrow> Fault
           | Some c \<Rightarrow> Done (sendPushRequest e preq con c w)))"

fun push_all :: "ps_env \<Rightarrow> push_request \<Rightarrow> sess list \<Rightarrow> int \<Rightarrow> ps_world \<Rightarrow> (int \<times> ps_world) outcome" where
  "push_all e preq [] count w = Done (count, w)"
| "push_all e preq (ss # sv) count w =
     (let preq = preq\<lparr>pq_to := sessid ss\<rparr>
      in bind_outcome (sendToServer e (consvid ss) preq w) (\<lambda>(ret, w).
           push_all e preq sv (if ret \<ge> 0 then count + 1 else count) w))"

text \<open>The answer's status and message, and the return value, of a refused request.\<close>

definition refuse :: "ps_env \<Rightarrow> json \<Rightarrow> int \<Rightarrow> string \<Rightarrow> ps_world \<Rightarrow> (int \<times> ps_world) outcome" where
  "refuse e respv st msg w =
     bind_outcome (jput ''status'' (intValue st) respv) (\<lambda>respv.
     bind_outcome (jput ''message'' (stringValue (bytes_of msg)) respv) (\<lambda>respv.
       Done (st, snd (sendJsonResponse e respv w))))"

definition handlePushReqeust :: "ps_env \<Rightarrow> bytes \<Rightarrow> ps_world \<Rightarrow> (int \<times> ps_world) outcome" where
  "handlePushReqeust e req w =
     bind_outcome (jput ''status'' (intValue 0) nullValue) (\<lambda>respv.
       case parseJson e req of
         None \<Rightarrow> refuse e respv (-1) ''parse req fail'' w
       | Some v \<Rightarrow>
           bind_outcome (jget v ''sn'') (\<lambda>sn.
           bind_outcome (jput ''sn'' sn respv) (\<lambda>respv.
           bind_outcome (bind_outcome (jget v ''type'') asInt) (\<lambda>ty.
           bind_outcome (bind_outcome (jget v ''payload'') asString) (\<lambda>pl.
           bind_outcome (asString sn) (\<lambda>sns.
             let preq = \<lparr>pq_from = [], pq_to = [], pq_sn = sns, pq_type = ty, pq_payload = pl\<rparr>
             in if \<not> got_cache e then refuse e respv (-2) ''get sess cache fail'' w
                else bind_outcome (jget v ''to_id'') (\<lambda>to.
                  if \<not> isString to then refuse e respv (-4) ''to_id is empty'' w
                  else bind_outcome (asString to) (\<lambda>i.
                    let sv = sess_of e i
                    in if sv = [] then refuse e respv (-3) ''user offline'' w
                       else bind_outcome (push_all e preq sv 0 w) (\<lambda>(count, w).
                            bind_outcome (jput ''count'' (intValue count) respv) (\<lambda>respv.
                              Done (count, snd (sendJsonResponse e respv w))))))))))))"

definition listen_handlePacket :: "ps_env \<Rightarrow> bytes \<Rightarrow> ps_world \<Rightarrow> (int \<times> ps_world) outcome" where
  "listen_handlePacket e req w =
     (if length req < sizeof_head then Fault
      else let cmd = sint (htonl (h_cmd (load_head req)))
           in if cmd = JSON_PUSH_REQ then handlePushReqeust e (drop sizeof_head req) w else Done (0, w))"

subsection \<open>One loop's steps\<close>

inductive ps_step :: "ps_world \<Rightarrow> ps_world \<Rightarrow> bool" where
  check: "checkServers e src w = Done (ret, w') \<Longrightarrow> ps_step w w'"
| packet: "sv_conns w con = Some c \<Longrightarrow> sv_handlePacket e req con c w = Done (ret, w') \<Longrightarrow> ps_step w w'"
| connected: "sv_conns w con = Some c \<Longrightarrow> ps_step w (snd (sv_onConnected e con w))"
| keepalive: "sv_conns w con = Some c \<Longrightarrow> ps_step w (snd (sv_keepAlive e con w))"
| disconnected: "sv_conns w con = Some c \<Longrightarrow> ps_step w (snd (sv_onDisconnected c w))"
| delete: "sv_conns w con = Some c \<Longrightarrow> ps_step w (SvCon_delete con c w)"
| request: "listen_handlePacket e req w = Done (ret, w') \<Longrightarrow> ps_step w w'"

inductive ps_reach :: "ps_world \<Rightarrow> bool" where
  start: "ps_reach \<lparr>sv_conns = (\<lambda>i. None), m_svcons = [], next_con = 0, sv_loader = Loader_init [], sv_effects = []\<rparr>"
| step: "ps_reach w \<Longrightarrow> ps_step w w' \<Longrightarrow> ps_reach w'"

text \<open>Every entry of the table is a living connection, logged in, to the server of that id.\<close>

definition table_ok :: "ps_world \<Rightarrow> bool" where
  "table_ok w \<longleftrightarrow>
     (\<forall>con. sv_conns w con \<noteq> None \<longrightarrow> con < next_con w) \<and>
     (\<forall>i con. map_of (m_svcons w) i = Some con \<longrightarrow>
        (\<exists>c. sv_conns w con = Some c \<and> con_serv_id c = i \<and> sc_status c = SV_STATUS_LOGIN))"

lemma sv_emit_keeps [simp]:
  "sv_conns (sv_emit x w) = sv_conns w" "m_svcons (sv_emit x w) = m_svcons w" "next_con (sv_emit x w) = next_con w"
  "sv_loader (sv_emit x w) = sv_loader w" "sv_effects (sv_emit x w) = sv_effects w @ [x]"
  by (simp_all add: sv_emit_def)

lemma sv_emit_effects [simp]: "(sv_emit x w)\<lparr>sv_effects := xs\<rparr> = w\<lparr>sv_effects := xs\<rparr>"
  by (simp add: sv_emit_def)

lemma getServer_emit [simp]: "getServer i (sv_emit x w) = getServer i w"
  by (simp add: getServer_def)

lemma table_ok_same:
  "sv_conns w' = sv_conns w \<Longrightarrow> m_svcons w' = m_svcons w \<Longrightarrow> next_con w' = next_con w \<Longrightarrow> table_ok w' = table_ok w"
  by (simp add: table_ok_def)

lemma table_ok_emit [simp]: "table_ok (sv_emit x w) = table_ok w"
  by (rule table_ok_same) simp_all

lemma map_of_erase': "map_of (map_erase k m) i = (if i = k then None else map_of m i)"
  by (simp add: map_of_erase)

lemma table_ok_delServer: "table_ok w \<Longrightarrow> table_ok (sv_delServer i w)"
  by (simp add: table_ok_def sv_delServer_def map_of_erase')

lemma table_ok_delete:
  assumes "table_ok w" "sv_conns w con = Some c" shows "table_ok (SvCon_delete con c w)"
  using assms by (fastforce simp: table_ok_def SvCon_delete_def sv_delServer_def map_of_erase')

lemma table_ok_register:
  assumes "table_ok w" "sv_conns w con = Some c"
  shows "table_ok (snd (handleRegisterResponse e resp con c w))"
  using assms by (fastforce simp: table_ok_def handleRegisterResponse_def sv_addServer_def Let_def)

lemma connectIP_keeps: "connectIPArray e con a port w = (ret, w') \<Longrightarrow> \<exists>xs. w' = w\<lparr>sv_effects := sv_effects w @ xs\<rparr>"
proof -
  have "connectIP_loop e con port a r w = (ret, w') \<Longrightarrow> \<exists>xs. w' = w\<lparr>sv_effects := sv_effects w @ xs\<rparr>" for r w
  proof (induction a arbitrary: r w)
    case Nil
    then show ?case by (intro exI [of _ "[]"]) simp
  next
    case (Cons ip a)
    then show ?case by (fastforce simp: Let_def sv_emit_def split: if_splits)
  qed
  moreover have "w = w\<lparr>sv_effects := sv_effects w @ []\<rparr>" by simp
  moreover assume "connectIPArray e con a port w = (ret, w')"
  ultimately show ?thesis unfolding connectIPArray_def by (auto split: if_splits)
qed

lemma connectServer_keeps:
  assumes "connectServer e s w = Done (ret, w')"
  shows "\<exists>xs. w' = w\<lparr>sv_conns := (sv_conns w)(next_con w \<mapsto> SvCon_init (ID s)), next_con := next_con w + 1,
    sv_effects := sv_effects w @ xs\<rparr>"
proof -
  let ?w = "w\<lparr>sv_conns := (sv_conns w)(next_con w \<mapsto> SvCon_init (ID s)), next_con := next_con w + 1\<rparr>"
  let ?p = "Port (hd (Ports s))"
  obtain ls ps where l: "local_ips (IPs s) = Done (ls, ps)"
    using assms by (cases "local_ips (IPs s)") (auto simp: connectServer_def Let_def split: if_splits)
  obtain r1 w1 where a1: "connectIPArray e (next_con w) ls ?p ?w = (r1, w1)" by fastforce
  obtain r2 w2 where a2: "(if r1 < 0 then connectIPArray e (next_con w) ps ?p w1 else (r1, w1)) = (r2, w2)" by fastforce
  have "w' = sv_emit (SvAdded (next_con w)) w2"
    using assms l a1 a2 by (auto simp: connectServer_def Let_def split: if_splits)
  moreover obtain xs where "w1 = ?w\<lparr>sv_effects := sv_effects w @ xs\<rparr>" using connectIP_keeps [OF a1] by auto
  moreover from this obtain ys where "w2 = ?w\<lparr>sv_effects := sv_effects w @ ys\<rparr>"
    using a2 connectIP_keeps [of e "next_con w" ps ?p w1 r2 w2] by (cases "r1 < 0") auto
  ultimately show ?thesis
    by (intro exI [of _ "ys @ [SvAdded (next_con w)]"]) (simp add: sv_emit_def)
qed

lemma table_ok_connect:
  assumes "table_ok w" "connectServer e s w = Done (ret, w')" shows "table_ok w'"
proof -
  obtain xs where w': "w' = w\<lparr>sv_conns := (sv_conns w)(next_con w \<mapsto> SvCon_init (ID s)), next_con := next_con w + 1,
      sv_effects := sv_effects w @ xs\<rparr>"
    using connectServer_keeps [OF assms(2)] by blast
  have "sv_conns w (next_con w) = None" using assms(1) unfolding table_ok_def by (metis less_irrefl)
  then show ?thesis using assms(1) unfolding w' table_ok_def by fastforce
qed

lemma table_ok_missing: "table_ok w \<Longrightarrow> connect_missing e m w = Done w' \<Longrightarrow> table_ok w'"
proof (induction e m w rule: connect_missing.induct)
  case (2 e i s m w)
  show ?case
  proof (cases "getServer i w = None")
    case True
    then obtain r w1 where c1: "connectServer e s w = Done (r, w1)" "connect_missing e m w1 = Done w'"
      using 2(4) by (cases "connectServer e s w") auto
    have "table_ok w1" by (rule table_ok_connect [OF 2(3) c1(1)])
    then show ?thesis using 2(2) True c1 by auto
  next
    case False
    then show ?thesis using 2 by simp
  qed
qed simp

text \<open>The packet that a session's push causes, if its server is in the table, and whether it counts.\<close>

definition push_to :: "ps_env \<Rightarrow> ps_world \<Rightarrow> push_request \<Rightarrow> sess \<Rightarrow> sv_effect list" where
  "push_to e w preq s =
     (case getServer (consvid s) w of
        None \<Rightarrow> []
      | Some con \<Rightarrow> [SvSent con (lg_constructPacket (sv_head PUSH_REQ)
          (putPushReq e (preq\<lparr>pq_to := sessid s, pq_from := sc_sessid (the (sv_conns w con))\<rparr>)))])"

definition push_counts :: "ps_env \<Rightarrow> ps_world \<Rightarrow> sess \<Rightarrow> bool" where
  "push_counts e w s = (case getServer (consvid s) w of None \<Rightarrow> False | Some con \<Rightarrow> 0 \<le> sv_send e con)"

lemma push_to_again [simp]:
  "push_to e w (preq\<lparr>pq_to := x\<rparr>) = push_to e w preq" "push_to e (sv_emit y w) = push_to e w"
  "push_counts e (sv_emit y w) = push_counts e w"
  by (auto simp: push_to_def push_counts_def fun_eq_iff split: option.split)

lemma push_all_spec:
  assumes "table_ok w"
  shows "push_all e preq sv n w =
    Done (n + int (length (filter (push_counts e w) sv)),
      w\<lparr>sv_effects := sv_effects w @ concat (map (push_to e w preq) sv)\<rparr>)"
  using assms
proof (induction sv arbitrary: n w preq)
  case (Cons s sv)
  show ?case
  proof (cases "getServer (consvid s) w")
    case None
    then have "push_to e w preq s = []" "\<not> push_counts e w s" by (simp_all add: push_to_def push_counts_def)
    then show ?thesis using Cons None by (simp add: sendToServer_def)
  next
    case (Some con)
    then obtain c where c: "sv_conns w con = Some c" using Cons.prems by (fastforce simp: table_ok_def getServer_def)
    define p where "p = lg_constructPacket (sv_head PUSH_REQ) (putPushReq e (preq\<lparr>pq_to := sessid s, pq_from := sc_sessid c\<rparr>))"
    have one: "push_to e w preq s = [SvSent con p]" "push_counts e w s \<longleftrightarrow> 0 \<le> sv_send e con"
      using Some c by (simp_all add: push_to_def push_counts_def p_def)
    have "sendToServer e (consvid s) (preq\<lparr>pq_to := sessid s\<rparr>) w = Done (sv_send e con, sv_emit (SvSent con p) w)"
      using Some c by (simp add: sendToServer_def sendPushRequest_def Let_def p_def)
    moreover have "table_ok (sv_emit (SvSent con p) w)" using Cons.prems by simp
    ultimately show ?thesis
      using Cons.IH [of "sv_emit (SvSent con p) w" "preq\<lparr>pq_to := sessid s\<rparr>" "if 0 \<le> sv_send e con then n + 1 else n"] one
      by simp
  qed
qed simp

lemma refuse_keeps: "refuse e respv st msg w = Done (ret, w') \<Longrightarrow> table_ok w \<Longrightarrow> table_ok w'"
  by (cases respv) (auto simp: refuse_def sendJsonResponse_def jput_def)

lemma bind_Done: "bind_outcome x f = Done y \<longleftrightarrow> (\<exists>a. x = Done a \<and> f a = Done y)"
  by (cases x) auto

lemma request_keeps:
  assumes "handlePushReqeust e req w = Done (ret, w')" "table_ok w" shows "table_ok w'"
proof -
  have push: "table_ok (snd (sendJsonResponse e v w1))" if "push_all e preq sv 0 w = Done (n, w1)" for v preq sv n w1
  proof -
    have "w1 = w\<lparr>sv_effects := sv_effects w @ concat (map (push_to e w preq) sv)\<rparr>"
      using that push_all_spec [OF assms(2), of e preq sv 0] by simp
    then have "table_ok w1 = table_ok w" by (intro table_ok_same) simp_all
    then show ?thesis using assms(2) by (simp add: sendJsonResponse_def)
  qed
  show ?thesis
    using assms push refuse_keeps unfolding handlePushReqeust_def
    by (auto simp: bind_Done Let_def split: option.splits if_splits)
qed

lemma table_ok_step: "ps_step w w' \<Longrightarrow> table_ok w \<Longrightarrow> table_ok w'"
proof (induction rule: ps_step.induct)
  case (check e src w ret w')
  let ?w = "w\<lparr>sv_loader := snd (loadData src (sv_loader w))\<rparr>"
  have "table_ok ?w = table_ok w" by (rule table_ok_same) simp_all
  then show ?case
    using check table_ok_missing [of ?w e]
    by (auto simp: checkServers_def bind_Done Let_def case_prod_beta split: if_splits)
next
  case (packet w con c e req ret w')
  then show ?case
    using table_ok_register [of w con c e "drop sizeof_head req"]
    by (auto simp: sv_handlePacket_def Let_def split: if_splits)
next
  case (delete w con c)
  then show ?case by (rule table_ok_delete [rotated])
next
  case (request e req w ret w')
  then show ?case
    using request_keeps by (auto simp: listen_handlePacket_def Let_def split: if_splits)
qed (simp_all add: sv_onConnected_def doRegister_def sv_keepAlive_def sv_onDisconnected_def table_ok_delServer Let_def)

lemma table_ok_reach: "ps_reach w \<Longrightarrow> table_ok w"
  by (induction rule: ps_reach.induct) (simp add: table_ok_def, rule table_ok_step)

subsection \<open>Properties\<close>

text \<open>
  C26: the table of servers is sound. Whatever happens to the connections of a loop, every entry of the table is
  a living connection to the server of that id which has logged in; so a push never follows a dangling
  pointer.
\<close>

theorem table_sound:
  assumes "ps_reach w" "getServer i w = Some con"
  shows "(\<exists>c. sv_conns w con = Some c \<and> con_serv_id c = i \<and> sc_status c = SV_STATUS_LOGIN) \<and>
    sendToServer e i preq w \<noteq> Fault"
  using table_ok_reach [OF assms(1)] assms(2) by (fastforce simp: table_ok_def getServer_def sendToServer_def)


text \<open>
  A request of the wrong shape stops the server. A JSON text that is no object, or one whose field
  \<^verbatim>\<open>type\<close> is a text, or whose \<^verbatim>\<open>payload\<close> is an object, fails an assertion or throws an exception that nothing
  catches.
\<close>

theorem request_shape_fault:
  assumes "parseJson e req = Some v"
  shows "(\<forall>vs. v = arrayValue vs \<longrightarrow> handlePushReqeust e req w = Fault) \<and>
    (\<forall>m s. v = objectValue m \<and> map_of m (bytes_of ''type'') = Some (stringValue s) \<longrightarrow>
       handlePushReqeust e req w = Fault) \<and>
    (\<forall>m p. v = objectValue m \<and> map_of m (bytes_of ''payload'') = Some (objectValue p) \<longrightarrow>
       handlePushReqeust e req w = Fault)"
proof -
  have bf: "bind_outcome x (\<lambda>_. Fault) = Fault \<or> x = NoFuel" for x :: "int outcome" by (cases x) auto
  have ni: "asInt x \<noteq> NoFuel" for x by (auto simp: asInt_def split: json.splits)
  show ?thesis
    using assms bf ni
    by (auto simp: handlePushReqeust_def asString_def asInt_def jget_def Let_def simp del: bytes_of_simps
        split: option.splits json.splits)
qed


definition test_ps :: "json \<Rightarrow> ps_env" where
  "test_ps v = \<lparr>ps_id = 2, ps_type = 1, putLoginReq = lq_id, parseLoginResp = \<lambda>b. \<lparr>lr_status = 0, lr_sessid = b\<rparr>,
     putPushReq = pq_to, parsePResp = \<lambda>b. None, parseJson = \<lambda>b. Some v, styled = \<lambda>v. [],
     sess_of = \<lambda>b. [Sess_init], got_cache = True, connect_ret = \<lambda>ip p. 0, sv_send = \<lambda>c. 0, listen_send = 0\<rparr>"

definition ps_start :: ps_world where
  "ps_start = \<lparr>sv_conns = (\<lambda>i. None), m_svcons = [], next_con = 0, sv_loader = Loader_init [], sv_effects = []\<rparr>"

lemma ps_start_reach: "ps_reach ps_start"
  unfolding ps_start_def by (rule ps_reach.start)

theorem table_sound_witness:
  "\<exists>w. getServer 5 w = Some 0 \<and> sendToServer (test_ps nullValue) 5 \<lparr>pq_from = [], pq_to = [], pq_sn = [], pq_type = 0, pq_payload = []\<rparr> w \<noteq> Fault"
proof -
  let ?e = "test_ps nullValue"
  let ?st = "\<lparr>ID = 5, IPs = [], Ports = [\<lparr>Port = 1, MaxType = 9, MinType = 0, Others = nullValue\<rparr>], Properties = nullValue\<rparr>"
  let ?src = "\<lparr>ds_data = [(5, ?st)], ds_version = 1\<rparr>"
  obtain w1 where w1: "checkServers ?e ?src ps_start = Done (0, w1)" "sv_conns w1 0 = Some (SvCon_init 5)"
    by (simp add: checkServers_def loadData_def getSersion_def getData_def ps_start_def Loader_init_def
        getServer_def connectServer_def connectIPArray_def)
  then have r1: "ps_reach w1" using ps_reach.step [OF ps_start_reach ps_step.check] by blast
  let ?p = "lg_constructPacket (sv_head LOGIN_RESP) []"
  have cmd: "sint (htonl (h_cmd (load_head ?p))) = LOGIN_RESP"
    by (simp add: load_head_lg sv_head_def cmd_defs)
  have len: "\<not> length ?p < sizeof_head" by (simp add: lg_packet)
  obtain w2 where w2: "sv_handlePacket ?e ?p 0 (SvCon_init 5) w1 = Done (0, w2)" "getServer 5 w2 = Some 0"
    using cmd len by (simp add: sv_handlePacket_def handleRegisterResponse_def test_ps_def sv_addServer_def
        getServer_def SvCon_init_def Let_def)
  have "ps_reach w2" using ps_reach.step [OF r1 ps_step.packet [OF w1(2) w2(1)]] .
  with w2(2) show ?thesis using table_sound [of w2 5 0 ?e "\<lparr>pq_from = [], pq_to = [], pq_sn = [], pq_type = 0, pq_payload = []\<rparr>"] by blast
qed


theorem request_shape_fault_witness:
  "handlePushReqeust (test_ps (arrayValue [])) [] ps_start = Fault"
  using request_shape_fault [of "test_ps (arrayValue [])" "[]" "arrayValue []" ps_start] by (simp add: test_ps_def)

end
