(* ===== verification/ZkClient.thy ===== *)
theory ZkClient
  imports ServerStatus
begin

unbundle bit_operations_syntax

text \<open>
  The client of ZooKeeper (\<^verbatim>\<open>common/src/zk_client.cpp\<close>) and the watcher objects it serves
  (\<^verbatim>\<open>common/src/zk_watcher.cpp\<close>). A watch of ZooKeeper fires once, so that the callbacks ask for the next one;
  the main question is whether a watcher always has a watch or a request for one outstanding. ZooKeeper's
  library is the parameter \<open>zoo\<close>; what it may call back and when is in the step relations as its
  documentation has it.
\<close>

subsection \<open>Paths\<close>

lemma str_find_some_le: "str_find s sep = Some i \<Longrightarrow> i + length sep \<le> length s"
proof (induction s arbitrary: i)
  case Nil
  then show ?case by (subst (asm) str_find.simps) (auto split: if_splits)
next
  case (Cons x s)
  show ?case
  proof (cases "take (length sep) (x # s) = sep")
    case True
    then have "length sep \<le> length (x # s)" by (metis length_take min.cobounded1)
    moreover have "i = 0" using Cons.prems True by (subst (asm) str_find.simps) simp
    ultimately show ?thesis by simp
  next
    case False
    with Cons.prems show ?thesis
      by (subst (asm) str_find.simps) (auto dest: Cons.IH)
  qed
qed

text \<open>\<^verbatim>\<open>path.replace(pos, old.size(), "/")\<close> until no two slashes are next to each other.\<close>

function zkPath_loop :: "bytes \<Rightarrow> bytes" where
  "zkPath_loop path =
     (case str_find path (bytes_of ''//'') of
        None \<Rightarrow> path
      | Some pos \<Rightarrow> zkPath_loop (take pos path @ bytes_of ''/'' @ drop (pos + 2) path))"
  by pat_completeness auto
termination
  by (relation "measure length") (auto dest: str_find_some_le)

declare zkPath_loop.simps [simp del]

definition zkPath :: "bytes \<Rightarrow> bytes \<Rightarrow> bytes" where
  "zkPath parent child = zkPath_loop (parent @ bytes_of ''/'' @ child)"

text \<open>The constructor of \<open>ServerNode\<close>, whose client then has it in its set.\<close>

definition ServerNode_new :: "bool \<Rightarrow> bytes \<Rightarrow> bytes \<Rightarrow> server_node" where
  "ServerNode_new c typepath i = \<lparr>has_cli = c, m_path = zkPath typepath i, m_data = []\<rparr>"

subsection \<open>The library\<close>

definition ZOK :: int where "ZOK = 0"
definition ZOO_CREATED_EVENT :: int where "ZOO_CREATED_EVENT = 1"
definition ZOO_DELETED_EVENT :: int where "ZOO_DELETED_EVENT = 2"
definition ZOO_CHANGED_EVENT :: int where "ZOO_CHANGED_EVENT = 3"
definition ZOO_CHILD_EVENT :: int where "ZOO_CHILD_EVENT = 4"
definition ZOO_SESSION_EVENT :: int where "ZOO_SESSION_EVENT = -1"
definition ZOO_EXPIRED_SESSION_STATE :: int where "ZOO_EXPIRED_SESSION_STATE = -112"
definition ZOO_AUTH_FAILED_STATE :: int where "ZOO_AUTH_FAILED_STATE = -113"
definition ZOO_CONNECTING_STATE :: int where "ZOO_CONNECTING_STATE = 1"
definition ZOO_ASSOCIATING_STATE :: int where "ZOO_ASSOCIATING_STATE = 2"
definition ZOO_CONNECTED_STATE :: int where "ZOO_CONNECTED_STATE = 3"

lemmas zoo_consts = ZOK_def ZNONODE_def ZOO_CREATED_EVENT_def ZOO_DELETED_EVENT_def ZOO_CHANGED_EVENT_def
  ZOO_CHILD_EVENT_def ZOO_SESSION_EVENT_def ZOO_EXPIRED_SESSION_STATE_def ZOO_CONNECTED_STATE_def

definition toZkEventType :: "int \<Rightarrow> bytes" where
  "toZkEventType ty =
     (if ZOO_CHILD_EVENT = ty then bytes_of ''ZOO_CHILD_EVENT''
      else if ZOO_CHANGED_EVENT = ty then bytes_of ''ZOO_CHANGED_EVENT''
      else if ZOO_CREATED_EVENT = ty then bytes_of ''ZOO_CREATED_EVENT''
      else if ZOO_DELETED_EVENT = ty then bytes_of ''ZOO_DELETED_EVENT''
      else if ZOO_SESSION_EVENT = ty then bytes_of ''ZOO_SESSION_EVENT''
      else itostr ty)"

definition toZkState :: "int \<Rightarrow> bytes" where
  "toZkState st =
     (if ZOO_EXPIRED_SESSION_STATE = st then bytes_of ''ZOO_EXPIRED_SESSION_STATE''
      else if ZOO_AUTH_FAILED_STATE = st then bytes_of ''ZOO_AUTH_FAILED_STATE''
      else if ZOO_CONNECTING_STATE = st then bytes_of ''ZOO_CONNECTING_STATE''
      else if ZOO_ASSOCIATING_STATE = st then bytes_of ''ZOO_ASSOCIATING_STATE''
      else if ZOO_CONNECTED_STATE = st then bytes_of ''ZOO_CONNECTED_STATE''
      else itostr st)"

text \<open>
  The calls of the library. Those of the second kind (\<^verbatim>\<open>zoo_aw...\<close>) take the id of a watcher as the context of the
  watch and of the completion. \<open>zoo_get\<close> gives the code, the length it stores and the bytes it puts
  into a buffer of the size it is told.
\<close>

datatype zk_call = awget | awget_children | awexists

record 'w zoo =
  zoo_create :: "bytes \<Rightarrow> bytes \<Rightarrow> bool \<Rightarrow> 'w \<Rightarrow> int \<times> 'w"
  zoo_delete :: "bytes \<Rightarrow> 'w \<Rightarrow> int \<times> 'w"
  zoo_set :: "bytes \<Rightarrow> bytes \<Rightarrow> 'w \<Rightarrow> int \<times> 'w"
  zoo_get :: "bytes \<Rightarrow> nat \<Rightarrow> 'w \<Rightarrow> int \<times> int \<times> bytes"
  zoo_get_children :: "bytes \<Rightarrow> 'w \<Rightarrow> int \<times> bytes list"
  zoo_aw :: "zk_call \<Rightarrow> bytes \<Rightarrow> int \<Rightarrow> 'w \<Rightarrow> int \<times> 'w"
  zookeeper_init :: "bytes \<Rightarrow> int \<Rightarrow> 'w \<Rightarrow> bool \<times> 'w"
  zookeeper_close :: "'w \<Rightarrow> 'w"

subsection \<open>Reading and writing nodes\<close>

definition zk_createEphemeralNode :: "'w zoo \<Rightarrow> bytes \<Rightarrow> bytes \<Rightarrow> 'w \<Rightarrow> int \<times> 'w" where
  "zk_createEphemeralNode z path data s =
     (let (ret, s) = zoo_create z path data True s in (if ret \<noteq> 0 then -1 else ret, s))"

definition zk_createPersistentNode :: "'w zoo \<Rightarrow> bytes \<Rightarrow> bytes \<Rightarrow> 'w \<Rightarrow> int \<times> 'w" where
  "zk_createPersistentNode z path data s = zoo_create z path data False s"

definition zk_deleteNode :: "'w zoo \<Rightarrow> bytes \<Rightarrow> 'w \<Rightarrow> int \<times> 'w" where
  "zk_deleteNode z path s = zoo_delete z path s"

definition zk_setNodeData :: "'w zoo \<Rightarrow> bytes \<Rightarrow> bytes \<Rightarrow> 'w \<Rightarrow> int \<times> 'w" where
  "zk_setNodeData z path data s = zoo_set z path data s"

text \<open>What \<open>ServerNode\<close> uses of the client.\<close>

definition client_api :: "'w zoo \<Rightarrow> 'w zk_api" where
  "client_api z = \<lparr>createEphemeralNode = zk_createEphemeralNode z, setNodeData = zk_setNodeData z\<rparr>"

definition str_resize :: "nat \<Rightarrow> bytes \<Rightarrow> bytes" where
  \<comment> \<open>\<^verbatim>\<open>std::string::resize\<close>\<close>
  "str_resize n s = take n s @ replicate (n - length s) 0"

definition node_max :: nat where "node_max = 1024 * 1000"

text \<open>A stored length of -1, which stands for no data, makes the second \<open>resize\<close> throw.\<close>

definition getNodeData :: "'w zoo \<Rightarrow> bytes \<Rightarrow> bytes \<Rightarrow> 'w \<Rightarrow> (int \<times> bytes) outcome" where
  "getNodeData z path data s =
     (let data = str_resize node_max data;
          (ret, buflen, got) = zoo_get z path (length data) s;
          data = got @ drop (length got) data
      in if ret = 0 then (if buflen < 0 then Fault else Done (0, str_resize (nat buflen) data))
         else Done (ret, data))"

definition zk_getChildren :: "'w zoo \<Rightarrow> bytes \<Rightarrow> bytes list \<Rightarrow> 'w \<Rightarrow> int \<times> bytes list" where
  "zk_getChildren z path us s =
     (let (ret, v) = zoo_get_children z path s in if ret \<noteq> 0 then (ret, us) else (0, us @ v))"

subsection \<open>A watcher\<close>

definition CREATE_EVENT :: u32 where "CREATE_EVENT = 1"
definition DELETE_EVENT :: u32 where "DELETE_EVENT = 2"
definition CHANGE_EVENT :: u32 where "CHANGE_EVENT = 4"
definition CHILD_EVENT :: u32 where "CHILD_EVENT = 8"

lemmas event_consts = CREATE_EVENT_def DELETE_EVENT_def CHANGE_EVENT_def CHILD_EVENT_def

record zk_watcher =
  w_cli :: bool
  w_path :: bytes
  w_id :: int
  w_mask :: u32
  w_exists :: bool

text \<open>The constructor: \<open>s_id\<close> is incremented in one action and read in another.\<close>

definition watcher_inc :: "int \<Rightarrow> int" where
  "watcher_inc s_id = i32 (s_id + 1)"

definition ZKWatcher_new :: "int \<Rightarrow> bytes \<Rightarrow> zk_watcher" where
  "ZKWatcher_new s_id path = \<lparr>w_cli = False, w_path = path, w_id = s_id, w_mask = 0, w_exists = False\<rparr>"

definition watchData :: "'w zoo \<Rightarrow> zk_watcher \<Rightarrow> 'w \<Rightarrow> int \<times> 'w" where
  "watchData z w s = zoo_aw z awget (w_path w) (w_id w) s"

definition watchChildren :: "'w zoo \<Rightarrow> zk_watcher \<Rightarrow> 'w \<Rightarrow> int \<times> 'w" where
  "watchChildren z w s = zoo_aw z awget_children (w_path w) (w_id w) s"

definition watchExists :: "'w zoo \<Rightarrow> zk_watcher \<Rightarrow> 'w \<Rightarrow> int \<times> 'w" where
  "watchExists z w s = zoo_aw z awexists (w_path w) (w_id w) s"

definition watchCreate :: "'w zoo \<Rightarrow> zk_watcher \<Rightarrow> 'w \<Rightarrow> int \<times> 'w" where
  "watchCreate z w s = zoo_aw z awexists (w_path w) (w_id w) s"

definition checkExists :: "'w zoo \<Rightarrow> zk_watcher \<Rightarrow> 'w \<Rightarrow> int \<times> zk_watcher \<times> 'w" where
  "checkExists z w s =
     (if \<not> w_cli w then (0, w, s)
      else if w_exists w then (0, w, s)
      else let w = w\<lparr>w_exists := True\<rparr>; (ret, s) = watchCreate z w s in (ret, w, s))"

text \<open>The requests for a set of events, whose results are not looked at.\<close>

definition watch_mask :: "'w zoo \<Rightarrow> u32 \<Rightarrow> zk_watcher \<Rightarrow> 'w \<Rightarrow> 'w" where
  "watch_mask z ev w s =
     (let s = (if ev AND CHANGE_EVENT \<noteq> 0 then snd (watchData z w s) else s);
          s = (if ev AND CHILD_EVENT \<noteq> 0 then snd (watchChildren z w s) else s)
      in if ev AND CREATE_EVENT \<noteq> 0 \<or> ev AND DELETE_EVENT \<noteq> 0 then snd (watchExists z w s) else s)"

definition addWatch :: "'w zoo \<Rightarrow> u32 \<Rightarrow> zk_watcher \<Rightarrow> 'w \<Rightarrow> int \<times> zk_watcher \<times> 'w" where
  "addWatch z eventflag w s =
     (if \<not> w_cli w then (-1, w, s)
      else (0, w\<lparr>w_mask := w_mask w OR eventflag\<rparr>, watch_mask z eventflag w s))"

definition nodeExists :: "'w zoo \<Rightarrow> zk_watcher \<Rightarrow> 'w \<Rightarrow> int \<times> zk_watcher \<times> 'w" where
  "nodeExists z w s =
     (if \<not> w_cli w then (-1, w, s)
      else (0, w\<lparr>w_exists := False\<rparr>, watch_mask z (w_mask w) w s))"

definition handleEvent :: "'w zoo \<Rightarrow> u32 \<Rightarrow> zk_watcher \<Rightarrow> 'w \<Rightarrow> int \<times> zk_watcher \<times> 'w" where
  "handleEvent z event w s =
     (let (w, s) = (if event AND w_mask w \<noteq> 0 then snd (addWatch z event w s) else (w, s));
          (w, s) =
            (if event = DELETE_EVENT then
               if event AND w_mask w = 0 then snd (checkExists z w s) else (w, s)
             else if event = CREATE_EVENT then
               if event AND w_mask w = 0 then snd (nodeExists z w s) else (w, s)
             else (w, s))
      in (0, w, s))"

subsection \<open>The client\<close>

record zk_client =
  c_zkurl :: bytes
  c_timeout :: int
  c_handle :: bool
  c_watchers :: "(int, zk_watcher) std_map"
  c_srvnodes :: "server_node list"

definition addToClient :: "zk_watcher \<Rightarrow> zk_client \<Rightarrow> zk_client" where
  "addToClient w c = c\<lparr>c_watchers := map_put (w_id w) (w\<lparr>w_cli := True\<rparr>) (c_watchers c)\<rparr>"

definition delFromClient :: "zk_watcher \<Rightarrow> zk_client \<Rightarrow> zk_client" where
  "delFromClient w c = (if w_cli w then c\<lparr>c_watchers := map_erase (w_id w) (c_watchers c)\<rparr> else c)"

definition getWatcher :: "int \<Rightarrow> zk_client \<Rightarrow> zk_watcher option" where
  "getWatcher i c = map_of (c_watchers c) i"

text \<open>An operation on the watcher of a context, if it is still there.\<close>

definition on_watcher :: "int \<Rightarrow> (zk_watcher \<Rightarrow> 'w \<Rightarrow> int \<times> zk_watcher \<times> 'w) \<Rightarrow> zk_client \<Rightarrow> 'w \<Rightarrow> zk_client \<times> 'w" where
  "on_watcher i f c s =
     (case getWatcher i c of
        None \<Rightarrow> (c, s)
      | Some w \<Rightarrow> let (ret, w, s) = f w s in (c\<lparr>c_watchers := map_put i w (c_watchers c)\<rparr>, s))"

text \<open>The callback of a watch.\<close>

definition watcherFn :: "'w zoo \<Rightarrow> int \<Rightarrow> int \<Rightarrow> zk_client \<Rightarrow> 'w \<Rightarrow> zk_client \<times> 'w" where
  "watcherFn z ty i c s =
     (if ty = ZOO_SESSION_EVENT then (c, s)
      else if ty = ZOO_CHILD_EVENT then on_watcher i (handleEvent z CHILD_EVENT) c s
      else if ty = ZOO_CHANGED_EVENT then on_watcher i (handleEvent z CHANGE_EVENT) c s
      else if ty = ZOO_DELETED_EVENT then on_watcher i (handleEvent z DELETE_EVENT) c s
      else if ty = ZOO_CREATED_EVENT then on_watcher i (handleEvent z CREATE_EVENT) c s
      else (c, s))"

text \<open>The completions, with the virtual function of the watcher that they call.\<close>

datatype upcall = onChildrenChange "bytes list" | onDataChange int bytes | onPathCreate | onPathRemove

definition getChildrenComplete ::
    "'w zoo \<Rightarrow> int \<Rightarrow> bytes list \<Rightarrow> int \<Rightarrow> zk_client \<Rightarrow> 'w \<Rightarrow> upcall option \<times> zk_client \<times> 'w" where
  "getChildrenComplete z rc s_v i c s =
     (if getWatcher i c = None then (None, c, s)
      else if rc = ZNONODE then (None, on_watcher i (checkExists z) c s)
      else if ZOK \<noteq> rc then (None, c, s)
      else (Some (onChildrenChange s_v), c, s))"

definition getDataComplete ::
    "'w zoo \<Rightarrow> int \<Rightarrow> bytes \<Rightarrow> int \<Rightarrow> int \<Rightarrow> zk_client \<Rightarrow> 'w \<Rightarrow> upcall option \<times> zk_client \<times> 'w" where
  "getDataComplete z rc val version i c s =
     (if getWatcher i c = None then (None, c, s)
      else if rc = ZNONODE then (None, on_watcher i (checkExists z) c s)
      else if ZOK \<noteq> rc then (None, c, s)
      else (Some (onDataChange version val), c, s))"

definition getExistsComplete :: "int \<Rightarrow> int \<Rightarrow> zk_client \<Rightarrow> 'w \<Rightarrow> upcall option \<times> zk_client \<times> 'w" where
  "getExistsComplete rc i c s =
     (if getWatcher i c = None then (None, c, s)
      else if rc = ZOK then (Some onPathCreate, c, s)
      else if rc = ZNONODE then (Some onPathRemove, c, s)
      else (None, c, s))"

text \<open>The state of the session.\<close>

definition doInit :: "'w zoo \<Rightarrow> zk_client \<Rightarrow> 'w \<Rightarrow> int \<times> zk_client \<times> 'w" where
  "doInit z c s =
     (let (h, s) = zookeeper_init z (c_zkurl c) (c_timeout c) s
      in (if \<not> h then -1 else 0, c\<lparr>c_handle := h\<rparr>, s))"

definition reinit :: "'w zoo \<Rightarrow> zk_client \<Rightarrow> 'w \<Rightarrow> int \<times> zk_client \<times> 'w" where
  "reinit z c s = doInit z (c\<lparr>c_handle := False\<rparr>) (if c_handle c then zookeeper_close z s else s)"

text \<open>\<open>init\<close>, with \<open>st\<close> the state of the session once the wait for the connection is over; \<open>clear\<close>.\<close>

definition zk_init :: "'w zoo \<Rightarrow> bytes \<Rightarrow> int \<Rightarrow> int \<Rightarrow> zk_client \<Rightarrow> 'w \<Rightarrow> int \<times> zk_client \<times> 'w" where
  "zk_init z zkurl timeout st c s =
     (let (ret, c, s) = doInit z (c\<lparr>c_zkurl := zkurl, c_timeout := timeout\<rparr>) s
      in if 0 = ret \<and> st \<noteq> ZOO_CONNECTED_STATE then (-1, c\<lparr>c_handle := False\<rparr>, zookeeper_close z s)
         else (ret, c, s))"

definition zk_clear :: "'w zoo \<Rightarrow> zk_client \<Rightarrow> 'w \<Rightarrow> zk_client \<times> 'w" where
  "zk_clear z c s = (if c_handle c then (c\<lparr>c_handle := False\<rparr>, zookeeper_close z s) else (c, s))"

text \<open>\<open>addSrvNode\<close>, \<open>delSrvNode\<close>, and the destructor of \<open>ServerNode\<close>.\<close>

definition addSrvNode :: "server_node \<Rightarrow> zk_client \<Rightarrow> zk_client" where
  "addSrvNode n c = c\<lparr>c_srvnodes := c_srvnodes c @ [n]\<rparr>"

definition delSrvNode :: "server_node \<Rightarrow> zk_client \<Rightarrow> zk_client" where
  "delSrvNode n c = c\<lparr>c_srvnodes := remove1 n (c_srvnodes c)\<rparr>"

definition ServerNode_delete :: "'w zoo \<Rightarrow> server_node \<Rightarrow> zk_client \<Rightarrow> 'w \<Rightarrow> zk_client \<times> 'w" where
  "ServerNode_delete z n c s =
     (if has_cli n then (delSrvNode n c, snd (zk_deleteNode z (m_path n) s)) else (c, s))"

fun srvNodeRebuild :: "'w zoo \<Rightarrow> server_node list \<Rightarrow> 'w \<Rightarrow> 'w" where
  "srvNodeRebuild z [] s = s"
| "srvNodeRebuild z (n # ns) s = srvNodeRebuild z ns (snd (node_setData (client_api z) n s))"

fun watch_all :: "'w zoo \<Rightarrow> (int, zk_watcher) std_map \<Rightarrow> 'w \<Rightarrow> (int, zk_watcher) std_map \<times> 'w" where
  "watch_all z [] s = ([], s)"
| "watch_all z ((i, w) # ws) s =
     (let (ret, w, s) = nodeExists z w s; (ws, s) = watch_all z ws s in ((i, w) # ws, s))"

definition watchAll :: "'w zoo \<Rightarrow> zk_client \<Rightarrow> 'w \<Rightarrow> zk_client \<times> 'w" where
  "watchAll z c s = (let (ws, s) = watch_all z (c_watchers c) s in (c\<lparr>c_watchers := ws\<rparr>, s))"

text \<open>\<open>connectingFinishSignal\<close>, for a connected session, is in the last section.\<close>

definition watcherFnG :: "'w zoo \<Rightarrow> int \<Rightarrow> int \<Rightarrow> zk_client \<Rightarrow> 'w \<Rightarrow> zk_client \<times> 'w" where
  "watcherFnG z ty state c s =
     (if ty = ZOO_SESSION_EVENT \<and> state = ZOO_EXPIRED_SESSION_STATE then
        let (ret, c, s) = reinit z c s
        in if 0 = ret then watchAll z c (srvNodeRebuild z (c_srvnodes c) s) else (c, s)
      else (c, s))"


subsection \<open>Runs of the client\<close>

text \<open>
  What is under way in ZooKeeper: requests sent and not completed, watches set and not fired, each with the
  watcher's id. As documented, a request that finds the node sets its watch, one for existence that finds none
  watches for the creation; a watch fires once, with an event of its kind or the deletion.
\<close>

datatype zk_watch = child_watch | data_watch | exist_watch

record zk_net =
  pending :: "(zk_call \<times> int) list"
  armed :: "(zk_watch \<times> int) list"

definition net_aw :: "zk_call \<Rightarrow> bytes \<Rightarrow> int \<Rightarrow> zk_net \<Rightarrow> int \<times> zk_net" where
  "net_aw k path i s = (ZOK, s\<lparr>pending := pending s @ [(k, i)]\<rparr>)"

fun arms :: "zk_call \<Rightarrow> int \<Rightarrow> zk_watch list" where
  "arms awget rc = (if rc = ZOK then [data_watch] else [])"
| "arms awget_children rc = (if rc = ZOK then [child_watch] else [])"
| "arms awexists rc = (if rc = ZOK then [data_watch] else if rc = ZNONODE then [exist_watch] else [])"

fun fires :: "zk_watch \<Rightarrow> int \<Rightarrow> bool" where
  "fires child_watch ty \<longleftrightarrow> ty = ZOO_CHILD_EVENT \<or> ty = ZOO_DELETED_EVENT"
| "fires data_watch ty \<longleftrightarrow> ty = ZOO_CHANGED_EVENT \<or> ty = ZOO_DELETED_EVENT"
| "fires exist_watch ty \<longleftrightarrow> ty = ZOO_CREATED_EVENT"

fun complete :: "'w zoo \<Rightarrow> zk_call \<Rightarrow> int \<Rightarrow> bytes \<Rightarrow> int \<Rightarrow> bytes list \<Rightarrow> int \<Rightarrow> zk_client \<Rightarrow> 'w \<Rightarrow> zk_client \<times> 'w" where
  "complete z awget rc val ver us i c s = snd (getDataComplete z rc val ver i c s)"
| "complete z awget_children rc val ver us i c s = snd (getChildrenComplete z rc us i c s)"
| "complete z awexists rc val ver us i c s = snd (getExistsComplete rc i c s)"

datatype zk_event = Add int bytes u32 | Del int | Comp zk_call int int | Fire zk_watch int int

text \<open>\<open>Add\<close>: a new watcher is put into the client and watches, as the \<open>init\<close> functions have it.\<close>

inductive zk_step :: "zk_net zoo \<Rightarrow> zk_event \<Rightarrow> zk_client \<times> zk_net \<Rightarrow> zk_client \<times> zk_net \<Rightarrow> bool" where
  z_add: "getWatcher i c = None \<Longrightarrow>
    zk_step z (Add i p m) (c, s) (on_watcher i (addWatch z m) (addToClient (ZKWatcher_new i p) c) s)"
| z_del: "getWatcher i c = Some w \<Longrightarrow> zk_step z (Del i) (c, s) (delFromClient w c, s)"
| z_comp: "(k, i) \<in> set (pending s) \<Longrightarrow>
    zk_step z (Comp k i rc) (c, s) (complete z k rc val ver us i c
      (s\<lparr>pending := remove1 (k, i) (pending s), armed := armed s @ map (\<lambda>v. (v, i)) (arms k rc)\<rparr>))"
| z_fire: "(v, i) \<in> set (armed s) \<Longrightarrow> fires v ty \<Longrightarrow>
    zk_step z (Fire v i ty) (c, s) (watcherFn z ty i c (s\<lparr>armed := remove1 (v, i) (armed s)\<rparr>))"

inductive_cases zk_step_cases [consumes 1, case_names z_add z_del z_comp z_fire]: "zk_step z ev (c, s) (c', s')"

inductive zk_run :: "zk_net zoo \<Rightarrow> zk_client \<times> zk_net \<Rightarrow> zk_event list \<Rightarrow> zk_client \<times> zk_net \<Rightarrow> bool" where
  zr_none: "zk_run z x [] x"
| zr_step: "zk_run z x evs y \<Longrightarrow> zk_step z ev y y' \<Longrightarrow> zk_run z x (evs @ [ev]) y'"

definition client_init :: zk_client where
  "client_init = \<lparr>c_zkurl = [], c_timeout = 30000, c_handle = True, c_watchers = [], c_srvnodes = []\<rparr>"

definition net_init :: zk_net where "net_init = \<lparr>pending = [], armed = []\<rparr>"

subsection \<open>A watch is outstanding\<close>

definition outstanding :: "zk_call \<Rightarrow> zk_watch \<Rightarrow> int \<Rightarrow> zk_net \<Rightarrow> bool" where
  "outstanding k v i s \<longleftrightarrow> (k, i) \<in> set (pending s) \<or> (v, i) \<in> set (armed s)"

text \<open>
  A watcher is served: it waits for the node to be created, or each kind of change it watches for has a
  watch or a request outstanding.
\<close>

definition served :: "int \<Rightarrow> zk_watcher \<Rightarrow> zk_net \<Rightarrow> bool" where
  "served i w s \<longleftrightarrow>
     (if w_exists w then outstanding awexists exist_watch i s
      else (w_mask w AND CHANGE_EVENT \<noteq> 0 \<longrightarrow> outstanding awget data_watch i s) \<and>
           (w_mask w AND CHILD_EVENT \<noteq> 0 \<longrightarrow> outstanding awget_children child_watch i s))"

definition watcher_ok :: "int \<Rightarrow> zk_watcher \<Rightarrow> bool" where
  "watcher_ok i w \<longleftrightarrow> w_cli w \<and> w_id w = i \<and> w_mask w \<in> {CHANGE_EVENT, CHILD_EVENT, CHANGE_EVENT OR CHILD_EVENT}"

text \<open>
  A well-timed event: watchers watch for changes of data and children, requests end with the node or with
  "no node", and one for existence, sent after the node was missed, does not find the node there.
\<close>

fun well_timed :: "zk_event \<Rightarrow> bool" where
  "well_timed (Add i p m) \<longleftrightarrow> m \<in> {CHANGE_EVENT, CHILD_EVENT, CHANGE_EVENT OR CHILD_EVENT}"
| "well_timed (Del i) \<longleftrightarrow> True"
| "well_timed (Comp k i rc) \<longleftrightarrow> rc = ZNONODE \<or> rc = ZOK \<and> k \<noteq> awexists"
| "well_timed (Fire v i ty) \<longleftrightarrow> True"

definition all_served :: "zk_client \<times> zk_net \<Rightarrow> bool" where
  "all_served x \<longleftrightarrow> (\<forall>i w. getWatcher i (fst x) = Some w \<longrightarrow> watcher_ok i w \<and> served i w (snd x))"

named_theorems watch_defs \<open>the operations of a watcher\<close>

lemmas [watch_defs] = handleEvent_def addWatch_def nodeExists_def checkExists_def watch_mask_def watchData_def
  watchChildren_def watchExists_def watchCreate_def net_aw_def event_consts Let_def

lemma watch_mask_net:
  "zoo_aw z = net_aw \<Longrightarrow> w_id w = i \<Longrightarrow> m \<in> {CHANGE_EVENT, CHILD_EVENT, CHANGE_EVENT OR CHILD_EVENT} \<Longrightarrow>
   watch_mask z m w s = s\<lparr>pending := pending s @
     (if m AND CHANGE_EVENT \<noteq> 0 then [(awget, i)] else []) @
     (if m AND CHILD_EVENT \<noteq> 0 then [(awget_children, i)] else [])\<rparr>"
  by (auto simp: watch_defs)

text \<open>Steps that only add requests, or take away what belongs to another watcher, keep a watcher served.\<close>

definition keeps :: "int \<Rightarrow> zk_net \<Rightarrow> zk_net \<Rightarrow> bool" where
  "keeps i s s' \<longleftrightarrow> (\<forall>k. (k, i) \<in> set (pending s) \<longrightarrow> (k, i) \<in> set (pending s')) \<and>
     (\<forall>v. (v, i) \<in> set (armed s) \<longrightarrow> (v, i) \<in> set (armed s'))"

lemma served_keeps: "served i w s \<Longrightarrow> keeps i s s' \<Longrightarrow> served i w s'"
  unfolding served_def outstanding_def keeps_def by (simp split: if_splits) blast+

lemma getWatcher_put:
  "getWatcher j (c\<lparr>c_watchers := map_put i w (c_watchers c)\<rparr>) = (if j = i then Some w else getWatcher j c)"
  by (simp add: getWatcher_def)

lemma all_servedI:
  assumes "\<And>j w. getWatcher j c = Some w \<Longrightarrow> j \<noteq> i \<Longrightarrow> watcher_ok j w \<and> served j w s"
    and "\<And>j. j \<noteq> i \<Longrightarrow> keeps j s s'"
    and "\<And>j. j \<noteq> i \<Longrightarrow> getWatcher j c' = getWatcher j c"
    and "\<And>w. getWatcher i c' = Some w \<Longrightarrow> watcher_ok i w \<and> served i w s'"
  shows "all_served (c', s')"
  unfolding all_served_def using assms served_keeps by (metis fst_conv snd_conv)

text \<open>The operations of a watcher, with a watch of its own just fired or a request just completed.\<close>

definition refreshed :: "(zk_watcher \<Rightarrow> zk_net \<Rightarrow> int \<times> zk_watcher \<times> zk_net) \<Rightarrow> zk_watcher \<Rightarrow> zk_net \<Rightarrow> bool" where
  "refreshed f w s \<longleftrightarrow> (let (ret, w', s') = f w s in
     watcher_ok (w_id w) w' \<and> served (w_id w) w' s' \<and> (\<forall>j. keeps j s s'))"


lemma in_remove1: "x \<in> set xs \<Longrightarrow> x \<noteq> y \<Longrightarrow> x \<in> set (remove1 y xs)"
  by simp

definition event_of :: "int \<Rightarrow> u32" where
  "event_of ty = (if ty = ZOO_CHILD_EVENT then CHILD_EVENT else if ty = ZOO_CHANGED_EVENT then CHANGE_EVENT
     else if ty = ZOO_DELETED_EVENT then DELETE_EVENT else CREATE_EVENT)"

lemma fired_refreshed:
  assumes z: "zoo_aw z = net_aw" and w: "watcher_ok i w" "served i w s" and ty: "fires v ty"
  shows "refreshed (handleEvent z (event_of ty)) w (s\<lparr>armed := remove1 (v, i) (armed s)\<rparr>)"
proof -
  have m: "w_mask w = 4 \<or> w_mask w = 8 \<or> w_mask w = 12" and c: "w_cli w" "w_id w = i"
    using w(1) by (auto simp: watcher_ok_def event_consts)
  show ?thesis
    using m
  proof (elim disjE)
    assume m: "w_mask w = 4"
    show ?thesis using ty w(2) c m z
      by (cases v; cases "w_exists w") (auto simp: refreshed_def watch_defs event_of_def zoo_consts served_def outstanding_def watcher_ok_def keeps_def)
  next
    assume m: "w_mask w = 8"
    show ?thesis using ty w(2) c m z
      by (cases v; cases "w_exists w") (auto simp: refreshed_def watch_defs event_of_def zoo_consts served_def outstanding_def watcher_ok_def keeps_def)
  next
    assume m: "w_mask w = 12"
    show ?thesis using ty w(2) c m z
      by (cases v; cases "w_exists w") (auto simp: refreshed_def watch_defs event_of_def zoo_consts served_def outstanding_def watcher_ok_def keeps_def)
  qed
qed

lemma missed_refreshed:
  assumes z: "zoo_aw z = net_aw" and w: "watcher_ok i w" "served i w s" and k: "k \<noteq> awexists"
  shows "refreshed (checkExists z) w (s\<lparr>pending := remove1 (k, i) (pending s)\<rparr>)"
  using z w k
  by (cases "w_exists w") (auto simp: refreshed_def watch_defs served_def outstanding_def watcher_ok_def keeps_def)

lemma completed_served:
  assumes "served i w s" "rc = ZOK \<and> k \<noteq> awexists \<or> rc = ZNONODE \<and> k = awexists"
  shows "served i w (s\<lparr>pending := remove1 (k, i) (pending s), armed := armed s @ map (\<lambda>v. (v, i)) (arms k rc)\<rparr>)"
  using assms by (cases k) (auto simp: served_def outstanding_def zoo_consts split: if_splits)

lemma added_refreshed:
  assumes "zoo_aw z = net_aw" "m \<in> {CHANGE_EVENT, CHILD_EVENT, CHANGE_EVENT OR CHILD_EVENT}"
  shows "refreshed (addWatch z m) ((ZKWatcher_new i p)\<lparr>w_cli := True\<rparr>) s"
  using assms
  by (auto simp: refreshed_def watch_defs ZKWatcher_new_def served_def outstanding_def watcher_ok_def keeps_def)


lemma on_watcher_served:
  assumes all: "all_served (c, s0)" and f: "\<And>w. getWatcher i c = Some w \<Longrightarrow> refreshed f w s"
    and keep: "\<And>j. j \<noteq> i \<Longrightarrow> keeps j s0 s"
  shows "all_served (on_watcher i f c s)"
proof (cases "getWatcher i c")
  case None
  then have "on_watcher i f c s = (c, s)" by (simp add: on_watcher_def)
  moreover have "all_served (c, s)"
    by (rule all_servedI [of c i s0]) (use all None keep in \<open>auto simp: all_served_def\<close>)
  ultimately show ?thesis by simp
next
  case (Some w)
  then have w: "w_id w = i" using all by (auto simp: all_served_def watcher_ok_def)
  obtain ret w' s' where r: "f w s = (ret, w', s')" by (metis prod_cases3)
  from f [OF Some] have ok: "watcher_ok i w'" "served i w' s'" and k: "\<forall>j. keeps j s s'"
    by (simp_all add: refreshed_def r w)
  have "on_watcher i f c s = (c\<lparr>c_watchers := map_put i w' (c_watchers c)\<rparr>, s')"
    by (simp add: on_watcher_def Some r)
  moreover have "all_served (c\<lparr>c_watchers := map_put i w' (c_watchers c)\<rparr>, s')"
    by (rule all_servedI [of c i s0]) (use all k keep ok in \<open>auto simp: all_served_def getWatcher_put keeps_def\<close>)
  ultimately show ?thesis by simp
qed

lemma step_add_served:
  assumes z: "zoo_aw z = net_aw" and all: "all_served (c, s)" and new: "getWatcher i c = None"
    and m: "m \<in> {CHANGE_EVENT, CHILD_EVENT, CHANGE_EVENT OR CHILD_EVENT}"
  shows "all_served (on_watcher i (addWatch z m) (addToClient (ZKWatcher_new i p) c) s)"
proof -
  let ?w = "(ZKWatcher_new i p)\<lparr>w_cli := True\<rparr>"
  have g: "getWatcher j (addToClient (ZKWatcher_new i p) c) = (if j = i then Some ?w else getWatcher j c)" for j
    by (simp add: addToClient_def getWatcher_def ZKWatcher_new_def)
  obtain ret w' s' where r: "addWatch z m ?w s = (ret, w', s')" by (metis prod_cases3)
  have i: "w_id ?w = i" by (simp add: ZKWatcher_new_def)
  from added_refreshed [OF z m, of i p s] have ok: "watcher_ok i w'" "served i w' s'" and k: "\<forall>j. keeps j s s'"
    by (simp_all add: refreshed_def r i del: zk_watcher.simps)
  have "on_watcher i (addWatch z m) (addToClient (ZKWatcher_new i p) c) s =
      ((addToClient (ZKWatcher_new i p) c)\<lparr>c_watchers := map_put i w' (c_watchers (addToClient (ZKWatcher_new i p) c))\<rparr>, s')"
    by (simp add: on_watcher_def g r)
  moreover have "all_served \<dots>"
    by (rule all_servedI [of c i s])
      (use all k ok in \<open>auto simp: all_served_def getWatcher_put g keeps_def\<close>)
  ultimately show ?thesis by simp
qed

lemma step_del_served:
  assumes all: "all_served (c, s)" and w: "getWatcher i c = Some w"
  shows "all_served (delFromClient w c, s)"
proof -
  have "w_cli w" "w_id w = i" using assms by (auto simp: all_served_def watcher_ok_def)
  then have "getWatcher j (delFromClient w c) = (if j = i then None else getWatcher j c)" for j
    by (simp add: delFromClient_def getWatcher_def)
  with all show ?thesis by (auto simp: all_served_def split: if_splits)
qed

lemma complete_cases:
  "complete z k rc val ver us i c s =
     (if k \<noteq> awexists \<and> rc = ZNONODE then on_watcher i (checkExists z) c s else (c, s))"
  by (cases k) (auto simp: getDataComplete_def getChildrenComplete_def getExistsComplete_def on_watcher_def zoo_consts)

lemma watcherFn_fires:
  "fires v ty \<Longrightarrow> watcherFn z ty i c s = on_watcher i (handleEvent z (event_of ty)) c s"
  by (cases v) (auto simp: watcherFn_def event_of_def zoo_consts)

lemma step_served:
  assumes "zk_step z ev (c, s) (c', s')" "zoo_aw z = net_aw" "well_timed ev" "all_served (c, s)"
  shows "all_served (c', s')"
  using assms(1)
proof (cases rule: zk_step_cases)
  case (z_add i p m)
  then show ?thesis using step_add_served assms by fastforce
next
  case (z_del i w)
  then show ?thesis using step_del_served assms by fastforce
next
  case (z_comp k i rc val ver us)
  let ?s = "s\<lparr>pending := remove1 (k, i) (pending s), armed := armed s @ map (\<lambda>v. (v, i)) (arms k rc)\<rparr>"
  have keep: "keeps j s ?s" if "j \<noteq> i" for j using that by (auto simp: keeps_def)
  show ?thesis
  proof (cases "k \<noteq> awexists \<and> rc = ZNONODE")
    case True
    then have "?s = s\<lparr>pending := remove1 (k, i) (pending s)\<rparr>" by (cases k) (auto simp: zoo_consts)
    then have "refreshed (checkExists z) w ?s" if "getWatcher i c = Some w" for w
      using missed_refreshed [of z i w s k] True assms that by (auto simp: all_served_def)
    from on_watcher_served [OF assms(4) this keep] show ?thesis using z_comp True by (simp add: complete_cases)
  next
    case False
    then have eq: "(c', s') = (c, ?s)" using z_comp(2) complete_cases [of z k rc val ver us i c ?s] by argo
    have "rc = ZOK \<and> k \<noteq> awexists \<or> rc = ZNONODE \<and> k = awexists" using assms(3) False z_comp by auto
    from completed_served [OF _ this] have "served i w ?s" if "getWatcher i c = Some w" for w
      using assms(4) that by (auto simp: all_served_def)
    then have "all_served (c, ?s)"
      by (intro all_servedI [of c i s] keep) (use assms(4) in \<open>simp_all add: all_served_def\<close>)
    with eq show ?thesis by simp
  qed
next
  case (z_fire v i ty)
  let ?s = "s\<lparr>armed := remove1 (v, i) (armed s)\<rparr>"
  have "refreshed (handleEvent z (event_of ty)) w ?s" if "getWatcher i c = Some w" for w
    using fired_refreshed [of z i w s v ty] assms that z_fire by (auto simp: all_served_def)
  from on_watcher_served [OF assms(4) this, of i] show ?thesis
    by (simp add: z_fire(2) watcherFn_fires [OF z_fire(4)] keeps_def)
qed

lemma run_served:
  "zk_run z x evs y \<Longrightarrow> zoo_aw z = net_aw \<Longrightarrow> list_all well_timed evs \<Longrightarrow> all_served x \<Longrightarrow> all_served y"
proof (induction rule: zk_run.induct)
  case (zr_step z x evs y ev y')
  then show ?case using step_served [of z ev "fst y" "snd y" "fst y'" "snd y'"] by simp
qed


lemma init_served: "all_served (client_init, net_init)"
  by (simp add: all_served_def client_init_def getWatcher_def)

subsection \<open>A watch that is lost\<close>

text \<open>Nothing is on the way that would ask for the children again.\<close>

definition cut_off :: "int \<Rightarrow> zk_client \<times> zk_net \<Rightarrow> bool" where
  "cut_off i x \<longleftrightarrow>
     (\<forall>w. getWatcher i (fst x) = Some w \<longrightarrow> w_id w = i \<and> w_exists w \<and> w_mask w = CHILD_EVENT) \<and>
     (\<forall>j w. getWatcher j (fst x) = Some w \<longrightarrow> w_id w = j) \<and>
     (\<forall>k. (k, i) \<notin> set (pending (snd x))) \<and>
     (\<forall>v. (v, i) \<in> set (armed (snd x)) \<longrightarrow> v = data_watch)"

definition touches :: "int \<Rightarrow> zk_net \<Rightarrow> zk_net \<Rightarrow> bool" where
  "touches j s s' \<longleftrightarrow> (\<exists>ks. s' = s\<lparr>pending := pending s @ map (\<lambda>k. (k, j)) ks\<rparr>)"

lemma touchesI: "s' = s\<lparr>pending := pending s @ map (\<lambda>k. (k, j)) ks\<rparr> \<Longrightarrow> touches j s s'"
  by (auto simp: touches_def)

lemma touches_refl: "touches j s s"
  by (rule touchesI [of _ _ _ "[]"]) simp

lemma touches_trans: "touches j s s' \<Longrightarrow> touches j s' s'' \<Longrightarrow> touches j s s''"
  unfolding touches_def by (auto simp flip: map_append)

lemma zoo_aw_touches: "zoo_aw z = net_aw \<Longrightarrow> touches j s (snd (zoo_aw z k p j s))"
  by (rule touchesI [of _ _ _ "[k]"]) (auto simp: net_aw_def)

text \<open>An operation that keeps the watcher's id and sends requests for it alone.\<close>

definition local_to :: "zk_watcher \<Rightarrow> zk_net \<Rightarrow> zk_watcher \<times> zk_net \<Rightarrow> bool" where
  "local_to w s x \<longleftrightarrow> w_id (fst x) = w_id w \<and> touches (w_id w) s (snd x)"

lemma local_refl: "local_to w s (w, s)"
  by (simp add: local_to_def touches_refl)

lemma local_trans: "local_to w s (w', s') \<Longrightarrow> local_to w' s' x \<Longrightarrow> local_to w s x"
  unfolding local_to_def using touches_trans by fastforce

lemma watch_mask_touches: "zoo_aw z = net_aw \<Longrightarrow> touches (w_id w) s (watch_mask z m w s)"
  by (rule touchesI [of _ _ _ "(if m AND CHANGE_EVENT \<noteq> 0 then [awget] else []) @
        (if m AND CHILD_EVENT \<noteq> 0 then [awget_children] else []) @
        (if m AND CREATE_EVENT \<noteq> 0 \<or> m AND DELETE_EVENT \<noteq> 0 then [awexists] else [])"])
    (simp add: watch_defs)

lemma local_check: "zoo_aw z = net_aw \<Longrightarrow> local_to w s (snd (checkExists z w s))"
  using zoo_aw_touches [of z]
  by (simp add: local_to_def checkExists_def watchCreate_def touches_refl split_beta)

lemma local_add: "zoo_aw z = net_aw \<Longrightarrow> local_to w s (snd (addWatch z m w s))"
  using watch_mask_touches [of z] by (simp add: local_to_def addWatch_def touches_refl)

lemma local_exists: "zoo_aw z = net_aw \<Longrightarrow> local_to w s (snd (nodeExists z w s))"
  using watch_mask_touches [of z] by (simp add: local_to_def nodeExists_def touches_refl)

lemma local_handle:
  assumes "zoo_aw z = net_aw"
  shows "local_to w s (snd (handleEvent z ev w s))"
proof -
  obtain w1 s1 where 1: "(if ev AND w_mask w \<noteq> 0 then snd (addWatch z ev w s) else (w, s)) = (w1, s1)"
    by fastforce
  have "local_to w s (w1, s1)"
    unfolding 1 [symmetric] using local_add [OF assms] local_refl by (simp split: if_splits)
  moreover have "local_to w1 s1 (snd (handleEvent z ev w s))"
    using local_check [OF assms, of w1 s1] local_exists [OF assms, of w1 s1] local_refl [of w1 s1]
    by (simp add: handleEvent_def 1 split_beta)
  ultimately show ?thesis by (rule local_trans)
qed


lemma cut_offI:
  assumes "cut_off i (c, s)" "j \<noteq> i" "touches j s0 s'"
    and "\<And>k. (k, i) \<in> set (pending s0) \<Longrightarrow> (k, i) \<in> set (pending s)"
    and "\<And>v. (v, i) \<in> set (armed s0) \<Longrightarrow> (v, i) \<in> set (armed s)"
    and "\<And>w. getWatcher i c' = Some w \<Longrightarrow> getWatcher i c = Some w"
    and "\<And>k w. getWatcher k c' = Some w \<Longrightarrow> w_id w = k"
  shows "cut_off i (c', s')"
  using assms unfolding cut_off_def touches_def by fastforce

lemma cut_off_other:
  assumes c: "cut_off i (c, s)" and j: "j \<noteq> i"
    and f: "\<And>w. getWatcher j c = Some w \<Longrightarrow> local_to w s0 (snd (f w s0))"
    and s0: "\<And>k. (k, i) \<in> set (pending s0) \<Longrightarrow> (k, i) \<in> set (pending s)"
      "\<And>v. (v, i) \<in> set (armed s0) \<Longrightarrow> (v, i) \<in> set (armed s)"
  shows "cut_off i (on_watcher j f c s0)"
proof (cases "getWatcher j c")
  case None
  have "cut_off i (c, s0)"
    by (rule cut_offI [OF c j touches_refl s0]) (use c in \<open>auto simp: cut_off_def\<close>)
  with None show ?thesis by (simp add: on_watcher_def)
next
  case (Some w)
  obtain ret w' s' where r: "f w s0 = (ret, w', s')" by (metis prod_cases3)
  have w: "w_id w = j" using c Some by (simp add: cut_off_def)
  have l: "w_id w' = j" "touches j s0 s'" using f [OF Some] by (simp_all add: r local_to_def w)
  have "cut_off i (c\<lparr>c_watchers := map_put j w' (c_watchers c)\<rparr>, s')"
    by (rule cut_offI [OF c j l(2) s0])
      (use c j l(1) in \<open>auto simp: getWatcher_put cut_off_def split: if_splits\<close>)
  then show ?thesis by (simp add: on_watcher_def Some r)
qed

lemma cut_off_fired:
  assumes "w_mask w = CHILD_EVENT" "w_exists w" "fires data_watch ty"
  shows "snd (handleEvent z (event_of ty) w s) = (w, s)"
  using assms by (auto simp: event_of_def zoo_consts watch_defs)

lemma on_watcher_same:
  assumes "\<And>w. getWatcher i c = Some w \<Longrightarrow> snd (f w s) = (w, s)"
  shows "snd (on_watcher i f c s) = s" "getWatcher j (fst (on_watcher i f c s)) = getWatcher j c"
  using assms by (auto simp: on_watcher_def getWatcher_put split: option.splits prod.splits)

lemma step_cut_off:
  assumes "zk_step z ev (c, s) (c', s')" and z: "zoo_aw z = net_aw" and c: "cut_off i (c, s)"
    and new: "\<And>p m. ev \<noteq> Add i p m"
  shows "cut_off i (c', s')"
  using assms(1)
proof (cases rule: zk_step_cases)
  case (z_add j p m)
  let ?c = "addToClient (ZKWatcher_new j p) c"
  have j: "j \<noteq> i" using new z_add by auto
  have "cut_off i (?c, s)"
    by (rule cut_offI [OF c j touches_refl])
      (use c j in \<open>auto simp: addToClient_def getWatcher_def cut_off_def ZKWatcher_new_def split: if_splits\<close>)
  from cut_off_other [OF this j, where f = "addWatch z m"] local_add [OF z] show ?thesis using z_add by simp
next
  case (z_del j w)
  then have "getWatcher k c' = Some x \<Longrightarrow> getWatcher k c = Some x" for k x
    by (auto simp: delFromClient_def getWatcher_def split: if_splits)
  with c show ?thesis unfolding cut_off_def z_del(4) fst_conv snd_conv by blast
next
  case (z_comp k j rc val ver us)
  let ?s = "s\<lparr>pending := remove1 (k, j) (pending s), armed := armed s @ map (\<lambda>v. (v, j)) (arms k rc)\<rparr>"
  have j: "j \<noteq> i" using z_comp c by (auto simp: cut_off_def)
  have s: "(k', i) \<in> set (pending ?s) \<Longrightarrow> (k', i) \<in> set (pending s)"
    "(v, i) \<in> set (armed ?s) \<Longrightarrow> (v, i) \<in> set (armed s)" for k' v
    using j notin_set_remove1 by fastforce+
  show ?thesis
  proof (cases "k \<noteq> awexists \<and> rc = ZNONODE")
    case True
    have "cut_off i (on_watcher j (checkExists z) c ?s)"
      by (rule cut_off_other [OF c j]) (rule local_check [OF z] | erule s)+
    with True show ?thesis by (simp add: z_comp(2) complete_cases)
  next
    case False
    then have "(c', s') = (c, ?s)" using z_comp(2) complete_cases [of z k rc val ver us j c ?s] by argo
    moreover have "cut_off i (c, ?s)"
      by (rule cut_offI [OF c j touches_refl s]) (use c in \<open>auto simp: cut_off_def\<close>)
    ultimately show ?thesis by simp
  qed
next
  case (z_fire v j ty)
  let ?s = "s\<lparr>armed := remove1 (v, j) (armed s)\<rparr>"
  have s: "(k', i) \<in> set (pending ?s) \<Longrightarrow> (k', i) \<in> set (pending s)"
    "(v', i) \<in> set (armed ?s) \<Longrightarrow> (v', i) \<in> set (armed s)" for k' v'
    using notin_set_remove1 by fastforce+
  show ?thesis
  proof (cases "j = i")
    case True
    have v: "v = data_watch" using z_fire c True by (simp add: cut_off_def)
    have same: "snd (handleEvent z (event_of ty) w ?s) = (w, ?s)" if "getWatcher i c = Some w" for w
      using cut_off_fired that c z_fire v unfolding cut_off_def by (metis fst_conv)
    have eq: "(c', s') = on_watcher i (handleEvent z (event_of ty)) c ?s"
      using z_fire watcherFn_fires True by metis
    have "s' = ?s" and g: "getWatcher k c' = getWatcher k c" for k
      using on_watcher_same [of i c "handleEvent z (event_of ty)" ?s, OF same] eq [symmetric] by simp_all
    with c s show ?thesis by (simp add: cut_off_def)
  next
    case False
    have "cut_off i (on_watcher j (handleEvent z (event_of ty)) c ?s)"
      by (rule cut_off_other [OF c False]) (rule local_handle [OF z] | erule s)+
    then show ?thesis by (simp add: z_fire(2) watcherFn_fires [OF z_fire(4)])
  qed
qed

lemma run_cut_off:
  "zk_run z x evs y \<Longrightarrow> zoo_aw z = net_aw \<Longrightarrow> \<forall>p m. Add i p m \<notin> set evs \<Longrightarrow> cut_off i x \<Longrightarrow> cut_off i y"
proof (induction rule: zk_run.induct)
  case (zr_step z x evs y ev y')
  then show ?case using step_cut_off [of z ev "fst y" "snd y" "fst y'" "snd y'" i] by auto
qed


text \<open>The run in which the node comes back before the request for its existence is answered.\<close>

definition recreated :: "int \<Rightarrow> bytes \<Rightarrow> zk_event list" where
  "recreated i p = [Add i p CHILD_EVENT, Comp awget_children i ZOK, Fire child_watch i ZOO_DELETED_EVENT,
     Comp awexists i ZOK]"

lemma run_snoc: "zk_run z x evs y \<Longrightarrow> zk_step z ev y y' \<Longrightarrow> evs' = evs @ [ev] \<Longrightarrow> zk_run z x evs' y'"
  by (simp add: zk_run.zr_step)

definition with_watcher :: "int \<Rightarrow> bytes \<Rightarrow> bool \<Rightarrow> zk_client" where
  "with_watcher i p e =
     client_init\<lparr>c_watchers := [(i, \<lparr>w_cli = True, w_path = p, w_id = i, w_mask = CHILD_EVENT, w_exists = e\<rparr>)]\<rparr>"

lemma run_added:
  assumes "zoo_aw z = net_aw"
  shows "zk_run z (client_init, net_init) [Add i p CHILD_EVENT]
    (with_watcher i p False, \<lparr>pending = [(awget_children, i)], armed = []\<rparr>)"
proof -
  have "zk_step z (Add i p CHILD_EVENT) (client_init, net_init)
      (on_watcher i (addWatch z CHILD_EVENT) (addToClient (ZKWatcher_new i p) client_init) net_init)"
    by (rule z_add) (simp add: client_init_def getWatcher_def)
  moreover have "on_watcher i (addWatch z CHILD_EVENT) (addToClient (ZKWatcher_new i p) client_init) net_init =
      (with_watcher i p False, \<lparr>pending = [(awget_children, i)], armed = []\<rparr>)"
    using assms by (simp add: on_watcher_def getWatcher_def addToClient_def ZKWatcher_new_def client_init_def
        net_init_def watch_defs with_watcher_def)
  ultimately show ?thesis using zk_run.zr_step [OF zr_none] by fastforce
qed

lemma watcherFn_deleted: "watcherFn z ZOO_DELETED_EVENT i c s = on_watcher i (handleEvent z DELETE_EVENT) c s"
  by (simp add: watcherFn_def zoo_consts)

lemma run_recreated:
  assumes z: "zoo_aw z = net_aw"
  shows "zk_run z (client_init, net_init) (recreated i p) (with_watcher i p True, \<lparr>pending = [], armed = [(data_watch, i)]\<rparr>)"
proof -
  have g: "getWatcher i (with_watcher i p e) =
      Some \<lparr>w_cli = True, w_path = p, w_id = i, w_mask = CHILD_EVENT, w_exists = e\<rparr>" for e
    by (simp add: getWatcher_def with_watcher_def)
  have 1: "zk_step z (Comp awget_children i ZOK) (with_watcher i p False, \<lparr>pending = [(awget_children, i)], armed = []\<rparr>)
      (with_watcher i p False, \<lparr>pending = [], armed = [(child_watch, i)]\<rparr>)"
    using z_comp [of awget_children i "\<lparr>pending = [(awget_children, i)], armed = []\<rparr>" z ZOK "with_watcher i p False"]
    by (simp add: complete_cases zoo_consts)
  have "on_watcher i (handleEvent z DELETE_EVENT) (with_watcher i p False) \<lparr>pending = [], armed = []\<rparr> =
      (with_watcher i p True, \<lparr>pending = [(awexists, i)], armed = []\<rparr>)"
    using z by (simp add: on_watcher_def g watch_defs) (simp add: with_watcher_def event_consts)
  then have 2: "zk_step z (Fire child_watch i ZOO_DELETED_EVENT)
      (with_watcher i p False, \<lparr>pending = [], armed = [(child_watch, i)]\<rparr>)
      (with_watcher i p True, \<lparr>pending = [(awexists, i)], armed = []\<rparr>)"
    using z_fire [of child_watch i "\<lparr>pending = [], armed = [(child_watch, i)]\<rparr>" ZOO_DELETED_EVENT z "with_watcher i p False"]
    by (simp add: watcherFn_deleted)
  have 3: "zk_step z (Comp awexists i ZOK) (with_watcher i p True, \<lparr>pending = [(awexists, i)], armed = []\<rparr>)
      (with_watcher i p True, \<lparr>pending = [], armed = [(data_watch, i)]\<rparr>)"
    using z_comp [of awexists i "\<lparr>pending = [(awexists, i)], armed = []\<rparr>" z ZOK "with_watcher i p True"]
    by (simp add: complete_cases zoo_consts)
  show ?thesis
    by (rule run_snoc [OF run_snoc [OF run_snoc [OF run_added [OF z] 1] 2] 3]) (simp_all add: recreated_def)
qed

lemma recreated_cut_off: "cut_off i (with_watcher i p True, \<lparr>pending = [], armed = [(data_watch, i)]\<rparr>)"
  by (auto simp: cut_off_def with_watcher_def getWatcher_def client_init_def split: if_splits)

subsection \<open>The session's expiry\<close>

text \<open>
  What nodes hold, as the functions of the library change it: setting the data of a missing node reports
  that, creating a missing one gives it its data, and requests change nothing.
\<close>

definition node_laws :: "'w zoo \<Rightarrow> ('w \<Rightarrow> bytes \<Rightarrow> bytes option) \<Rightarrow> bool" where
  "node_laws z content \<longleftrightarrow>
     (\<forall>s p d. if content s p = None
        then zoo_set z p d s = (ZNONODE, s) \<and>
             content (snd (zoo_create z p d True s)) = (content s)(p \<mapsto> d)
        else fst (zoo_set z p d s) = ZOK \<and> content (snd (zoo_set z p d s)) = (content s)(p \<mapsto> d)) \<and>
     (\<forall>s k p i. content (snd (zoo_aw z k p i s)) = content s)"

lemma node_setData_content:
  assumes "node_laws z content" "has_cli n"
  shows "content (snd (node_setData (client_api z) n s)) = (content s)(m_path n \<mapsto> m_data n)"
proof (cases "content s (m_path n)")
  case None
  then have "zoo_set z (m_path n) (m_data n) s = (ZNONODE, s)"
    "content (snd (zoo_create z (m_path n) (m_data n) True s)) = (content s)(m_path n \<mapsto> m_data n)"
    using assms(1) unfolding node_laws_def by metis+
  then show ?thesis
    using assms(2) by (simp add: node_setData_def client_api_def zk_setNodeData_def zk_createEphemeralNode_def split_beta)
next
  case (Some d)
  then have "fst (zoo_set z (m_path n) (m_data n) s) = ZOK"
    "content (snd (zoo_set z (m_path n) (m_data n) s)) = (content s)(m_path n \<mapsto> m_data n)"
    using assms(1) unfolding node_laws_def by (metis option.distinct(1))+
  then show ?thesis
    using assms(2) by (simp add: node_setData_def client_api_def zk_setNodeData_def split_beta zoo_consts)
qed

lemma srvNodeRebuild_content:
  assumes "node_laws z content"
  shows "\<forall>n \<in> set ns. has_cli n \<Longrightarrow>
    content (srvNodeRebuild z ns s) = content s ++ map_of (rev (map (\<lambda>n. (m_path n, m_data n)) ns))"
  by (induction ns arbitrary: s) (simp_all add: node_setData_content [OF assms] map_add_def fun_eq_iff split: option.splits)

lemma watch_all_content:
  assumes "node_laws z content"
  shows "content (snd (watch_all z ws s)) = content s"
proof -
  have "content (snd (watchData z w s)) = content s" "content (snd (watchChildren z w s)) = content s"
    "content (snd (watchExists z w s)) = content s" for w s
    using assms by (simp_all add: node_laws_def watchData_def watchChildren_def watchExists_def)
  then have "content (watch_mask z m w s) = content s" for m w s by (simp add: watch_mask_def Let_def)
  then have "content (snd (snd (nodeExists z w s))) = content s" for w s by (simp add: nodeExists_def)
  then have "content (snd (watch_all z (e # es) s)) = content (snd (watch_all z es (snd (snd (nodeExists z (snd e) s)))))"
    "content (snd (snd (nodeExists z (snd e) s))) = content s" for e es s
    by (cases e; simp add: split_beta)+
  then show ?thesis by (induction ws arbitrary: s) (simp_all del: watch_all.simps(2))
qed

lemma watch_all_reset: "\<forall>(i, w) \<in> set ws. w_cli w \<Longrightarrow> \<forall>(i, w) \<in> set (fst (watch_all z ws s)). \<not> w_exists w"
  by (induction z ws s rule: watch_all.induct) (auto simp: split_beta nodeExists_def)


subsection \<open>Waiting for the connection\<close>

text \<open>
  \<open>init\<close> waits for \<open>connectingFinishSignal\<close>, which another thread calls once the session is connected. \<open>M_flag\<close>:
  \<open>m_waiting\<close> is set and the mutex not yet taken; \<open>M_wait\<close>: in \<^verbatim>\<open>pthread_cond_wait\<close>. \<open>B_signal\<close>: the flag was seen.
  Taking the mutex and starting to wait is one action, as the mutex is released with the wait.
\<close>

datatype main_pc = M_start | M_flag | M_wait | M_woken | M_end
datatype cb_pc = B_idle | B_signal | B_end

record waiter =
  wt_main :: main_pc
  wt_cb :: cb_pc
  m_waiting :: bool

definition waiter_init :: waiter where
  "waiter_init = \<lparr>wt_main = M_start, wt_cb = B_idle, m_waiting = False\<rparr>"

inductive wait_step :: "waiter \<Rightarrow> waiter \<Rightarrow> bool" where
  w_set: "wt_main x = M_start \<Longrightarrow> wait_step x (x\<lparr>wt_main := M_flag, m_waiting := True\<rparr>)"
| w_block: "wt_main x = M_flag \<Longrightarrow> wait_step x (x\<lparr>wt_main := M_wait\<rparr>)"
| w_return: "wt_main x = M_woken \<Longrightarrow> wait_step x (x\<lparr>wt_main := M_end, m_waiting := False\<rparr>)"
| w_connected: "wt_cb x = B_idle \<Longrightarrow> wait_step x (x\<lparr>wt_cb := (if m_waiting x then B_signal else B_end)\<rparr>)"
| w_signal: "wt_cb x = B_signal \<Longrightarrow>
    wait_step x (x\<lparr>wt_cb := B_end, wt_main := (if wt_main x = M_wait then M_woken else wt_main x)\<rparr>)"

inductive_cases wait_step_cases: "wait_step x y"

definition stuck :: "waiter \<Rightarrow> bool" where
  "stuck x \<longleftrightarrow> wt_main x \<noteq> M_end \<and> (\<forall>y. \<not> wait_step x y)"

text \<open>Once \<open>init\<close> is in the wait before the session is connected, the signal reaches it.\<close>

definition in_time :: "waiter \<Rightarrow> bool" where
  "in_time x \<longleftrightarrow>
     (wt_main x = M_wait \<and> m_waiting x \<and> wt_cb x \<noteq> B_end) \<or>
     (wt_main x \<in> {M_woken, M_end} \<and> wt_cb x = B_end)"

lemma in_time_step: "wait_step x y \<Longrightarrow> in_time x \<Longrightarrow> in_time y"
  by (erule wait_step_cases) (auto simp: in_time_def)

lemma in_time_steps: "wait_step\<^sup>*\<^sup>* x y \<Longrightarrow> in_time x \<Longrightarrow> in_time y"
  by (induction rule: rtranclp_induct) (auto intro: in_time_step)

lemma in_time_not_stuck: "in_time x \<Longrightarrow> \<not> stuck x"
  by (cases "wt_cb x"; cases "wt_main x") (auto simp: in_time_def stuck_def intro: wait_step.intros)

definition missed :: waiter where
  "missed = \<lparr>wt_main = M_wait, wt_cb = B_end, m_waiting = True\<rparr>"

lemma missed_reached: "wait_step\<^sup>*\<^sup>* waiter_init missed"
proof -
  have "wait_step waiter_init \<lparr>wt_main = M_start, wt_cb = B_end, m_waiting = False\<rparr>"
    using w_connected [of waiter_init] by (simp add: waiter_init_def)
  moreover have "wait_step \<lparr>wt_main = M_start, wt_cb = B_end, m_waiting = False\<rparr> \<lparr>wt_main = M_flag, wt_cb = B_end, m_waiting = True\<rparr>"
    using w_set [of "\<lparr>wt_main = M_start, wt_cb = B_end, m_waiting = False\<rparr>"] by simp
  moreover have "wait_step \<lparr>wt_main = M_flag, wt_cb = B_end, m_waiting = True\<rparr> missed"
    using w_block [of "\<lparr>wt_main = M_flag, wt_cb = B_end, m_waiting = True\<rparr>"] by (simp add: missed_def)
  ultimately show ?thesis by (meson converse_rtranclp_into_rtranclp rtranclp.rtrancl_refl)
qed

lemma missed_stuck: "stuck missed"
  by (auto simp: stuck_def missed_def elim: wait_step_cases)

subsection \<open>Paths without double slashes\<close>

text \<open>The reference: a run of slashes becomes one.\<close>

fun squash :: "bytes \<Rightarrow> bytes" where
  "squash (x # y # s) = (if x = ch CHR ''/'' \<and> y = x then squash (y # s) else x # squash (y # s))"
| "squash s = s"

lemma str_find_at: "str_find s sep = Some i \<Longrightarrow> take (length sep) (drop i s) = sep"
proof (induction s arbitrary: i)
  case Nil
  then show ?case by (subst (asm) str_find.simps) (auto split: if_splits)
next
  case (Cons x s)
  then show ?case by (subst (asm) str_find.simps) (auto split: if_splits)
qed

lemma squash_double: "squash (a @ [47, 47] @ b) = squash (a @ 47 # b)"
  by (induction a rule: squash.induct) (auto simp: numeral_eq_Suc)

lemma squash_none: "str_find s [47, 47] = None \<Longrightarrow> squash s = s"
proof (induction s rule: squash.induct)
  case (1 x y s)
  then show ?case by (subst (asm) (2) str_find.simps) (auto split: if_splits)
qed simp_all

lemma zkPath_loop_squash: "zkPath_loop p = squash p"
proof (induction p rule: zkPath_loop.induct)
  case (1 p)
  show ?case
  proof (cases "str_find p (bytes_of ''//'')")
    case None
    then show ?thesis by (subst zkPath_loop.simps) (simp add: squash_none)
  next
    case (Some i)
    let ?b = "drop (i + 2) p"
    have "take 2 (drop i p) = [47, 47]" using str_find_at [OF Some] by (simp add: numeral_2_eq_2)
    then have "drop i p = [47, 47] @ ?b" by (metis append_take_drop_id drop_drop add.commute)
    then have p: "p = take i p @ [47, 47] @ ?b" by (metis append_take_drop_id)
    have "zkPath_loop p = zkPath_loop (take i p @ bytes_of ''/'' @ ?b)"
      by (subst zkPath_loop.simps) (simp only: Some option.case)
    also have "\<dots> = squash (take i p @ 47 # ?b)" using 1 [OF Some] by simp
    also have "\<dots> = squash p" by (subst (3) p) (rule squash_double [symmetric])
    finally show ?thesis .
  qed
qed

lemma squash_Cons: "squash (x # s) \<noteq> [] \<and> hd (squash (x # s)) = x"
  by (induction "x # s" arbitrary: x s rule: squash.induct) auto

lemma squash_no_double: "i + 1 < length (squash s) \<Longrightarrow> \<not> (squash s ! i = 47 \<and> squash s ! (i + 1) = 47)"
proof (induction s arbitrary: i rule: squash.induct)
  case (1 x y s)
  show ?case
  proof (cases "x = 47 \<and> y = x")
    case True
    then show ?thesis using 1(1) [of i] 1(3) by simp
  next
    case False
    then have eq: "squash (x # y # s) = x # squash (y # s)" by simp
    show ?thesis
    proof (cases i)
      case 0
      have "squash (y # s) ! 0 = y" using squash_Cons [of y s] by (metis hd_conv_nth)
      with False 0 eq show ?thesis by simp
    next
      case (Suc k)
      then show ?thesis using 1(2) [of k] False 1(3) eq by simp
    qed
  qed
qed simp_all


subsection \<open>Properties\<close>


definition zoo_net :: "zk_net zoo" where
  \<comment> \<open>a library whose nodes are missing\<close>
  "zoo_net = \<lparr>zoo_create = \<lambda>p d e s. (ZOK, s), zoo_delete = \<lambda>p s. (ZNONODE, s), zoo_set = \<lambda>p d s. (ZNONODE, s),
     zoo_get = \<lambda>p n s. (ZNONODE, 0, []), zoo_get_children = \<lambda>p s. (ZNONODE, []), zoo_aw = net_aw,
     zookeeper_init = \<lambda>u t s. (True, s), zookeeper_close = \<lambda>s. s\<rparr>"

lemma zoo_net_aw: "zoo_aw zoo_net = net_aw"
  by (simp add: zoo_net_def)





definition zoo_nodes :: "(bytes \<Rightarrow> bytes option) zoo" where
  "zoo_nodes = \<lparr>zoo_create = \<lambda>p d e s. (ZOK, s(p \<mapsto> d)), zoo_delete = \<lambda>p s. (ZOK, s(p := None)),
     zoo_set = \<lambda>p d s. if s p = None then (ZNONODE, s) else (ZOK, s(p \<mapsto> d)),
     zoo_get = \<lambda>p n s. (case s p of None \<Rightarrow> (ZNONODE, 0, []) | Some d \<Rightarrow> (ZOK, int (length d), d)),
     zoo_get_children = \<lambda>p s. (ZOK, []), zoo_aw = \<lambda>k p i s. (ZOK, s),
     zookeeper_init = \<lambda>u t s. (True, s), zookeeper_close = \<lambda>s. s\<rparr>"

definition one_node_client :: zk_client where
  "one_node_client = client_init\<lparr>c_srvnodes := [\<lparr>has_cli = True, m_path = [47, 97], m_data = [1]\<rparr>],
     c_watchers := [(7, \<lparr>w_cli = True, w_path = [47], w_id = 7, w_mask = CHILD_EVENT, w_exists = True\<rparr>)]\<rparr>"


text \<open>
  The path of a child is the parent, a slash and the child with every run of slashes made one; it has no two
  slashes next to each other.
\<close>

theorem zkPath_squash:
  "zkPath parent child = squash (parent @ ch CHR ''/'' # child) \<and>
   (\<forall>i. i + 1 < length (zkPath parent child) \<longrightarrow>
     \<not> (zkPath parent child ! i = ch CHR ''/'' \<and> zkPath parent child ! (i + 1) = ch CHR ''/''))"
  unfolding zkPath_def zkPath_loop_squash using squash_no_double by simp

theorem zkPath_squash_witness:
  "\<not> (zkPath [47, 97, 47] [98] ! 0 = ch CHR ''/'' \<and> zkPath [47, 97, 47] [98] ! (0 + 1) = ch CHR ''/'')"
proof -
  have "length (zkPath [47, 97, 47] [98]) = 4" by (simp add: zkPath_def zkPath_loop_squash)
  then show ?thesis using conjunct2 [OF zkPath_squash [of "[47, 97, 47]" "[98]"], rule_format, of 0] by simp
qed

text \<open>
  The call \<open>init\<close> returns if the session is connected after the wait has begun: no execution gets stuck. A connection
  that is reported earlier is missed, and \<open>init\<close> waits for ever although the session is connected.
\<close>

theorem connected_signal:
  "(\<forall>x y. wt_main x = M_wait \<and> m_waiting x \<and> wt_cb x = B_idle \<longrightarrow> wait_step\<^sup>*\<^sup>* x y \<longrightarrow> \<not> stuck y) \<and>
   (\<exists>y. wait_step\<^sup>*\<^sup>* waiter_init y \<and> wt_cb y = B_end \<and> stuck y)"
proof -
  have "\<not> stuck y" if "wt_main x = M_wait \<and> m_waiting x \<and> wt_cb x = B_idle" "wait_step\<^sup>*\<^sup>* x y" for x y
    using in_time_steps [OF that(2)] that(1) in_time_not_stuck by (auto simp: in_time_def)
  moreover have "wt_cb missed = B_end" by (simp add: missed_def)
  ultimately show ?thesis using missed_reached missed_stuck by blast
qed

theorem connected_signal_witness:
  "\<not> stuck \<lparr>wt_main = M_woken, wt_cb = B_end, m_waiting = True\<rparr>"
proof -
  let ?x = "\<lparr>wt_main = M_wait, wt_cb = B_idle, m_waiting = True\<rparr>"
  have "wait_step ?x \<lparr>wt_main = M_wait, wt_cb = B_signal, m_waiting = True\<rparr>" using w_connected [of ?x] by simp
  moreover have "wait_step \<lparr>wt_main = M_wait, wt_cb = B_signal, m_waiting = True\<rparr> \<lparr>wt_main = M_woken, wt_cb = B_end, m_waiting = True\<rparr>"
    using w_signal [of "\<lparr>wt_main = M_wait, wt_cb = B_signal, m_waiting = True\<rparr>"] by simp
  ultimately have "wait_step\<^sup>*\<^sup>* ?x \<lparr>wt_main = M_woken, wt_cb = B_end, m_waiting = True\<rparr>"
    by (meson converse_rtranclp_into_rtranclp r_into_rtranclp)
  then show ?thesis using conjunct1 [OF connected_signal, rule_format, of ?x] by simp
qed

end
