(* ===== verification/Watchers.thy ===== *)
theory Watchers
  imports ZkClient PushServer SessCache
begin

text \<open>
  The watchers the servers use: lists of children (\<^verbatim>\<open>common/src/list_watcher.cpp\<close>) and the data of a node
  (\<^verbatim>\<open>common/src/data_watcher.cpp\<close>, \<^verbatim>\<open>ZKDataWatcher\<close> in \<^verbatim>\<open>common/src/zk_watcher.cpp\<close>), and what hangs on them:
  the push server's list of connect servers (\<^verbatim>\<open>SvManager::init\<close>) and the configuration of the session
  caches (\<^verbatim>\<open>SessCacheWatcher\<close> in \<^verbatim>\<open>common/src/sess_cache.cpp\<close>). A template's callback is a function on the state \<open>'x\<close>
  of the object it belongs to, with a flag for the context being set; JSON's reader is a parameter.
\<close>

subsection \<open>Lists of children\<close>

type_synonym children_map = "(bytes, bytes) std_map"

fun getChildrenData :: "'w zoo \<Rightarrow> bytes \<Rightarrow> bytes list \<Rightarrow> children_map \<Rightarrow> 'w \<Rightarrow> (int \<times> children_map) outcome" where
  "getChildrenData z path [] m s = Done (0, m)"
| "getChildrenData z path (c # v) m s =
     bind_outcome (getNodeData z (zkPath path c) [] s) (\<lambda>(ret, data).
       if ret < 0 then Done (ret, m) else getChildrenData z path v (map_put c data m) s)"

definition lw_getChildren :: "'w zoo \<Rightarrow> bytes \<Rightarrow> children_map \<Rightarrow> 'w \<Rightarrow> (int \<times> children_map) outcome" where
  "lw_getChildren z path m s =
     (let (ret, v) = zk_getChildren z path [] s in if ret < 0 then Done (ret, m) else getChildrenData z path v m s)"

fun empty_children :: "bytes list \<Rightarrow> children_map \<Rightarrow> children_map" where
  "empty_children [] m = m"
| "empty_children (c # v) m = empty_children v (map_put c [] m)"

definition lw_onChildrenChange :: "'w zoo \<Rightarrow> bytes \<Rightarrow> bool \<Rightarrow> (children_map \<Rightarrow> 'x \<Rightarrow> (int \<times> 'x) outcome) \<Rightarrow>
    bytes list \<Rightarrow> 'w \<Rightarrow> 'x \<Rightarrow> (int \<times> 'x) outcome" where
  "lw_onChildrenChange z path loaddata onListChange children s x =
     bind_outcome (if loaddata then getChildrenData z path children [] s else Done (0, empty_children children []))
       (\<lambda>(ret, m). if ret \<ge> 0 then onListChange m x else Done (0, x))"

text \<open>The list's \<open>init\<close>: the new watcher's path, client and first watch; \<open>i\<close> is the id it was made with.\<close>

definition lw_init :: "'w zoo \<Rightarrow> int \<Rightarrow> bytes \<Rightarrow> zk_client \<Rightarrow> 'w \<Rightarrow> int \<times> zk_client \<times> 'w" where
  "lw_init z i path c s =
     (0, on_watcher i (addWatch z CHILD_EVENT) (addToClient (ZKWatcher_new i path) c) s)"

text \<open>A template's call of its callback.\<close>

definition call_back :: "bool \<Rightarrow> ('m \<Rightarrow> 'x \<Rightarrow> (int \<times> 'x) outcome) \<Rightarrow> 'm \<Rightarrow> 'x \<Rightarrow> (int \<times> 'x) outcome" where
  "call_back ctx cb m x = (if ctx then cb m x else Done (0, x))"

text \<open>Children in JSON. The reader gives whether the text is well formed and the value it leaves.\<close>

fun json_children :: "(bytes \<Rightarrow> bool \<times> json) \<Rightarrow> children_map \<Rightarrow> (bytes, json) std_map \<Rightarrow> (bytes, json) std_map" where
  "json_children rd [] jm = jm"
| "json_children rd ((k, d) # m) jm = json_children rd m (if fst (rd d) then map_put k (snd (rd d)) jm else jm)"

definition jlw_getChildren :: "(bytes \<Rightarrow> bool \<times> json) \<Rightarrow> 'w zoo \<Rightarrow> bytes \<Rightarrow> (bytes, json) std_map \<Rightarrow> 'w \<Rightarrow>
    (int \<times> (bytes, json) std_map) outcome" where
  "jlw_getChildren rd z path jm s =
     bind_outcome (lw_getChildren z path [] s) (\<lambda>(ret, m). Done (ret, json_children rd m jm))"

definition jlw_onListChange :: "(bytes \<Rightarrow> bool \<times> json) \<Rightarrow> ((bytes, json) std_map \<Rightarrow> 'x \<Rightarrow> (int \<times> 'x) outcome) \<Rightarrow>
    children_map \<Rightarrow> 'x \<Rightarrow> (int \<times> 'x) outcome" where
  "jlw_onListChange rd onJsonListChange c x = onJsonListChange (json_children rd c []) x"

text \<open>
  Children that are servers' statuses. The status a text is read into has an \<open>ID\<close> that nothing has set;
  it is the parameter \<open>i0\<close>.
\<close>

definition fresh_status :: "int \<Rightarrow> server_status" where
  "fresh_status i0 = \<lparr>ID = i0, IPs = [], Ports = [], Properties = nullValue\<rparr>"

fun status_children :: "(bytes \<Rightarrow> json option) \<Rightarrow> int \<Rightarrow> children_map \<Rightarrow> (bytes, server_status) std_map \<Rightarrow>
    (bytes, server_status) std_map outcome" where
  "status_children parse i0 [] jm = Done jm"
| "status_children parse i0 ((k, d) # m) jm =
     bind_outcome (parseFromString parse d (fresh_status i0)) (\<lambda>(ret, v).
       status_children parse i0 m (if ret \<ge> 0 then map_put k v jm else jm))"

definition slw_getChildren :: "(bytes \<Rightarrow> json option) \<Rightarrow> int \<Rightarrow> 'w zoo \<Rightarrow> bytes \<Rightarrow> (bytes, server_status) std_map \<Rightarrow> 'w \<Rightarrow>
    (int \<times> (bytes, server_status) std_map) outcome" where
  "slw_getChildren parse i0 z path jm s =
     bind_outcome (lw_getChildren z path [] s) (\<lambda>(ret, m).
       bind_outcome (status_children parse i0 m jm) (\<lambda>jm. Done (ret, jm)))"

definition slw_onListChange :: "(bytes \<Rightarrow> json option) \<Rightarrow> int \<Rightarrow>
    ((bytes, server_status) std_map \<Rightarrow> 'x \<Rightarrow> (int \<times> 'x) outcome) \<Rightarrow> children_map \<Rightarrow> 'x \<Rightarrow> (int \<times> 'x) outcome" where
  "slw_onListChange parse i0 onServerListChange c x =
     bind_outcome (status_children parse i0 c []) (\<lambda>m. onServerListChange m x)"

subsection \<open>The data of a node\<close>

record data_watcher =
  dw_version :: int
  dw_data :: bytes

definition dw_init :: "'w zoo \<Rightarrow> int \<Rightarrow> bytes \<Rightarrow> data_watcher \<Rightarrow> zk_client \<Rightarrow> 'w \<Rightarrow>
    (int \<times> data_watcher \<times> zk_client \<times> 'w) outcome" where
  "dw_init z i path d c s =
     (let c = addToClient (ZKWatcher_new i path) c
      in bind_outcome (getNodeData z path (dw_data d) s) (\<lambda>(ret, data).
           let d = d\<lparr>dw_data := data\<rparr>
           in if ret < 0 then Done (ret, d, c, s)
              else let (c, s) = on_watcher i (addWatch z CHANGE_EVENT) c s in Done (0, d, c, s)))"

definition dw_onDataChange :: "int \<Rightarrow> bytes \<Rightarrow> data_watcher \<Rightarrow> int \<times> data_watcher" where
  "dw_onDataChange ver data d = (0, d\<lparr>dw_version := ver, dw_data := data\<rparr>)"

text \<open>\<open>DataWatcher<T>\<close>: the base's function first, then the comparison.\<close>

definition DataWatcher_onDataChange :: "bool \<Rightarrow> (int \<Rightarrow> bytes \<Rightarrow> 'x \<Rightarrow> int \<times> 'x) \<Rightarrow> int \<Rightarrow> bytes \<Rightarrow>
    data_watcher \<Rightarrow> 'x \<Rightarrow> int \<times> data_watcher \<times> 'x" where
  "DataWatcher_onDataChange ctx cb ver data d x =
     (let (_, d) = dw_onDataChange ver data d
      in if dw_data d \<noteq> data \<and> ctx then let (ret, x) = cb ver data x in (ret, d, x) else (0, d, x))"

definition DataWatcher_onPathRemove :: "bool \<Rightarrow> (int \<Rightarrow> bytes \<Rightarrow> 'x \<Rightarrow> int \<times> 'x) \<Rightarrow> data_watcher \<Rightarrow> 'x \<Rightarrow>
    int \<times> data_watcher \<times> 'x" where
  "DataWatcher_onPathRemove ctx cb d x =
     DataWatcher_onDataChange ctx cb (-1) [] (d\<lparr>dw_version := -1, dw_data := []\<rparr>) x"

record json_watcher = data_watcher +
  jw_v :: json

definition jw_init :: "(bytes \<Rightarrow> bool \<times> json) \<Rightarrow> 'w zoo \<Rightarrow> int \<Rightarrow> bytes \<Rightarrow> json_watcher \<Rightarrow> zk_client \<Rightarrow> 'w \<Rightarrow>
    (int \<times> json_watcher \<times> zk_client \<times> 'w) outcome" where
  "jw_init rd z i path d c s =
     bind_outcome (dw_init z i path (data_watcher.truncate d) c s) (\<lambda>(ret, d0, c, s).
       let d = d\<lparr>dw_version := dw_version d0, dw_data := dw_data d0\<rparr>
       in if ret < 0 then Done (ret, d, c, s)
          else let (ok, v) = rd (dw_data d) in Done (if ok then 0 else -1, d\<lparr>jw_v := v\<rparr>, c, s))"

definition jw_onDataChange :: "(bytes \<Rightarrow> bool \<times> json) \<Rightarrow> (int \<Rightarrow> json \<Rightarrow> 'x \<Rightarrow> int \<times> 'x) \<Rightarrow> int \<Rightarrow> bytes \<Rightarrow>
    json_watcher \<Rightarrow> 'x \<Rightarrow> int \<times> json_watcher \<times> 'x" where
  "jw_onDataChange rd onJsonChange ver str d x =
     (let d = d\<lparr>dw_version := ver, dw_data := str\<rparr>; (ok, v) = rd str; d = d\<lparr>jw_v := v\<rparr>
      in if ok then let (ret, x) = onJsonChange ver v x in (ret, d, x) else (0, d, x))"

definition jw_onPathRemove :: "(bytes \<Rightarrow> bool \<times> json) \<Rightarrow> (int \<Rightarrow> json \<Rightarrow> 'x \<Rightarrow> int \<times> 'x) \<Rightarrow>
    json_watcher \<Rightarrow> 'x \<Rightarrow> int \<times> json_watcher \<times> 'x" where
  "jw_onPathRemove rd onJsonChange d x =
     jw_onDataChange rd onJsonChange (-1) [] (d\<lparr>dw_version := -1, dw_data := []\<rparr>) x"

text \<open>
  \<open>ZKDataWatcher\<close>. Its \<open>onDataChange\<close> takes the data before the version, so it does not override the function that
  the client calls, \<^verbatim>\<open>ZKWatcher::onDataChange(int, const std::string&)\<close>, which does nothing.
\<close>

definition zdw_onDataChange :: "(int \<Rightarrow> bytes \<Rightarrow> 'x \<Rightarrow> int \<times> 'x) option \<Rightarrow> bytes \<Rightarrow> int \<Rightarrow> data_watcher \<Rightarrow> 'x \<Rightarrow>
    int \<times> data_watcher \<times> 'x" where
  "zdw_onDataChange cb data ver d x =
     (let d = d\<lparr>dw_version := ver\<rparr>
      in if dw_data d \<noteq> data then
           let d = d\<lparr>dw_data := data\<rparr>
           in (case cb of None \<Rightarrow> (0, d, x) | Some f \<Rightarrow> let (ret, x) = f ver data x in (ret, d, x))
         else (0, d, x))"

definition zdw_onPathRemove :: "(int \<Rightarrow> bytes \<Rightarrow> 'x \<Rightarrow> int \<times> 'x) option \<Rightarrow> data_watcher \<Rightarrow> 'x \<Rightarrow> int \<times> data_watcher \<times> 'x" where
  "zdw_onPathRemove cb d x = zdw_onDataChange cb [] (-1) d x"

definition initNodeData :: "'w zoo \<Rightarrow> bytes \<Rightarrow> data_watcher \<Rightarrow> 'w \<Rightarrow> data_watcher outcome" where
  "initNodeData z path d s = bind_outcome (getNodeData z path (dw_data d) s) (\<lambda>(ret, data). Done (d\<lparr>dw_data := data\<rparr>))"

text \<open>The calls of the client, as the classes have the virtual functions.\<close>

fun DataWatcher_upcall :: "bool \<Rightarrow> (int \<Rightarrow> bytes \<Rightarrow> 'x \<Rightarrow> int \<times> 'x) \<Rightarrow> upcall \<Rightarrow> data_watcher \<Rightarrow> 'x \<Rightarrow> int \<times> data_watcher \<times> 'x" where
  "DataWatcher_upcall ctx cb (onDataChange ver data) d x = DataWatcher_onDataChange ctx cb ver data d x"
| "DataWatcher_upcall ctx cb onPathRemove d x = DataWatcher_onPathRemove ctx cb d x"
| "DataWatcher_upcall ctx cb u d x = (0, d, x)"

fun ZKDataWatcher_upcall :: "(int \<Rightarrow> bytes \<Rightarrow> 'x \<Rightarrow> int \<times> 'x) option \<Rightarrow> upcall \<Rightarrow> data_watcher \<Rightarrow> 'x \<Rightarrow> int \<times> data_watcher \<times> 'x" where
  "ZKDataWatcher_upcall cb (onDataChange ver data) d x = (0, d, x)"
| "ZKDataWatcher_upcall cb onPathRemove d x = zdw_onPathRemove cb d x"
| "ZKDataWatcher_upcall cb u d x = (0, d, x)"

fun JsonWatcher_upcall :: "(bytes \<Rightarrow> bool \<times> json) \<Rightarrow> (int \<Rightarrow> json \<Rightarrow> 'x \<Rightarrow> int \<times> 'x) \<Rightarrow> upcall \<Rightarrow> json_watcher \<Rightarrow> 'x \<Rightarrow>
    int \<times> json_watcher \<times> 'x" where
  "JsonWatcher_upcall rd cb (onDataChange ver data) d x = jw_onDataChange rd cb ver data d x"
| "JsonWatcher_upcall rd cb onPathRemove d x = jw_onPathRemove rd cb d x"
| "JsonWatcher_upcall rd cb u d x = (0, d, x)"

subsection \<open>Configuration of the session caches\<close>

definition JsonWatcher_new :: json_watcher where
  "JsonWatcher_new = \<lparr>dw_version = -1, dw_data = [], jw_v = nullValue\<rparr>"

definition watchCallBack :: "int \<Rightarrow> json \<Rightarrow> json data_src \<Rightarrow> int \<times> json data_src" where
  "watchCallBack ver notify cfg = (0, snd (setData notify cfg))"

definition scw_init :: "(bytes \<Rightarrow> bool \<times> json) \<Rightarrow> 'w zoo \<Rightarrow> int \<Rightarrow> bytes \<Rightarrow> json data_src \<Rightarrow> zk_client \<Rightarrow> 'w \<Rightarrow>
    (int \<times> json_watcher \<times> json data_src \<times> zk_client \<times> 'w) outcome" where
  "scw_init rd z i zkpath cfg c s =
     bind_outcome (jw_init rd z i zkpath JsonWatcher_new c s) (\<lambda>(_, d, c, s).
       Done (0, d, snd (setData (jw_v d) cfg), c, s))"

subsection \<open>The push server's list of servers\<close>

definition sv_list_callback :: "ps_env \<Rightarrow> (bytes, server_status) std_map \<Rightarrow> (int, server_status) std_map data_src \<Rightarrow>
    (int \<times> (int, server_status) std_map data_src) outcome" where
  "sv_list_callback e m src = Done (onSvListChange e m src)"

text \<open>The watcher's upcall for new children.\<close>

definition sv_onChildrenChange :: "ps_env \<Rightarrow> (bytes \<Rightarrow> json option) \<Rightarrow> int \<Rightarrow> 'w zoo \<Rightarrow> bytes \<Rightarrow> bytes list \<Rightarrow> 'w \<Rightarrow>
    (int, server_status) std_map data_src \<Rightarrow> (int \<times> (int, server_status) std_map data_src) outcome" where
  "sv_onChildrenChange e parse i0 z path children s src =
     lw_onChildrenChange z path True (slw_onListChange parse i0 (call_back True (sv_list_callback e))) children s src"

text \<open>\<open>loops\<close>: the number of event loops, each of which gets an \<open>Svlist\<close> with the data source.\<close>

definition SvManager_init :: "ps_env \<Rightarrow> (bytes \<Rightarrow> json option) \<Rightarrow> int \<Rightarrow> 'w zoo \<Rightarrow> int \<Rightarrow> bytes \<Rightarrow> nat \<Rightarrow> zk_client \<Rightarrow> 'w \<Rightarrow>
    (int, server_status) std_map data_src \<Rightarrow>
    (int \<times> (int, server_status) std_map loader list \<times> (int, server_status) std_map data_src \<times> zk_client \<times> 'w) outcome" where
  "SvManager_init e parse i0 z i svpath loops c s src =
     (let (ret, c, s) = lw_init z i svpath c s
      in if ret < 0 then Done (-12, [], src, c, s)
         else
           let svlsts = replicate loops (Loader_init [])
           in bind_outcome (slw_getChildren parse i0 z svpath [] s) (\<lambda>(ret, m).
                if ret < 0 then Done (ret, svlsts, src, c, s)
                else let (ret, src) = onSvListChange e m src in Done (0, svlsts, src, c, s)))"


subsection \<open>Lemmas\<close>

lemma getNodeData_ok:
  assumes "zoo_get z path node_max s = (ZOK, int (length d), d)" "length d \<le> node_max"
  shows "getNodeData z path data s = Done (0, d)"
proof -
  have "length (str_resize node_max data) = node_max" by (simp add: str_resize_def)
  with assms show ?thesis by (simp add: getNodeData_def zoo_consts) (simp add: str_resize_def)
qed

lemma getChildrenData_ok:
  assumes "\<And>c. c \<in> set v \<Longrightarrow> getNodeData z (zkPath path c) [] s = Done (0, tx c)"
  shows "getChildrenData z path v m s = Done (0, fold (\<lambda>c m. map_put c (tx c) m) v m)"
  using assms by (induction v arbitrary: m) simp_all

lemma map_ok_fold_put: "map_ok m \<Longrightarrow> map_ok (fold (\<lambda>c m. map_put c (f c) m) v m)"
  by (induction v arbitrary: m) simp_all

lemma map_of_fold_put:
  "map_of (fold (\<lambda>c m. map_put c (f c) m) v m) = (\<lambda>k. if k \<in> set v then Some (f k) else map_of m k)"
  by (induction v arbitrary: m) (auto simp: fun_eq_iff)

lemma keys_of_map:
  assumes "\<And>k. map_of m k = (if k \<in> A then Some (f k) else None)"
  shows "fst ` set m = A"
  using assms dom_map_of_conv_image_fst [of m] by (auto simp only: dom_def split: if_splits)

lemma status_children_ok:
  assumes "\<And>k d. (k, d) \<in> set m \<Longrightarrow> parseFromString parse d (fresh_status i0) = Done (0, st k)"
  shows "status_children parse i0 m jm = Done (fold (\<lambda>k jm. map_put k (st k) jm) (map fst m) jm)"
  using assms
proof (induction m arbitrary: jm)
  case (Cons e m)
  obtain k d where e: "e = (k, d)" by fastforce
  have "parseFromString parse d (fresh_status i0) = Done (0, st k)" using Cons.prems e by simp
  moreover have "status_children parse i0 m jm' = Done (fold (\<lambda>k jm. map_put k (st k) jm) (map fst m) jm')" for jm'
    by (rule Cons.IH) (rule Cons.prems, simp)
  ultimately show ?case by (simp add: e)
qed simp

definition put_for_type :: "int \<Rightarrow> bytes \<times> server_status \<Rightarrow> (int, server_status) std_map \<Rightarrow> (int, server_status) std_map" where
  "put_for_type ty e r =
     (let s1 = for_type ty (snd e) in if Ports s1 = [] then r else map_put (atoi (fst e)) s1 r)"

lemma onSvListChange_fold:
  "onSvListChange e m src = (0, snd (setData (fold (put_for_type (ps_type e)) m []) src))"
  by (simp add: onSvListChange_def put_for_type_def [abs_def] split_beta')

lemma put_for_type_some [simp]:
  "Ports (for_type ty s2) \<noteq> [] \<Longrightarrow> put_for_type ty (k, s2) r = map_put (atoi k) (for_type ty s2) r"
  by (simp add: put_for_type_def)

lemma map_of_put_none:
  "\<forall>e \<in> set m. atoi (fst e) \<noteq> i \<Longrightarrow> map_of (fold (put_for_type ty) m r) i = map_of r i"
  by (induction m arbitrary: r) (simp_all add: put_for_type_def Let_def)

lemma map_of_put_some:
  assumes "inj_on atoi (fst ` set m)" "distinct (map fst m)" "(k, s2) \<in> set m" "Ports (for_type ty s2) \<noteq> []"
  shows "map_of (fold (put_for_type ty) m r) (atoi k) = Some (for_type ty s2)"
  using assms
proof (induction m arbitrary: r)
  case (Cons e m)
  show ?case
  proof (cases "e = (k, s2)")
    case True
    have "atoi (fst e') \<noteq> atoi k" if "e' \<in> set m" for e'
    proof
      assume "atoi (fst e') = atoi k"
      then have "fst e' = k" using Cons.prems(1) that True by (auto simp: inj_on_def)
      then show False using Cons.prems(2) that True by force
    qed
    then have "map_of (fold (put_for_type ty) m (put_for_type ty e r)) (atoi k) = map_of (put_for_type ty e r) (atoi k)"
      by (intro map_of_put_none) blast
    with True Cons.prems(4) show ?thesis by simp
  next
    case False
    with Cons.prems have "(k, s2) \<in> set m" by auto
    then show ?thesis using Cons.IH [of "put_for_type ty e r"] Cons.prems by (simp add: inj_on_def)
  qed
qed simp

text \<open>A published status with one port is read back as it was.\<close>

lemma published_status:
  assumes "serializeToJson st nullValue = Done (0, v)" "length (Ports st) = 1" "parse d = Some v"
  shows "parseFromString parse d (fresh_status i0) = Done (0, st)"
proof -
  obtain m where m: "serializeToJson st nullValue = Done (0, objectValue m)"
    "map_of m (bytes_of ''ID'') = Some (intValue (ID st))" "arr_at m ''IPs'' (map stringValue (IPs st))"
    "arr_at m ''CliConfigs'' (map port_json (Ports st))" "map_of m (bytes_of ''Properties'') = Some (Properties st)"
    using serialize_fields by blast
  obtain p where p: "Ports st = [p]" using assms(2) by (auto simp: length_Suc_conv)
  have v: "v = objectValue m" using m(1) assms(1) by simp
  have "merge_port PortConfig_init p = p" by (simp add: merge_port_def PortConfig_init_def)
  then have "parseFromJson v (fresh_status i0) = Done (0, st)"
    unfolding v using p by (subst parse_serialized [OF m(2-5)]) (cases st; simp add: fresh_status_def)
  then show ?thesis by (simp add: parseFromString_def assms(3))
qed

subsection \<open>Properties\<close>



definition ex_status :: server_status where
  "ex_status = \<lparr>ID = 7, IPs = [], Ports = [\<lparr>Port = 80, MaxType = 9, MinType = 0, Others = nullValue\<rparr>], Properties = nullValue\<rparr>"

definition seven :: bytes where "seven = bytes_of ''7''"

definition ex_parse :: "bytes \<Rightarrow> json option" where
  "ex_parse d = (case serializeToJson ex_status nullValue of Done (ret, v) \<Rightarrow> Some v | _ \<Rightarrow> None)"

definition ex_env :: ps_env where
  "ex_env = \<lparr>ps_id = 1, ps_type = 5, putLoginReq = \<lambda>r. [], parseLoginResp = \<lambda>b. \<lparr>lr_status = 0, lr_sessid = []\<rparr>,
     putPushReq = \<lambda>r. [], parsePResp = \<lambda>b. None, parseJson = \<lambda>b. None, styled = \<lambda>v. [], sess_of = \<lambda>b. [],
     got_cache = True, connect_ret = \<lambda>ip p. 0, sv_send = \<lambda>c. 0, listen_send = 0\<rparr>"


text \<open>
  A change of the configuration reaches the session caches. The completion of a request for the data hands the
  new text to the watcher; if it is well formed, every cache loads the new configuration with its next
  access, and otherwise the caches keep the one they have.
\<close>

theorem config_reaches_caches:
  assumes "getWatcher i c = Some w" "getDataComplete z ZOK val ver i c s = (up, c', s')"
    "JsonWatcher_upcall rd watchCallBack (the up) d src = (ret, d', src')" "ld_version l \<le> ds_version src"
  shows "up \<noteq> None \<and> c' = c \<and> s' = s \<and> dw_data d' = val \<and>
    (if fst (rd val) then loadData src' l = (True, \<lparr>ld_data = snd (rd val), ld_version = ds_version src + 1\<rparr>)
     else src' = src)"
  using assms
  by (cases "rd val")
    (auto simp: getDataComplete_def zoo_consts jw_onDataChange_def watchCallBack_def setData_def loadData_def
      getSersion_def getData_def Let_def split: if_splits)

theorem config_reaches_caches_witness:
  "loadData (snd (snd (JsonWatcher_upcall (\<lambda>b. (True, intValue 3)) watchCallBack (onDataChange 2 [51]) JsonWatcher_new
      (DataSrc_init nullValue)))) (Loader_init nullValue) = (True, \<lparr>ld_data = intValue 3, ld_version = 1\<rparr>)"
  using config_reaches_caches [of 7 "with_watcher 7 [47] False" _ zoo_net "[51]" 2 net_init "Some (onDataChange 2 [51])"
      "with_watcher 7 [47] False" net_init "\<lambda>b. (True, intValue 3)" JsonWatcher_new "DataSrc_init nullValue"
      _ _ _ "Loader_init nullValue"]
  by (simp add: with_watcher_def getWatcher_def getDataComplete_def zoo_consts DataSrc_init_def Loader_init_def
      jw_onDataChange_def watchCallBack_def Let_def)

text \<open>
  A configuration that is missing at the start is never noticed and takes the server down. \<open>init\<close> gives up before
  it asks for a watch, so that the watcher watches for nothing and no request is sent, and its caller reports
  success; the first session asked for then divides by zero.
\<close>

theorem missing_config_faults:
  assumes "zoo_get z path node_max s = (rc, n, got)" "rc < 0"
  shows "\<exists>d src' c'. scw_init rd z i path src c s = Done (0, d, src', c', s) \<and>
    (\<exists>w. getWatcher i c' = Some w \<and> w_mask w = 0) \<and>
    (0 \<le> ds_version src \<longrightarrow>
      (\<exists>sc. RedisSessCache_init hs src' = Done sc \<and> getHandle h old hs src' key sc = Fault))"
proof -
  have "length (str_resize node_max []) = node_max" by (simp add: str_resize_def)
  then obtain data where g: "getNodeData z path [] s = Done (rc, data)"
    using assms by (auto simp: getNodeData_def)
  let ?c = "addToClient (ZKWatcher_new i path) c"
  let ?src = "snd (setData nullValue src)"
  have "scw_init rd z i path src c s = Done (0, JsonWatcher_new\<lparr>dw_data := data\<rparr>, ?src, ?c, s)"
    using assms(2) g by (simp add: scw_init_def jw_init_def dw_init_def JsonWatcher_new_def data_watcher.defs)
  moreover have "\<exists>w. getWatcher i ?c = Some w \<and> w_mask w = 0"
    by (simp add: getWatcher_def addToClient_def ZKWatcher_new_def)
  moreover have "\<exists>sc. RedisSessCache_init hs ?src = Done sc \<and> getHandle h old hs ?src key sc = Fault" if "0 \<le> ds_version src"
    using that by (simp add: RedisSessCache_init_def setData_def loadData_def getSersion_def getData_def Loader_init_def
        cache_init_def RedisGroup_init_def getHandle_def getHndl_def jsize_def Let_def isInt_def)
  ultimately show ?thesis by blast
qed

theorem missing_config_faults_witness:
  "\<exists>d src' c' sc. scw_init (\<lambda>b. (True, nullValue)) zoo_net 7 [47] (DataSrc_init nullValue) client_init net_init =
      Done (0, d, src', c', net_init) \<and> RedisSessCache_init (\<lambda>i. 0) src' = Done sc \<and>
    getHandle (hash_server [] []) [] (\<lambda>i. 0) src' [65] sc = Fault"
  using missing_config_faults [of zoo_net "[47]" net_init ZNONODE 0 "[]" "\<lambda>b. (True, nullValue)" 7
      "DataSrc_init nullValue" client_init "\<lambda>i. 0" "hash_server [] []" "[]" "[65]"]
  by (fastforce simp: zoo_net_def zoo_consts DataSrc_init_def)

text \<open>
  The watchers for plain data never report a change. \<open>DataWatcher\<close> compares the new data with what it has just
  stored, so its callback is not called by anything the client reports, and \<open>ZKDataWatcher\<close> does not take
  part in reports of changed data at all.
\<close>

theorem data_watchers_silent:
  "fst (DataWatcher_upcall ctx cb u d x) = 0 \<and> snd (snd (DataWatcher_upcall ctx cb u d x)) = x \<and>
   ZKDataWatcher_upcall cb' (onDataChange ver data) d x = (0, d, x)"
  by (cases u) (simp_all add: DataWatcher_onDataChange_def DataWatcher_onPathRemove_def dw_onDataChange_def)

end
