(* ===== verification/SdkBuf.thy ===== *)
theory SdkBuf
  imports LoopBuf
begin

text \<open>
  The client SDK's byte queue (\<^verbatim>\<open>clientsdk/client/ef_loop_buf.cpp\<close> and \<^verbatim>\<open>.h\<close>): one ring of \<open>m_cap\<close> bytes instead of
  the servers' chain of frames. Sizes are \<open>nat\<close>, as for the chain; the storage a new ring starts with and
  the part a larger ring adds are not initialised by the code and are zeros here. The ring keeps the
  contract \<open>byte_queue\<close> of the chain.
\<close>

subsection \<open>The operations\<close>

record ring =
  rb_buf :: bytes
  rb_size :: nat
  rb_start :: nat

definition rb_cap :: "ring \<Rightarrow> nat" where
  "rb_cap b = length (rb_buf b)"

definition ring_new :: "nat \<Rightarrow> ring" where
  "ring_new cap = \<lparr>rb_buf = replicate cap 0, rb_size = 0, rb_start = 0\<rparr>"

text \<open>The bytes that \<open>read\<close> and \<open>peek\<close> move out.\<close>

definition rb_peek :: "ring \<Rightarrow> nat \<Rightarrow> bytes" where
  "rb_peek b len =
     (let realread = (if rb_size b \<le> len then rb_size b else len);
          firsthalf = rb_cap b - rb_start b
      in if firsthalf < realread
         then take firsthalf (drop (rb_start b) (rb_buf b)) @ take (realread - firsthalf) (rb_buf b)
         else take realread (drop (rb_start b) (rb_buf b)))"

definition rb_read :: "ring \<Rightarrow> nat \<Rightarrow> bytes \<times> ring" where
  "rb_read b len =
     (let realread = (if rb_size b \<le> len then rb_size b else len);
          firsthalf = rb_cap b - rb_start b;
          out = rb_peek b len;
          b = b\<lparr>rb_start := (if firsthalf < realread then realread - firsthalf else rb_start b + realread)\<rparr>;
          b = b\<lparr>rb_size := rb_size b - realread\<rparr>
      in (out, if rb_size b \<le> 0 then b\<lparr>rb_start := 0\<rparr> else b))"

definition rb_resize :: "ring \<Rightarrow> nat \<Rightarrow> nat \<times> ring" where
  "rb_resize b cap =
     (let (out, b) = rb_read b cap; ret = length out
      in (ret, \<lparr>rb_buf = out @ replicate (cap - ret) 0, rb_size = ret, rb_start = 0\<rparr>))"

definition first_half_len :: "ring \<Rightarrow> nat" where
  "first_half_len b = (let firsthalf = rb_cap b - rb_start b in if firsthalf < rb_size b then firsthalf else rb_size b)"

definition rb_stop :: "ring \<Rightarrow> nat" where
  "rb_stop b = (rb_start b + rb_size b) mod rb_cap b"

text \<open>\<^verbatim>\<open>memmove(m_buf + at, buf, n)\<close> for \<open>n\<close> bytes within the storage.\<close>

definition store_at :: "nat \<Rightarrow> bytes \<Rightarrow> bytes \<Rightarrow> bytes" where
  "store_at at bs buf = take at buf @ bs @ drop (at + length bs) buf"

text \<open>\<open>None\<close> is \<^verbatim>\<open>buf == NULL\<close>: the bytes are already there.\<close>

definition rb_write :: "ring \<Rightarrow> bytes option \<Rightarrow> nat \<Rightarrow> nat \<times> ring" where
  "rb_write b buf len =
     (let realwrite = (if len > rb_cap b - rb_size b then rb_cap b - rb_size b else len);
          stop = rb_stop b;
          firsthalf = rb_cap b - stop;
          b = (case buf of
                 None \<Rightarrow> b
               | Some bs \<Rightarrow>
                   if firsthalf < realwrite
                   then b\<lparr>rb_buf := store_at 0 (take (realwrite - firsthalf) (drop firsthalf bs))
                            (store_at stop (take firsthalf bs) (rb_buf b))\<rparr>
                   else b\<lparr>rb_buf := store_at stop (take realwrite bs) (rb_buf b)\<rparr>)
      in (realwrite, b\<lparr>rb_size := rb_size b + realwrite\<rparr>))"

definition next_part_len :: "ring \<Rightarrow> nat" where
  "next_part_len b =
     (let leftsize = rb_cap b - rb_size b; nextpart = rb_cap b - rb_stop b
      in if nextpart < leftsize then nextpart else leftsize)"

text \<open>What a \<^verbatim>\<open>recv\<close> into \<^verbatim>\<open>next_part()\<close> stores; the bytes are counted in by \<^verbatim>\<open>write(NULL, n)\<close> afterwards.\<close>

definition next_part_store :: "ring \<Rightarrow> bytes \<Rightarrow> ring" where
  "next_part_store b bs = b\<lparr>rb_buf := store_at (rb_stop b) bs (rb_buf b)\<rparr>"

definition auto_resize_write :: "ring \<Rightarrow> bytes \<Rightarrow> nat \<Rightarrow> nat \<times> ring" where
  "auto_resize_write b buf len =
     (let b = (if rb_size b + len > rb_cap b
               then let nlen = (if rb_cap b > len then rb_cap b * 2 else len * 2) in snd (rb_resize b nlen)
               else b)
      in rb_write b (Some buf) len)"

definition rb_clear :: "ring \<Rightarrow> nat \<times> ring" where
  "rb_clear b = (rb_size b, b\<lparr>rb_size := 0, rb_start := 0\<rparr>)"

subsection \<open>The bytes in the ring\<close>

definition rb_inv :: "ring \<Rightarrow> bool" where
  "rb_inv b \<longleftrightarrow> 0 < rb_cap b \<and> rb_size b \<le> rb_cap b \<and> rb_start b \<le> rb_cap b"

definition rb_at :: "ring \<Rightarrow> nat \<Rightarrow> byte" where
  "rb_at b i = rb_buf b ! ((rb_start b + i) mod rb_cap b)"

definition rb_data :: "ring \<Rightarrow> bytes" where
  "rb_data b = map (rb_at b) [0..<rb_size b]"

lemma length_rb_data [simp]: "length (rb_data b) = rb_size b"
  by (simp add: rb_data_def)

lemma rb_inv_new: "0 < cap \<Longrightarrow> rb_inv (ring_new cap)" "rb_data (ring_new cap) = []"
  by (simp_all add: rb_inv_def ring_new_def rb_cap_def rb_data_def)

lemma mod_wrap: "x < 2 * (c::nat) \<Longrightarrow> x mod c = (if x < c then x else x - c)"
  by (simp add: mod_if)

lemma rb_peek_data:
  assumes "rb_inv b"
  shows "rb_peek b len = take len (rb_data b)"
proof -
  define n where "n = (if rb_size b \<le> len then rb_size b else len)"
  have n: "n \<le> rb_size b" "take len (rb_data b) = map (rb_at b) [0..<n]"
    by (auto simp: n_def rb_data_def take_map)
  have inv: "rb_size b \<le> length (rb_buf b)" "rb_start b \<le> length (rb_buf b)"
    using assms by (simp_all add: rb_inv_def rb_cap_def)
  let ?out = "if rb_cap b - rb_start b < n
    then take (rb_cap b - rb_start b) (drop (rb_start b) (rb_buf b)) @ take (n - (rb_cap b - rb_start b)) (rb_buf b)
    else take n (drop (rb_start b) (rb_buf b))"
  have "?out = map (rb_at b) [0..<n]"
  proof (rule nth_equalityI)
    show len: "length ?out = length (map (rb_at b) [0..<n])"
      using inv n(1) by (simp add: rb_cap_def)
    fix i assume "i < length ?out"
    then have i: "i < n" using len by simp
    then have "(rb_start b + i) mod rb_cap b = (if rb_start b + i < rb_cap b then rb_start b + i else rb_start b + i - rb_cap b)"
      using inv n(1) assms by (intro mod_wrap) (auto simp: rb_inv_def rb_cap_def)
    with i inv show "?out ! i = map (rb_at b) [0..<n] ! i"
      by (auto simp: nth_append rb_at_def rb_cap_def add.commute)
  qed
  then show ?thesis by (simp add: rb_peek_def Let_def n_def [symmetric] n(2))
qed

lemma rb_read_data:
  assumes "rb_inv b"
  shows "fst (rb_read b len) = take len (rb_data b)" "rb_inv (snd (rb_read b len))"
    "rb_data (snd (rb_read b len)) = drop len (rb_data b)" "rb_cap (snd (rb_read b len)) = rb_cap b"
proof -
  define n where "n = (if rb_size b \<le> len then rb_size b else len)"
  have n: "n \<le> rb_size b" "drop len (rb_data b) = map (rb_at b) [n..<rb_size b]"
    by (auto simp: n_def rb_data_def drop_map)
  have inv: "0 < rb_cap b" "rb_size b \<le> rb_cap b" "rb_start b \<le> rb_cap b"
    using assms by (simp_all add: rb_inv_def)
  define start where "start = (if rb_cap b - rb_start b < n then n - (rb_cap b - rb_start b) else rb_start b + n)"
  have start: "start \<le> rb_cap b" using inv n(1) by (auto simp: start_def)
  have "start = rb_start b + n \<or> start + rb_cap b = rb_start b + n" using inv by (auto simp: start_def)
  then have at: "(start + i) mod rb_cap b = (rb_start b + (i + n)) mod rb_cap b" for i
    by (metis add.assoc add.commute mod_add_self2)
  have "map (\<lambda>i. rb_buf b ! ((start + i) mod rb_cap b)) [0..<rb_size b - n] = map (rb_at b) [n..<rb_size b]"
    unfolding at rb_at_def by (rule nth_equalityI) (simp_all add: add.commute)
  moreover have eq: "rb_read b len =
      (take len (rb_data b), b\<lparr>rb_start := (if rb_size b - n = 0 then 0 else start), rb_size := rb_size b - n\<rparr>)"
    by (simp add: rb_read_def Let_def rb_peek_data [OF assms] n_def [symmetric] start_def [symmetric])
  ultimately show "rb_data (snd (rb_read b len)) = drop len (rb_data b)"
    using n(2) by (cases "rb_size b - n = 0") (simp_all add: rb_data_def rb_at_def [abs_def] rb_cap_def)
  show "fst (rb_read b len) = take len (rb_data b)" "rb_cap (snd (rb_read b len)) = rb_cap b"
    by (simp_all add: eq rb_cap_def)
  show "rb_inv (snd (rb_read b len))" using inv start n(1) by (simp add: eq rb_inv_def rb_cap_def le_diff_conv trans_le_add1)
qed

lemma rb_resize_data:
  assumes "rb_inv b" "0 < cap"
  shows "rb_inv (snd (rb_resize b cap))" "rb_data (snd (rb_resize b cap)) = take cap (rb_data b)"
    "rb_cap (snd (rb_resize b cap)) = cap"
proof -
  obtain out b' where r: "rb_read b cap = (out, b')" by fastforce
  have out: "out = take cap (rb_data b)" using rb_read_data(1) [OF assms(1), of cap] by (simp add: r)
  then have le: "length out \<le> cap" by simp
  have eq: "snd (rb_resize b cap) = \<lparr>rb_buf = out @ replicate (cap - length out) 0, rb_size = length out, rb_start = 0\<rparr>"
    by (simp add: rb_resize_def r Let_def)
  show "rb_inv (snd (rb_resize b cap))" "rb_cap (snd (rb_resize b cap)) = cap"
    using le assms(2) by (simp_all add: eq rb_inv_def rb_cap_def)
  have "map (\<lambda>i. (out @ replicate (cap - length out) 0) ! (i mod cap)) [0..<length out] = out"
    using le by (intro nth_equalityI) (simp_all add: nth_append)
  then show "rb_data (snd (rb_resize b cap)) = take cap (rb_data b)"
    using le by (simp add: eq out rb_data_def rb_at_def [abs_def] rb_cap_def)
qed

text \<open>Storing \<open>n\<close> bytes from \<open>stop\<close> on, around the end.\<close>

definition ring_store :: "nat \<Rightarrow> nat \<Rightarrow> bytes \<Rightarrow> bytes \<Rightarrow> bytes" where
  "ring_store stop n bs buf =
     (if length buf - stop < n
      then store_at 0 (take (n - (length buf - stop)) (drop (length buf - stop) bs)) (store_at stop (take (length buf - stop) bs) buf)
      else store_at stop (take n bs) buf)"

lemma nth_store_at:
  "at + length bs \<le> length buf \<Longrightarrow> i < length buf \<Longrightarrow>
   store_at at bs buf ! i = (if at \<le> i \<and> i < at + length bs then bs ! (i - at) else buf ! i)"
  by (auto simp: store_at_def nth_append)

lemma length_store_at: "at + length bs \<le> length buf \<Longrightarrow> length (store_at at bs buf) = length buf"
  by (simp add: store_at_def)

lemma nth_ring_store:
  assumes "stop < length buf" "n \<le> length buf" "n \<le> length bs" "k < length buf"
  shows "ring_store stop n bs buf ! ((stop + k) mod length buf) =
    (if k < n then bs ! k else buf ! ((stop + k) mod length buf))"
  using assms
  by (auto simp: ring_store_def mod_wrap nth_store_at length_store_at)

lemma length_ring_store:
  "stop < length buf \<Longrightarrow> n \<le> length buf \<Longrightarrow> n \<le> length bs \<Longrightarrow> length (ring_store stop n bs buf) = length buf"
  by (auto simp: ring_store_def length_store_at)


lemma ring_at_after:
  assumes "rb_inv b" "k < rb_cap b"
  shows "(rb_stop b + k) mod rb_cap b = (rb_start b + (rb_size b + k)) mod rb_cap b"
  by (simp add: rb_stop_def mod_add_left_eq add.assoc)

text \<open>Bytes stored behind the content, and then counted in.\<close>

lemma ring_store_data:
  assumes inv: "rb_inv b" and n: "n \<le> rb_cap b - rb_size b" "n \<le> length bs"
  shows "rb_data (b\<lparr>rb_buf := ring_store (rb_stop b) n bs (rb_buf b), rb_size := rb_size b + n\<rparr>) = rb_data b @ take n bs"
    "rb_inv (b\<lparr>rb_buf := ring_store (rb_stop b) n bs (rb_buf b), rb_size := rb_size b + n\<rparr>)"
proof -
  let ?buf = "ring_store (rb_stop b) n bs (rb_buf b)"
  have cap: "0 < rb_cap b" "rb_size b \<le> rb_cap b" using inv by (simp_all add: rb_inv_def)
  have stop: "rb_stop b < length (rb_buf b)" using cap(1) by (simp add: rb_stop_def rb_cap_def)
  have n': "n \<le> length (rb_buf b)" using n by (simp add: rb_cap_def)
  have len: "length ?buf = rb_cap b" using length_ring_store [OF stop n' n(2)] by (simp add: rb_cap_def)
  have nth: "?buf ! ((rb_stop b + k) mod rb_cap b) = (if k < n then bs ! k else rb_buf b ! ((rb_stop b + k) mod rb_cap b))"
    if "k < rb_cap b" for k
    using nth_ring_store [OF stop n' n(2), of k] that by (simp add: rb_cap_def)
  have new: "?buf ! ((rb_start b + (rb_size b + k)) mod rb_cap b) = bs ! k" if "k < n" for k
    using nth [of k] that n by (simp add: ring_at_after [OF inv])
  have old: "?buf ! ((rb_start b + i) mod rb_cap b) = rb_at b i" if "i < rb_size b" for i
  proof -
    let ?k = "rb_cap b - rb_size b + i"
    have k: "?k < rb_cap b" "\<not> ?k < n" using that n cap by auto
    have "rb_start b + (rb_size b + ?k) = rb_start b + i + rb_cap b" using cap by simp
    then have "(rb_start b + (rb_size b + ?k)) mod rb_cap b = (rb_start b + i) mod rb_cap b" by (metis mod_add_self2)
    with nth [OF k(1)] k(2) show ?thesis by (simp add: ring_at_after [OF inv k(1)] rb_at_def)
  qed
  have "map (\<lambda>i. ?buf ! ((rb_start b + i) mod rb_cap b)) [0..<rb_size b + n] = rb_data b @ take n bs"
  proof (rule nth_equalityI)
    fix i assume "i < length (map (\<lambda>i. ?buf ! ((rb_start b + i) mod rb_cap b)) [0..<rb_size b + n])"
    then show "map (\<lambda>i. ?buf ! ((rb_start b + i) mod rb_cap b)) [0..<rb_size b + n] ! i = (rb_data b @ take n bs) ! i"
      using old [of i] new [of "i - rb_size b"] by (auto simp: nth_append rb_data_def)
  qed (use n in simp)
  then show "rb_data (b\<lparr>rb_buf := ?buf, rb_size := rb_size b + n\<rparr>) = rb_data b @ take n bs"
    using len by (simp add: rb_data_def rb_at_def [abs_def] rb_cap_def)
  show "rb_inv (b\<lparr>rb_buf := ?buf, rb_size := rb_size b + n\<rparr>)"
    using inv n(1) cap len by (auto simp: rb_inv_def rb_cap_def)
qed

lemma rb_write_store:
  assumes "rb_inv b"
  shows "rb_write b (Some bs) len =
    (let n = min len (rb_cap b - rb_size b)
     in (n, b\<lparr>rb_buf := ring_store (rb_stop b) n bs (rb_buf b), rb_size := rb_size b + n\<rparr>))"
  by (simp add: rb_write_def ring_store_def Let_def min_def rb_cap_def)

lemma rb_write_data:
  assumes "rb_inv b" "len \<le> length bs"
  shows "fst (rb_write b (Some bs) len) = min len (rb_cap b - rb_size b)"
    "rb_data (snd (rb_write b (Some bs) len)) = rb_data b @ take (min len (rb_cap b - rb_size b)) bs"
    "rb_inv (snd (rb_write b (Some bs) len))"
  using ring_store_data [OF assms(1), of "min len (rb_cap b - rb_size b)" bs] assms(2)
  by (simp_all add: rb_write_store [OF assms(1)] Let_def)

text \<open>A receive into the free part: \<open>next_part\<close>, then \<^verbatim>\<open>write(NULL, n)\<close>.\<close>

lemma next_part_data:
  assumes inv: "rb_inv b" and len: "length bs \<le> next_part_len b"
  shows "rb_data (snd (rb_write (next_part_store b bs) None (length bs))) = rb_data b @ bs"
    "rb_inv (snd (rb_write (next_part_store b bs) None (length bs)))"
proof -
  have cap: "0 < rb_cap b" "rb_size b \<le> rb_cap b" using inv by (simp_all add: rb_inv_def)
  have "rb_stop b < rb_cap b" using cap by (simp add: rb_stop_def)
  then have fits: "length bs \<le> rb_cap b - rb_size b" "length bs \<le> rb_cap b - rb_stop b" "rb_stop b + length bs \<le> rb_cap b"
    using len by (auto simp: next_part_len_def Let_def split: if_splits)
  have "rb_buf (next_part_store b bs) = ring_store (rb_stop b) (length bs) bs (rb_buf b)"
    using fits by (simp add: next_part_store_def ring_store_def rb_cap_def)
  moreover have "rb_cap (next_part_store b bs) = rb_cap b"
    using fits by (simp add: next_part_store_def rb_cap_def length_store_at)
  ultimately have "snd (rb_write (next_part_store b bs) None (length bs)) =
      b\<lparr>rb_buf := ring_store (rb_stop b) (length bs) bs (rb_buf b), rb_size := rb_size b + length bs\<rparr>"
    using fits by (simp add: rb_write_def Let_def next_part_store_def)
  then show "rb_data (snd (rb_write (next_part_store b bs) None (length bs))) = rb_data b @ bs"
    "rb_inv (snd (rb_write (next_part_store b bs) None (length bs)))"
    using ring_store_data [OF inv fits(1), of bs] by simp_all
qed

lemma next_part_inv:
  assumes "rb_inv b" "length bs \<le> next_part_len b"
  shows "rb_inv (next_part_store b bs)"
proof -
  have "rb_stop b < rb_cap b" using assms(1) by (simp add: rb_stop_def rb_inv_def)
  then have "rb_stop b + length bs \<le> rb_cap b"
    using assms(2) by (auto simp: next_part_len_def Let_def split: if_splits)
  then show ?thesis
    using assms(1) by (simp add: rb_inv_def next_part_store_def rb_cap_def length_store_at)
qed

text \<open>Unlike the chain of frames, the ring loses nothing when it grows.\<close>

lemma auto_resize_write_data:
  assumes "rb_inv b" "len \<le> length bs"
  shows "rb_data (snd (auto_resize_write b bs len)) = rb_data b @ take len bs"
    "rb_inv (snd (auto_resize_write b bs len))" "fst (auto_resize_write b bs len) = len"
proof -
  define n where "n = (if rb_cap b > len then rb_cap b * 2 else len * 2)"
  define b' where "b' = (if rb_size b + len > rb_cap b then snd (rb_resize b n) else b)"
  have size: "rb_size b \<le> rb_cap b" "0 < rb_cap b" using assms by (simp_all add: rb_inv_def)
  then have "rb_size b + len \<le> n" "0 < n" by (auto simp: n_def)
  then have b: "rb_inv b'" "rb_data b' = rb_data b" "rb_size b + len \<le> rb_cap b'"
    using assms(1) rb_resize_data [OF assms(1), of n] by (auto simp: b'_def)
  then have "rb_size b' = rb_size b" by (metis length_rb_data)
  with b(3) have "min len (rb_cap b' - rb_size b') = len" by simp
  moreover have "auto_resize_write b bs len = rb_write b' (Some bs) len"
    by (simp add: auto_resize_write_def Let_def b'_def n_def)
  ultimately show "rb_data (snd (auto_resize_write b bs len)) = rb_data b @ take len bs"
    "rb_inv (snd (auto_resize_write b bs len))" "fst (auto_resize_write b bs len) = len"
    using rb_write_data [OF b(1) assms(2)] b(2) by simp_all
qed

interpretation rbq: byte_queue rb_inv rb_data rb_size rb_peek "\<lambda>b n. Done (snd (rb_read b n), fst (rb_read b n))"
  by unfold_locales (simp_all add: rb_peek_data rb_read_data)


subsection \<open>A first-in first-out queue\<close>

text \<open>
  The operations as steps with what they move out, and the queue they implement. \<open>Recv bs\<close> is a receive of
  \<open>bs\<close>, which fits into the next part; \<open>Grow n\<close> is the resize by \<open>n\<close> that makes room for one.
\<close>

datatype ring_op = Put bytes | Recv bytes | Get nat | Look nat | Grow nat | Clear

inductive ring_step :: "ring \<Rightarrow> ring_op \<times> bytes \<Rightarrow> ring \<Rightarrow> bool" where
  "ring_step b (Put bs, []) (snd (auto_resize_write b bs (length bs)))"
| "length bs \<le> next_part_len b \<Longrightarrow>
   ring_step b (Recv bs, []) (snd (rb_write (next_part_store b bs) None (length bs)))"
| "ring_step b (Get n, fst (rb_read b n)) (snd (rb_read b n))"
| "ring_step b (Look n, rb_peek b n) b"
| "ring_step b (Grow n, []) (snd (rb_resize b (rb_cap b + n)))"
| "ring_step b (Clear, []) (snd (rb_clear b))"

inductive ring_run :: "ring \<Rightarrow> (ring_op \<times> bytes) list \<Rightarrow> ring \<Rightarrow> bool" where
  "ring_run b [] b"
| "ring_run b tr b' \<Longrightarrow> ring_step b' e b'' \<Longrightarrow> ring_run b (tr @ [e]) b''"

fun fifo_op :: "ring_op \<Rightarrow> bytes \<Rightarrow> bytes \<times> bytes" where
  "fifo_op (Put bs) q = ([], q @ bs)"
| "fifo_op (Recv bs) q = ([], q @ bs)"
| "fifo_op (Get n) q = (take n q, drop n q)"
| "fifo_op (Look n) q = (take n q, q)"
| "fifo_op (Grow n) q = ([], q)"
| "fifo_op Clear q = ([], [])"

fun fifo_run :: "(ring_op \<times> bytes) list \<Rightarrow> bytes \<Rightarrow> bytes option" where
  "fifo_run [] q = Some q"
| "fifo_run ((op, out) # tr) q = (if fst (fifo_op op q) = out then fifo_run tr (snd (fifo_op op q)) else None)"

lemma fifo_run_snoc:
  "fifo_run (tr @ [(op, out)]) q =
     (case fifo_run tr q of None \<Rightarrow> None | Some q' \<Rightarrow> if fst (fifo_op op q') = out then Some (snd (fifo_op op q')) else None)"
  by (induction tr q rule: fifo_run.induct) (auto split: option.splits)

lemma ring_step_fifo:
  "ring_step b e b' \<Longrightarrow> rb_inv b \<Longrightarrow> rb_inv b' \<and> fifo_op (fst e) (rb_data b) = (snd e, rb_data b')"
proof (induction rule: ring_step.induct)
  case (5 b n)
  then show ?case using rb_resize_data [OF 5, of "rb_cap b + n"] by (simp add: rb_inv_def)
next
  case (6 b)
  then show ?case by (simp add: rb_clear_def rb_inv_def rb_cap_def rb_data_def)
qed (simp_all add: auto_resize_write_data next_part_data rb_read_data rb_peek_data)

text \<open>
  C35: The ring is a first-in first-out queue of bytes, however often it wraps around or grows. Every run of writes,
  receives, reads, peeks, resizes and clears gives the bytes that an unbounded queue gives, and leaves
  the content of that queue.
\<close>

theorem ring_is_fifo:
  assumes "ring_run (ring_new cap) tr b" "0 < cap"
  shows "fifo_run tr [] = Some (rb_data b) \<and> rb_inv b \<and> rb_size b = length (rb_data b)"
proof -
  have "fifo_run tr (rb_data a) = Some (rb_data b) \<and> rb_inv b" if "ring_run a tr b" "rb_inv a" for a
    using that
  proof (induction rule: ring_run.induct)
    case (2 a tr b e b')
    then show ?case using ring_step_fifo [OF 2(2)] by (cases e) (simp add: fifo_run_snoc)
  qed simp
  from this [OF assms(1)] show ?thesis using rb_inv_new(1) [OF assms(2)] rb_inv_new(2) by simp
qed

theorem ring_is_fifo_witness:
  "rb_data (snd (auto_resize_write (snd (rb_read (snd (auto_resize_write (ring_new 2) [1, 2] 2)) 1)) [3, 4] 2)) = [2, 3, 4]"
proof -
  let ?b = "snd (auto_resize_write (ring_new 2) [1, 2] (length [1, 2 :: byte]))"
  let ?c = "snd (auto_resize_write (snd (rb_read ?b 1)) [3, 4] (length [3, 4 :: byte]))"
  have "ring_run (ring_new 2) ((([] @ [(Put [1, 2], [])]) @ [(Get 1, fst (rb_read ?b 1))]) @ [(Put [3, 4], [])]) ?c"
    by (rule ring_run.intros(2) [OF ring_run.intros(2) [OF ring_run.intros(2) [OF ring_run.intros(1)]]]; rule ring_step.intros)
  from ring_is_fifo [OF this] show ?thesis by (auto simp: numeral_2_eq_2 split: if_splits)
qed

end
