(* ===== verification/SdkConn.thy ===== *)
theory SdkConn
  imports SdkBuf Wire Sock Utility Containers Json Messages
begin

text \<open>
  A connection of the client SDK (\<^verbatim>\<open>clientsdk/client/client_conn.cpp\<close>) with the operations it waits for
  (\<^verbatim>\<open>clientsdk/client/opbase.cpp\<close>, \<^verbatim>\<open>ops.cpp\<close>). The connection belongs to an event loop, next theory, whose
  state it changes only by handing over operations and by calling the application. The world records what
  was published and sent; connects, sends, the message classes, JSON's writer and the application
  come from the environment. An operation's reference counts are not kept: it is held by the loop's queue
  or by one table of timers.
\<close>

subsection \<open>Operations, connection, surroundings\<close>

datatype sdk_op =
    LoginOp bytes bytes int bytes int  \<comment> \<open>cid, address, port, version, time-out of the keep-alive\<close>
  | KeepaliveOp bytes int
  | DelConnOp bytes
  | DisconnectOp bytes

definition OP_DEFAULT_TIMEOUT :: int where "OP_DEFAULT_TIMEOUT = 10"

fun getSN :: "sdk_op \<Rightarrow> bytes" where
  "getSN (LoginOp cid ip port ver kp) = bytes_of ''Login''"
| "getSN (KeepaliveOp cid t) = bytes_of ''keepalive''"
| "getSN (DelConnOp cid) = bytes_of ''delconnect''"
| "getSN (DisconnectOp cid) = bytes_of ''disconnect''"

fun getCid :: "sdk_op \<Rightarrow> bytes" where
  "getCid (LoginOp cid ip port ver kp) = cid"
| "getCid (KeepaliveOp cid t) = cid"
| "getCid (DelConnOp cid) = cid"
| "getCid (DisconnectOp cid) = cid"

fun getTimeout :: "sdk_op \<Rightarrow> int" where
  "getTimeout (KeepaliveOp cid t) = t"
| "getTimeout op = OP_DEFAULT_TIMEOUT"

definition STATUS_DO_LOGIN :: int where "STATUS_DO_LOGIN = 1"
definition STATUS_LOGGED_IN :: int where \<comment> \<open>\<^verbatim>\<open>STATUS_LOGIN\<close>\<close> "STATUS_LOGGED_IN = 2"
definition STATUS_LOGIN_FAIL :: int where "STATUS_LOGIN_FAIL = 3"
definition STATUS_DISCONNECT :: int where "STATUS_DISCONNECT = 4"
definition GIM_NETWORK_ERROR :: int where "GIM_NETWORK_ERROR = -9999"
definition GIM_TIMEOUT :: int where "GIM_TIMEOUT = -9992"
definition GIM_EVTYPE_LOGIN_OK :: int where "GIM_EVTYPE_LOGIN_OK = 0"
definition GIM_EVTYPE_LOGIN_FAIL :: int where "GIM_EVTYPE_LOGIN_FAIL = 1"
definition GIM_EVTYPE_LOGOUT :: int where "GIM_EVTYPE_LOGOUT = 2"
definition GIM_EVENT_PUSH :: int where "GIM_EVENT_PUSH = 10000"
definition KEEPALIVE_TIMEOUT :: int where "KEEPALIVE_TIMEOUT = 300"

lemmas sdk_status = STATUS_DO_LOGIN_def STATUS_LOGGED_IN_def STATUS_LOGIN_FAIL_def STATUS_DISCONNECT_def

definition INVALID_FD :: int where "INVALID_FD = -1"

text \<open>The key of a timer: its deadline decides the order, its id is the operation's name.\<close>

type_synonym timer_entry = "timeval \<times> bytes \<times> sdk_op"

record sdk_conn =
  k_fd :: int
  k_buf :: ring
  k_cli_ver :: bytes
  k_keepalive :: int
  k_cid :: bytes
  k_status :: int
  k_code :: int
  k_sessid :: bytes
  k_login_time :: int
  k_active_time :: int
  k_svrlist :: "(bytes \<times> int) list"
  k_timers :: "timer_entry list"

datatype send_result = SendSome nat | SendIntr | SendAgain | SendErr

record sdk_env =
  e_connect :: "nat \<Rightarrow> bytes \<Rightarrow> int \<Rightarrow> int"
  e_send :: "nat \<Rightarrow> send_result list"
  e_login_req :: "login_request \<Rightarrow> bytes"
  e_login_resp :: "bytes \<Rightarrow> login_response option"
  e_push_req :: "bytes \<Rightarrow> push_request option"
  e_push_resp :: "push_response \<Rightarrow> bytes"
  e_json :: "json \<Rightarrow> bytes"
  e_app :: "nat \<Rightarrow> bytes \<Rightarrow> sdk_op list"

text \<open>
  \<open>e_connect\<close> and \<open>e_send\<close> take the number of connects and sends so far, \<open>e_app\<close> the number of messages so far: the
  operations that the application hands over while it handles the next message. \<open>s_wire\<close> has what the
  kernel took of each send.
\<close>

record sdk_world =
  s_conns :: "(bytes, sdk_conn) std_map"
  s_ops :: "sdk_op list"
  s_events :: "bytes list"
  s_wire :: "(int \<times> bytes) list"
  s_connects :: nat
  s_sends :: nat
  s_closed :: "int list"
  s_now :: timeval

subsection \<open>Sending\<close>

text \<open>
  The loop of \<open>tcp_send\<close>. Both \<open>rcvbuf\<close> (here \<open>off\<close>) and \<open>readLen\<close> move on by what was sent, and a send starts at
  \<^verbatim>\<open>rcvbuf + readLen\<close>. \<open>mem\<close> is the message; bytes from behind it are \<open>Fault\<close>. \<open>SendSome n\<close> is a
  send that takes up to \<open>n + 1\<close> bytes.
\<close>

fun tcp_send_loop :: "send_result list \<Rightarrow> bytes \<Rightarrow> nat \<Rightarrow> nat \<Rightarrow> nat \<Rightarrow> bytes \<Rightarrow> (int \<times> bytes) outcome" where
  "tcp_send_loop [] mem off readLen bufsize sent = NoFuel"
| "tcp_send_loop (SendSome n # rs) mem off readLen bufsize sent =
     (let ret = min (Suc n) bufsize; pos = off + readLen
      in if length mem < pos + ret then Fault
         else let sent = sent @ take ret (drop pos mem)
              in if bufsize - ret > 0
                 then tcp_send_loop rs mem (off + ret) (readLen + ret) (bufsize - ret) sent
                 else Done (int (readLen + ret), sent))"
| "tcp_send_loop (SendIntr # rs) mem off readLen bufsize sent = tcp_send_loop rs mem off readLen bufsize sent"
| "tcp_send_loop (SendAgain # rs) mem off readLen bufsize sent = Done (int readLen, sent)"
| "tcp_send_loop (SendErr # rs) mem off readLen bufsize sent = Done (-1, sent)"

definition tcp_send :: "send_result list \<Rightarrow> int \<Rightarrow> bytes \<Rightarrow> (int \<times> bytes) outcome" where
  "tcp_send rs fd mem =
     (if fd = INVALID_FD \<or> mem = [] then Done (-1, []) else tcp_send_loop rs mem 0 0 (length mem) [])"

definition closefd :: "sdk_conn \<Rightarrow> sdk_world \<Rightarrow> sdk_conn \<times> sdk_world" where
  "closefd c w =
     (if k_fd c \<noteq> INVALID_FD then (c\<lparr>k_fd := INVALID_FD\<rparr>, w\<lparr>s_closed := s_closed w @ [k_fd c]\<rparr>) else (c, w))"

definition send_msg :: "sdk_env \<Rightarrow> bytes \<Rightarrow> sdk_conn \<Rightarrow> sdk_world \<Rightarrow> (int \<times> sdk_conn \<times> sdk_world) outcome" where
  \<comment> \<open>\<^verbatim>\<open>send_\<close>\<close>
  "send_msg e m c w =
     (if m = [] \<or> k_fd c = INVALID_FD then Done (-1, c, w)
      else bind_outcome (tcp_send (e_send e (s_sends w)) (k_fd c) m) (\<lambda>(ret, sent).
             let w = w\<lparr>s_sends := s_sends w + 1, s_wire := s_wire w @ [(k_fd c, sent)]\<rparr>
             in if ret \<le> 0 then let (c, w) = closefd c w in Done (-1, c, w) else Done (ret, c, w)))"

definition sdk_constructPacket :: "int \<Rightarrow> bytes \<Rightarrow> bytes" where
  "sdk_constructPacket srvcmd body =
     store_le (htonl MAGIC_NUMBER) @ store_le (htonl (of_nat (sizeof_head + length body))) @
     store_le (htonl (word_of_int srvcmd)) @ body"

definition sendPacket :: "sdk_env \<Rightarrow> int \<Rightarrow> bytes \<Rightarrow> sdk_conn \<Rightarrow> sdk_world \<Rightarrow> (int \<times> sdk_conn \<times> sdk_world) outcome" where
  "sendPacket e cmd body c w = send_msg e (sdk_constructPacket cmd body) c w"

subsection \<open>Status and events\<close>

definition asynAddOp :: "sdk_op \<Rightarrow> sdk_world \<Rightarrow> sdk_world" where
  "asynAddOp op w = w\<lparr>s_ops := s_ops w @ [op]\<rparr>"

text \<open>\<open>publish\<close> calls the application's handler, which may hand over operations at once.\<close>

definition publish :: "sdk_env \<Rightarrow> bytes \<Rightarrow> sdk_world \<Rightarrow> sdk_world" where
  "publish e msg w =
     w\<lparr>s_ops := s_ops w @ e_app e (length (s_events w)) msg, s_events := s_events w @ [msg]\<rparr>"

definition json_of :: "(string \<times> json) list \<Rightarrow> json" where
  \<comment> \<open>\<^verbatim>\<open>jev[key] = value;\<close> one after the other\<close>
  "json_of fs = objectValue (fold (\<lambda>(k, v) m. map_put (bytes_of k) v m) fs [])"

definition status_event :: "sdk_conn \<Rightarrow> json option" where
  "status_event c =
     (if k_status c = STATUS_LOGGED_IN then
        Some (json_of [(''cid'', stringValue (k_cid c)), (''evtype'', intValue GIM_EVTYPE_LOGIN_OK)])
      else if k_status c = STATUS_LOGIN_FAIL then
        Some (json_of [(''cid'', stringValue (k_cid c)), (''evtype'', intValue GIM_EVTYPE_LOGIN_FAIL),
          (''code'', intValue (k_code c))])
      else if k_status c = STATUS_DISCONNECT then
        Some (json_of [(''cid'', stringValue (k_cid c)), (''evtype'', intValue GIM_EVTYPE_LOGOUT),
          (''code'', intValue (k_code c))])
      else None)"

definition setStatus :: "sdk_env \<Rightarrow> int \<Rightarrow> int \<Rightarrow> bool \<Rightarrow> sdk_conn \<Rightarrow> sdk_world \<Rightarrow> sdk_conn \<times> sdk_world" where
  "setStatus e status code notify c w =
     (if status \<noteq> k_status c then
        let c = c\<lparr>k_status := status, k_code := code\<rparr>
        in (c, if notify then (case status_event c of None \<Rightarrow> w | Some jev \<Rightarrow> publish e (e_json e jev) w) else w)
      else (c, w))"

definition OnLoginFail :: "sdk_env \<Rightarrow> int \<Rightarrow> sdk_conn \<Rightarrow> sdk_world \<Rightarrow> sdk_conn \<times> sdk_world" where
  "OnLoginFail e code c w =
     (let (c, w) = closefd c w; (c, w) = setStatus e STATUS_LOGIN_FAIL code True c w
      in (c, asynAddOp (DelConnOp (k_cid c)) w))"

text \<open>\<open>onDisconnect\<close>; the operations' \<open>OnCancel\<close> does nothing.\<close>

definition sdk_onDisconnect :: "sdk_env \<Rightarrow> int \<Rightarrow> sdk_conn \<Rightarrow> sdk_world \<Rightarrow> sdk_conn \<times> sdk_world" where
  "sdk_onDisconnect e code c w =
     (let (c, w) = closefd c w; (c, w) = setStatus e STATUS_DISCONNECT code True c w
      in (c, asynAddOp (DelConnOp (k_cid c)) w))"

subsection \<open>Connecting and logging in\<close>

text \<open>\<open>connectServer\<close>, with the list of servers from its back.\<close>

fun connect_back :: "sdk_env \<Rightarrow> (bytes \<times> int) list \<Rightarrow> int \<Rightarrow> sdk_world \<Rightarrow> (bytes \<times> int) list \<times> int \<times> sdk_world" where
  "connect_back e [] fd w = ([], fd, w)"
| "connect_back e ((ip, port) # svrs) fd w =
     (let fd = e_connect e (s_connects w) ip port; w = w\<lparr>s_connects := s_connects w + 1\<rparr>
      in if fd = INVALID_FD then connect_back e svrs fd w else ((ip, port) # svrs, fd, w))"

definition connectServer :: "sdk_env \<Rightarrow> sdk_conn \<Rightarrow> sdk_world \<Rightarrow> int \<times> sdk_conn \<times> sdk_world" where
  "connectServer e c w =
     (let (svrs, fd, w) = connect_back e (rev (k_svrlist c)) (k_fd c) w;
          c = c\<lparr>k_svrlist := rev svrs, k_fd := fd\<rparr>
      in if k_fd c = INVALID_FD then let (c, w) = OnLoginFail e GIM_NETWORK_ERROR c w in (-1, c, w)
         else (0, c, w))"

definition sdk_login :: "sdk_env \<Rightarrow> sdk_conn \<Rightarrow> sdk_world \<Rightarrow> (int \<times> sdk_conn \<times> sdk_world) outcome" where
  "sdk_login e c w =
     (let (c, w) = setStatus e STATUS_DO_LOGIN 0 False c w;
          c = c\<lparr>k_login_time := gettime_ms (s_now w)\<rparr>;
          lgr = \<lparr>lq_id = k_cid c, lq_type = -1, lq_token = [], lq_version = k_cli_ver c, lq_kvs = []\<rparr>
      in bind_outcome (sendPacket e LOGIN_REQ (e_login_req e lgr) c w) (\<lambda>(ret, c, w).
           Done (if ret \<ge> 0 then 0 else -1, c, w)))"

definition connectAndLogin :: "sdk_env \<Rightarrow> sdk_conn \<Rightarrow> sdk_world \<Rightarrow> (int \<times> sdk_conn \<times> sdk_world) outcome" where
  "connectAndLogin e c w =
     (if k_status c \<noteq> STATUS_DO_LOGIN \<and> k_status c \<noteq> STATUS_LOGGED_IN then
        let (ret, c, w) = connectServer e c w in if ret = 0 then sdk_login e c w else Done (-1, c, w)
      else Done (-1, c, w))"

subsection \<open>Timers\<close>

definition tv_cmp :: "timeval \<Rightarrow> timeval \<Rightarrow> int" where
  "tv_cmp t1 t2 =
     (if tv_sec t1 < tv_sec t2 then -1
      else if tv_sec t1 > tv_sec t2 then 1
      else if tv_usec t1 < tv_usec t2 then -1
      else if tv_usec t1 > tv_usec t2 then 1
      else 0)"

definition timer_before :: "timer_entry \<Rightarrow> timer_entry \<Rightarrow> bool" where
  "timer_before a b \<longleftrightarrow> tv_cmp (fst a) (fst b) < 0"

text \<open>An entry with the same deadline as another is not inserted.\<close>

definition sdk_addTimer :: "bytes \<Rightarrow> sdk_op \<Rightarrow> sdk_conn \<Rightarrow> sdk_world \<Rightarrow> sdk_conn" where
  "sdk_addTimer i op c w =
     (let deadline = (s_now w)\<lparr>tv_sec := tv_sec (s_now w) + getTimeout op\<rparr>
      in c\<lparr>k_timers := set_insert timer_before (deadline, i, op) (k_timers c)\<rparr>)"

text \<open>\<open>popTimer\<close> takes the last entry with the id away.\<close>

fun remove_first :: "('a \<Rightarrow> bool) \<Rightarrow> 'a list \<Rightarrow> 'a list" where
  "remove_first P [] = []"
| "remove_first P (x # xs) = (if P x then xs else x # remove_first P xs)"

definition popTimer :: "bytes \<Rightarrow> sdk_conn \<Rightarrow> sdk_conn" where
  "popTimer i c = c\<lparr>k_timers := rev (remove_first (\<lambda>t. fst (snd t) = i) (rev (k_timers c)))\<rparr>"

definition addKeepaliveTimer :: "sdk_conn \<Rightarrow> sdk_world \<Rightarrow> sdk_conn" where
  "addKeepaliveTimer c w =
     (let op = KeepaliveOp (k_cid c) (k_keepalive c) in sdk_addTimer (getSN op) op c w)"

definition keepalive :: "sdk_env \<Rightarrow> sdk_conn \<Rightarrow> sdk_world \<Rightarrow> (int \<times> sdk_conn \<times> sdk_world) outcome" where
  "keepalive e c w =
     (if gettime_ms (s_now w) - k_active_time c > i32 (k_keepalive c * 2 * 1000) then
        let (c, w) = closefd c w; (c, w) = setStatus e STATUS_DISCONNECT GIM_TIMEOUT True c w
        in Done (0, c, asynAddOp (DelConnOp (k_cid c)) w)
      else sendPacket e KEEPALIVE_REQ [] (addKeepaliveTimer c w) w)"

fun OnTimeout :: "sdk_env \<Rightarrow> sdk_op \<Rightarrow> sdk_conn \<Rightarrow> sdk_world \<Rightarrow> (sdk_conn \<times> sdk_world) outcome" where
  "OnTimeout e (LoginOp cid ip port ver kp) c w = Done (OnLoginFail e GIM_TIMEOUT c w)"
| "OnTimeout e (KeepaliveOp cid t) c w = bind_outcome (keepalive e c w) (\<lambda>(ret, c, w). Done (c, w))"
| "OnTimeout e op c w = Done (c, w)"

fun run_timeouts :: "sdk_env \<Rightarrow> sdk_op list \<Rightarrow> sdk_conn \<Rightarrow> sdk_world \<Rightarrow> (sdk_conn \<times> sdk_world) outcome" where
  "run_timeouts e [] c w = Done (c, w)"
| "run_timeouts e (op # ops) c w = bind_outcome (OnTimeout e op c w) (\<lambda>(c, w). run_timeouts e ops c w)"

text \<open>The timers that are due, those that are not, and the time that is left to the first of them.\<close>

fun take_due :: "timeval \<Rightarrow> timeval \<Rightarrow> timer_entry list \<Rightarrow> sdk_op list \<times> timer_entry list \<times> timeval" where
  "take_due tnow tv [] = ([], [], tv)"
| "take_due tnow tv ((deadline, i, op) # ts) =
     (if tv_cmp deadline tnow > 0 then
        let tvtemp = tv_diff deadline tnow in ([], (deadline, i, op) # ts, if tv_cmp tv tvtemp > 0 then tvtemp else tv)
      else let (ops, ts, tv) = take_due tnow tv ts in (op # ops, ts, tv))"

definition conn_processTimers :: "sdk_env \<Rightarrow> timeval \<Rightarrow> timeval \<Rightarrow> sdk_conn \<Rightarrow> sdk_world \<Rightarrow>
    (timeval \<times> sdk_conn \<times> sdk_world) outcome" where
  "conn_processTimers e tnow tv c w =
     (let (ops, ts, tv) = take_due tnow tv (k_timers c)
      in bind_outcome (run_timeouts e ops (c\<lparr>k_timers := ts\<rparr>) w) (\<lambda>(c, w). Done (tv, c, w)))"


subsection \<open>Packets from the server\<close>

text \<open>
  A refused login takes the server off the list and tries the next; \<^verbatim>\<open>pop_back\<close> of an empty list is
  undefined. A first timer with the operation's name is the one of the attempt.
\<close>

definition handleLoginResponse :: "sdk_env \<Rightarrow> bytes \<Rightarrow> sdk_conn \<Rightarrow> sdk_world \<Rightarrow> (int \<times> sdk_conn \<times> sdk_world) outcome" where
  "handleLoginResponse e resp c w =
     (let c = popTimer (bytes_of ''Login'') c
      in case e_login_resp e resp of
           None \<Rightarrow> Done (-9998, c, w)
         | Some lgresp \<Rightarrow>
             let status = lr_status lgresp
             in if status \<ge> 0 then
                  let c = c\<lparr>k_sessid := lr_sessid lgresp\<rparr>;
                      (c, w) = setStatus e STATUS_LOGGED_IN status True c w
                  in Done (0, addKeepaliveTimer c w, w)
                else if k_svrlist c = [] then Fault
                else
                  let c = c\<lparr>k_svrlist := butlast (k_svrlist c)\<rparr>
                  in if k_svrlist c = [] then let (c, w) = OnLoginFail e status c w in Done (0, c, w)
                     else let (c, w) = setStatus e STATUS_DISCONNECT 0 False c w
                          in bind_outcome (connectAndLogin e c w) (\<lambda>(ret, c, w). Done (0, c, w)))"

definition push_event :: "sdk_conn \<Rightarrow> push_request \<Rightarrow> json" where
  "push_event c svreq = json_of [(''cid'', stringValue (k_cid c)), (''evtype'', intValue GIM_EVENT_PUSH),
     (''sn'', stringValue (pq_sn svreq)), (''payload'', stringValue (pq_payload svreq))]"

definition push_answer :: "push_request \<Rightarrow> push_response" where
  "push_answer svreq = \<lparr>pr_from = pq_to svreq, pr_to = Some (pq_from svreq), pr_sn = pq_sn svreq, pr_status = 0\<rparr>"

definition handleServiceRequest :: "sdk_env \<Rightarrow> bytes \<Rightarrow> sdk_conn \<Rightarrow> sdk_world \<Rightarrow> (int \<times> sdk_conn \<times> sdk_world) outcome" where
  "handleServiceRequest e reqbody c w =
     (case e_push_req e reqbody of
        None \<Rightarrow> Done (-9998, c, w)
      | Some svreq \<Rightarrow>
          let w = publish e (e_json e (push_event c svreq)) w
          in bind_outcome (sendPacket e PUSH_RESP (e_push_resp e (push_answer svreq)) c w) (\<lambda>(ret, c, w). Done (0, c, w)))"

text \<open>The result of other packets is not set by the code; no caller uses it.\<close>

definition sdk_handlePacket :: "sdk_env \<Rightarrow> int \<Rightarrow> bytes \<Rightarrow> sdk_conn \<Rightarrow> sdk_world \<Rightarrow> (sdk_conn \<times> sdk_world) outcome" where
  "sdk_handlePacket e cmd body c w =
     (if cmd = LOGIN_RESP then bind_outcome (handleLoginResponse e body c w) (\<lambda>(ret, c, w). Done (c, w))
      else if cmd = PUSH_REQ then bind_outcome (handleServiceRequest e body c w) (\<lambda>(ret, c, w). Done (c, w))
      else Done (c, w))"

text \<open>
  The receiving part of \<open>handleRead\<close>; each call of \<open>tcp_nb_receive\<close>, which is the servers', has its own script.
\<close>

definition recv_room :: "ring \<Rightarrow> ring" where
  "recv_room b = (if next_part_len b \<le> 0 then snd (rb_resize b (rb_cap b + 16 * 1024)) else b)"

fun recv_rounds :: "recv_result list list \<Rightarrow> ring \<Rightarrow> (int \<times> ring) outcome" where
  "recv_rounds [] b = NoFuel"
| "recv_rounds (rs # rss) b =
     (let b = recv_room b
      in bind_outcome (tcpNbReceive True rs (next_part_len b)) (\<lambda>(ret, got).
           let b = next_part_store b got
           in if ret < 0 then Done (-1, b)
              else if length got = 0 then Done (0, b)
              else recv_rounds rss (snd (rb_write b None (length got)))))"

text \<open>
  The packets in the ring. \<^verbatim>\<open>h.len - sizeof(h)\<close> is unsigned: for a length below the head's, \<open>resize\<close> throws, which
  nothing catches. The fuel is more than the number of packets.
\<close>

fun sdk_packets :: "nat \<Rightarrow> sdk_env \<Rightarrow> sdk_conn \<Rightarrow> sdk_world \<Rightarrow> (sdk_conn \<times> sdk_world) outcome" where
  "sdk_packets 0 e c w = NoFuel"
| "sdk_packets (Suc fuel) e c w =
     (if length (rb_peek (k_buf c) sizeof_head) < sizeof_head then Done (c, w)
      else
        let h = load_head (rb_peek (k_buf c) sizeof_head);
            len = sint (htonl (h_len h));
            cmd = sint (htonl (h_cmd h))
        in if int (rb_size (k_buf c)) < len then Done (c, w)
           else if len < int sizeof_head then Fault
           else
             let b = snd (rb_read (k_buf c) sizeof_head);
                 (body, b) = rb_read b (nat len - sizeof_head)
             in bind_outcome (sdk_handlePacket e cmd body (c\<lparr>k_buf := b\<rparr>) w) (\<lambda>(c, w). sdk_packets fuel e c w))"

definition sdk_handleRead :: "sdk_env \<Rightarrow> recv_result list list \<Rightarrow> sdk_conn \<Rightarrow> sdk_world \<Rightarrow>
    (int \<times> sdk_conn \<times> sdk_world) outcome" where
  "sdk_handleRead e rss c w =
     (if k_fd c = INVALID_FD then Done (-1, c, w)
      else
        let c = c\<lparr>k_active_time := gettime_ms (s_now w)\<rparr>
        in bind_outcome (recv_rounds rss (k_buf c)) (\<lambda>(ret, b).
             let c = c\<lparr>k_buf := b\<rparr>
             in if ret < 0 then Done (-1, c, w)
                else bind_outcome (sdk_packets (Suc (rb_size b)) e c w) (\<lambda>(c, w). Done (0, c, w))))"


subsection \<open>Lemmas\<close>

lemma sdk_packet_eq:
  "sdk_constructPacket cmd body = constructPacket \<lparr>h_magic = htonl MAGIC_NUMBER, h_len = 0, h_cmd = word_of_int cmd\<rparr> body"
  by (simp add: sdk_constructPacket_def constructPacket_def Let_def)

lemma length_sdk_packet [simp]: "length (sdk_constructPacket cmd body) = sizeof_head + length body"
  by (simp add: sdk_packet_eq)

lemma sdk_packet_not_Nil [simp]: "sdk_constructPacket cmd body \<noteq> []"
  by (rule length_greater_0_conv [THEN iffD1]) (simp only: length_sdk_packet sizeof_head_def)

text \<open>A send of everything at once.\<close>

lemma tcp_send_whole:
  "length m \<le> Suc n \<Longrightarrow> m \<noteq> [] \<Longrightarrow> fd \<noteq> INVALID_FD \<Longrightarrow> tcp_send (SendSome n # rs) fd m = Done (int (length m), m)"
  by (simp add: tcp_send_def Let_def min_absorb2)

lemma send_msg_whole:
  assumes "m \<noteq> []" "k_fd c \<noteq> INVALID_FD" "e_send e (s_sends w) = SendSome n # rs" "length m \<le> Suc n"
  shows "send_msg e m c w = Done (int (length m), c, w\<lparr>s_sends := s_sends w + 1, s_wire := s_wire w @ [(k_fd c, m)]\<rparr>)"
  using assms by (simp add: send_msg_def tcp_send_whole)

subsubsection \<open>The ring of a connection belongs to reading alone\<close>

lemma closefd_buf [simp]: "k_buf (fst (closefd c w)) = k_buf c"
  by (simp add: closefd_def)

lemma setStatus_buf [simp]: "k_buf (fst (setStatus e st code n c w)) = k_buf c"
  by (simp add: setStatus_def Let_def)

lemma OnLoginFail_buf [simp]: "k_buf (fst (OnLoginFail e code c w)) = k_buf c"
  by (simp add: OnLoginFail_def split_beta Let_def)

lemma connectServer_buf [simp]: "k_buf (fst (snd (connectServer e c w))) = k_buf c"
  by (simp add: connectServer_def split_beta Let_def)

lemma timer_buf [simp]:
  "k_buf (sdk_addTimer i op c w) = k_buf c" "k_buf (popTimer i c) = k_buf c" "k_buf (addKeepaliveTimer c w) = k_buf c"
  by (simp_all add: sdk_addTimer_def popTimer_def addKeepaliveTimer_def Let_def)

lemma closefd_bufD: "closefd c w = (c', w') \<Longrightarrow> k_buf c' = k_buf c"
  using closefd_buf [of c w] by simp

lemma OnLoginFail_bufD: "OnLoginFail e code c w = (c', w') \<Longrightarrow> k_buf c' = k_buf c"
  using OnLoginFail_buf [of e code c w] by simp

lemma send_msg_buf: "send_msg e m c w = Done (ret, c', w') \<Longrightarrow> k_buf c' = k_buf c"
  by (auto simp: send_msg_def bind_outcome_Done_iff split_beta Let_def split: if_splits dest!: closefd_bufD)

lemma sdk_login_buf: "sdk_login e c w = Done (ret, c', w') \<Longrightarrow> k_buf c' = k_buf c"
  by (auto simp: sdk_login_def bind_outcome_Done_iff sendPacket_def split_beta Let_def dest!: send_msg_buf)

lemma connectAndLogin_buf: "connectAndLogin e c w = Done (ret, c', w') \<Longrightarrow> k_buf c' = k_buf c"
  by (auto simp: connectAndLogin_def split_beta Let_def split: if_splits dest!: sdk_login_buf)
    (metis connectServer_buf fst_conv snd_conv)+

lemma handlePacket_buf:
  assumes "sdk_handlePacket e cmd body c w = Done (c', w')"
  shows "k_buf c' = k_buf c"
proof -
  have login: "k_buf c' = k_buf c" if "handleLoginResponse e body c w = Done (ret, c', w')" for ret
    using that
    by (auto simp: handleLoginResponse_def bind_outcome_Done_iff split_beta Let_def split: option.splits if_splits
        dest!: connectAndLogin_buf OnLoginFail_bufD)
  have push: "k_buf c' = k_buf c" if "handleServiceRequest e body c w = Done (ret, c', w')" for ret
    using that
    by (auto simp: handleServiceRequest_def sendPacket_def bind_outcome_Done_iff split_beta Let_def split: option.splits
        dest!: send_msg_buf)
  show ?thesis using assms login push
    by (auto simp: sdk_handlePacket_def bind_outcome_Done_iff split_beta split: if_splits)
qed

subsubsection \<open>Reading packets\<close>

text \<open>The specification: the handlers run on the packets one after the other, each taken off the ring first.\<close>

definition skip_packet :: "bytes \<Rightarrow> sdk_conn \<Rightarrow> sdk_conn" where
  "skip_packet body c = c\<lparr>k_buf := snd (rb_read (snd (rb_read (k_buf c) sizeof_head)) (length body))\<rparr>"

fun deliver :: "sdk_env \<Rightarrow> (int \<times> bytes) list \<Rightarrow> sdk_conn \<Rightarrow> sdk_world \<Rightarrow> (sdk_conn \<times> sdk_world) outcome" where
  "deliver e [] c w = Done (c, w)"
| "deliver e ((cmd, body) # ps) c w =
     bind_outcome (sdk_handlePacket e cmd body (skip_packet body c) w) (\<lambda>(c, w). deliver e ps c w)"

definition packets_bytes :: "(int \<times> bytes) list \<Rightarrow> bytes" where
  "packets_bytes ps = concat (map (\<lambda>(cmd, body). sdk_constructPacket cmd body) ps)"

definition sendable :: "int \<times> bytes \<Rightarrow> bool" where
  "sendable p \<longleftrightarrow> - (2 ^ 31) \<le> fst p \<and> fst p < 2 ^ 31 \<and> sizeof_head + length (snd p) < 2 ^ 31"

text \<open>What is left waits: it is not a head, or announces more than there is.\<close>

definition incomplete :: "bytes \<Rightarrow> bool" where
  "incomplete d \<longleftrightarrow> length d < sizeof_head \<or> int (length d) < sint (htonl (load_le (drop 4 d)))"

lemma load_packet:
  "load_le (drop 4 (sdk_constructPacket cmd body @ rest)) = htonl (of_nat (sizeof_head + length body))"
  "load_le (drop 8 (sdk_constructPacket cmd body @ rest)) = htonl (word_of_int cmd)"
proof -
  have "drop 4 (sdk_constructPacket cmd body @ rest) =
      store_le (htonl (of_nat (sizeof_head + length body))) @ store_le (htonl (word_of_int cmd)) @ body @ rest"
    "drop 8 (sdk_constructPacket cmd body @ rest) = store_le (htonl (word_of_int cmd)) @ body @ rest"
    by (simp_all add: sdk_constructPacket_def)
  then show "load_le (drop 4 (sdk_constructPacket cmd body @ rest)) = htonl (of_nat (sizeof_head + length body))"
    "load_le (drop 8 (sdk_constructPacket cmd body @ rest)) = htonl (word_of_int cmd)"
    by (simp_all only: load_store_le)
qed

lemma load_head_take: "load_head (take sizeof_head d) = load_head d"
  by (simp add: load_head_def sizeof_head_def drop_take load_le_take)

lemma front_packet:
  assumes "sendable (cmd, body)"
  shows "sint (htonl (h_len (load_head (sdk_constructPacket cmd body @ rest)))) = int (sizeof_head + length body)"
    "sint (htonl (h_cmd (load_head (sdk_constructPacket cmd body @ rest)))) = cmd"
proof -
  have "h_len (load_head (sdk_constructPacket cmd body @ rest)) = htonl (of_nat (sizeof_head + length body))"
    "h_cmd (load_head (sdk_constructPacket cmd body @ rest)) = htonl (word_of_int cmd)"
    unfolding load_head_def by (simp_all only: head.select_convs load_packet)
  then show "sint (htonl (h_len (load_head (sdk_constructPacket cmd body @ rest)))) = int (sizeof_head + length body)"
    "sint (htonl (h_cmd (load_head (sdk_constructPacket cmd body @ rest)))) = cmd"
    using assms sint_of_nat_u32 [of "sizeof_head + length body"]
    by (simp_all add: sendable_def signed_of_int signed_take_bit_int_eq_self del: of_nat_add)
qed

lemma skip_packet_data:
  assumes "rb_inv (k_buf c)" "rb_data (k_buf c) = sdk_constructPacket cmd body @ rest"
  shows "rb_inv (k_buf (skip_packet body c))" "rb_data (k_buf (skip_packet body c)) = rest"
    "fst (rb_read (snd (rb_read (k_buf c) sizeof_head)) (length body)) = body"
proof -
  have "drop sizeof_head (sdk_constructPacket cmd body) = body"
    by (simp add: sdk_constructPacket_def sizeof_head_def)
  then have "drop sizeof_head (rb_data (k_buf c)) = body @ rest" using assms(2) by simp
  then show "rb_inv (k_buf (skip_packet body c))" "rb_data (k_buf (skip_packet body c)) = rest"
    "fst (rb_read (snd (rb_read (k_buf c) sizeof_head)) (length body)) = body"
    using rb_read_data [OF assms(1), of sizeof_head]
      rb_read_data [OF rb_read_data(2) [OF assms(1), of sizeof_head], of "length body"]
    by (simp_all add: skip_packet_def)
qed

lemma rb_head: "rb_inv b \<Longrightarrow> load_head (rb_peek b sizeof_head) = load_head (rb_data b)"
  by (simp add: rb_peek_data load_head_take)

lemma sdk_packets_stop:
  assumes "rb_inv (k_buf c)" "incomplete (rb_data (k_buf c))"
  shows "sdk_packets (Suc n) e c w = Done (c, w)"
proof (cases "rb_size (k_buf c) < sizeof_head")
  case True
  then show ?thesis using assms(1) by (simp add: rb_peek_data)
next
  case False
  then have "int (rb_size (k_buf c)) < sint (htonl (h_len (load_head (rb_data (k_buf c)))))"
    using assms(2) by (simp add: incomplete_def load_head_def)
  then show ?thesis by (simp add: rb_head [OF assms(1)] Let_def)
qed

lemma sdk_packets_step:
  assumes "rb_inv (k_buf c)" "rb_data (k_buf c) = sdk_constructPacket cmd body @ rest" "sendable (cmd, body)"
  shows "sdk_packets (Suc n) e c w =
    bind_outcome (sdk_handlePacket e cmd body (skip_packet body c) w) (\<lambda>(c, w). sdk_packets n e c w)"
proof -
  have size: "rb_size (k_buf c) = sizeof_head + length body + length rest"
    using assms(2) by (metis length_append length_rb_data length_sdk_packet)
  have head: "load_head (rb_peek (k_buf c) sizeof_head) = load_head (sdk_constructPacket cmd body @ rest)"
    using rb_head [OF assms(1)] assms(2) by simp
  have "rb_read (snd (rb_read (k_buf c) sizeof_head)) (length body) = (body, k_buf (skip_packet body c))"
    using skip_packet_data(3) [OF assms(1,2)] by (simp add: skip_packet_def prod_eq_iff)
  moreover have "c\<lparr>k_buf := k_buf (skip_packet body c)\<rparr> = skip_packet body c" by (simp add: skip_packet_def)
  moreover have "length (rb_peek (k_buf c) sizeof_head) = sizeof_head" using size by (simp add: rb_peek_data [OF assms(1)])
  moreover have "nat (int sizeof_head + int (length body)) - sizeof_head = length body" by (simp add: nat_int_add)
  ultimately show ?thesis by (simp add: head front_packet [OF assms(3)] size Let_def)
qed

text \<open>Fuel beyond the number of packets is not used.\<close>

lemma sdk_packets_deliver:
  assumes "rb_inv (k_buf c)" "rb_data (k_buf c) = packets_bytes ps @ rest" "list_all sendable ps" "incomplete rest"
    "length ps < n"
  shows "sdk_packets n e c w = deliver e ps c w \<and>
    (\<forall>c' w'. deliver e ps c w = Done (c', w') \<longrightarrow> rb_inv (k_buf c') \<and> rb_data (k_buf c') = rest)"
  using assms
proof (induction ps arbitrary: c w n)
  case Nil
  then show ?case by (cases n) (simp_all add: packets_bytes_def sdk_packets_stop del: sdk_packets.simps)
next
  case (Cons p ps)
  obtain cmd body where p: "p = (cmd, body)" by fastforce
  obtain m where n: "n = Suc m" using Cons.prems(5) by (cases n) auto
  have data: "rb_data (k_buf c) = sdk_constructPacket cmd body @ packets_bytes ps @ rest"
    using Cons.prems(2) by (simp add: p packets_bytes_def)
  have send: "sendable (cmd, body)" using Cons.prems(3) by (simp add: p)
  note skip = skip_packet_data [OF Cons.prems(1) data]
  show ?case
  proof (cases "sdk_handlePacket e cmd body (skip_packet body c) w")
    case (Done x)
    obtain c1 w1 where x: "x = (c1, w1)" by fastforce
    have "k_buf c1 = k_buf (skip_packet body c)" using handlePacket_buf Done x by blast
    then have "sdk_packets m e c1 w1 = deliver e ps c1 w1 \<and>
      (\<forall>c' w'. deliver e ps c1 w1 = Done (c', w') \<longrightarrow> rb_inv (k_buf c') \<and> rb_data (k_buf c') = rest)"
      using Cons.IH [of c1 m w1] skip(1,2) Cons.prems(3-5) n by simp
    then show ?thesis
      using sdk_packets_step [OF Cons.prems(1) data send] by (simp add: p n Done x del: sdk_packets.simps)
  qed (use sdk_packets_step [OF Cons.prems(1) data send] in \<open>simp_all add: p n del: sdk_packets.simps\<close>)
qed


subsubsection \<open>Receiving\<close>

lemma recv_room_data:
  assumes "rb_inv b"
  shows "rb_inv (recv_room b)" "rb_data (recv_room b) = rb_data b"
proof -
  have "length (rb_data b) \<le> rb_cap b" using assms by (simp add: rb_inv_def)
  then show "rb_inv (recv_room b)" "rb_data (recv_room b) = rb_data b"
    using assms rb_resize_data [OF assms, of "rb_cap b + 16 * 1024"] by (auto simp: recv_room_def)
qed

lemma recv_rounds_data:
  "recv_rounds rss b = Done (0, b') \<Longrightarrow> rb_inv b \<Longrightarrow> rb_inv b' \<and> (\<exists>got. rb_data b' = rb_data b @ got)"
proof (induction rss arbitrary: b)
  case (Cons rs rss)
  note room = recv_room_data [OF Cons.prems(2)]
  obtain ret got where r: "tcpNbReceive True rs (next_part_len (recv_room b)) = Done (ret, got)"
    using Cons.prems(1) by (auto simp: Let_def bind_outcome_Done_iff)
  have fits: "length got \<le> next_part_len (recv_room b)" using tcpNbReceive_fits [OF r] by simp
  show ?case
  proof (cases "got = []")
    case True
    then have "b' = recv_room b"
      using Cons.prems(1) r by (auto simp: Let_def next_part_store_def store_at_def split: if_splits)
    with room show ?thesis by simp
  next
    case False
    then have "recv_rounds rss (snd (rb_write (next_part_store (recv_room b) got) None (length got))) = Done (0, b')"
      using Cons.prems(1) r by (auto simp: Let_def split: if_splits)
    from Cons.IH [OF this] next_part_data [OF room(1) fits] room(2) show ?thesis by auto
  qed
qed simp

text \<open>What has come in one piece that fits is received.\<close>

lemma recv_once:
  assumes "rb_inv b" "d \<noteq> []" "length d < next_part_len b"
  shows "\<exists>b'. recv_rounds [[RecvData d, RecvAgain], [RecvAgain]] b = Done (0, b') \<and> rb_data b' = rb_data b @ d \<and> rb_inv b'"
proof -
  let ?b = "snd (rb_write (next_part_store b d) None (length d))"
  have room: "recv_room b = b" using assms(3) by (simp add: recv_room_def)
  have data: "rb_data ?b = rb_data b @ d" "rb_inv ?b" using next_part_data [OF assms(1), of d] assms(3) by simp_all
  have grown: "0 < next_part_len (recv_room ?b)"
  proof (cases "next_part_len ?b \<le> 0")
    case True
    have "rb_size ?b \<le> rb_cap ?b" using data(2) by (simp add: rb_inv_def)
    then have "rb_cap (recv_room ?b) = rb_cap ?b + 16 * 1024" "rb_size (recv_room ?b) = rb_size ?b" "rb_start (recv_room ?b) = 0"
      using True rb_peek_data [OF data(2), of "rb_cap ?b + 16 * 1024"]
      by (simp_all add: recv_room_def rb_resize_def rb_read_def rb_cap_def Let_def split_beta del: rb_write_def)
    with \<open>rb_size ?b \<le> rb_cap ?b\<close> show ?thesis by (simp add: next_part_len_def rb_stop_def Let_def)
  qed (simp add: recv_room_def)
  have "recv_rounds [[RecvData d, RecvAgain], [RecvAgain]] b = Done (0, recv_room ?b)"
    using assms(2,3) room grown
    by (simp add: tcpNbReceive_def Let_def next_part_store_def store_at_def)
  then show ?thesis using recv_room_data [OF data(2)] data(1) by auto
qed

text \<open>A read hands the packets in the ring over, whatever the handlers then do.\<close>

lemma handleRead_packets:
  fixes e :: sdk_env and w :: sdk_world
  assumes "rb_inv (k_buf c)" "k_fd c \<noteq> INVALID_FD" "recv_rounds rss (k_buf c) = Done (0, b)"
    "rb_data b = packets_bytes ps @ rest" "list_all sendable ps" "incomplete rest"
  defines "d \<equiv> deliver e ps (c\<lparr>k_active_time := gettime_ms (s_now w), k_buf := b\<rparr>) w"
  shows "sdk_handleRead e rss c w = bind_outcome d (\<lambda>(c, w). Done (0, c, w))"
    "d = Done (c', w') \<Longrightarrow> rb_inv (k_buf c') \<and> rb_data (k_buf c') = rest"
proof -
  let ?c = "c\<lparr>k_active_time := gettime_ms (s_now w), k_buf := b\<rparr>"
  have inv: "rb_inv b" using recv_rounds_data [OF assms(3,1)] by simp
  have "length ps \<le> length (packets_bytes ps)"
    by (induction ps) (auto simp: packets_bytes_def sizeof_head_def)
  also have "\<dots> \<le> rb_size b" using assms(4) length_rb_data [of b] by simp
  finally have "length ps < Suc (rb_size b)" by simp
  then have run: "sdk_packets (Suc (rb_size b)) e ?c w = d"
    and rest: "d = Done (c', w') \<Longrightarrow> rb_inv (k_buf c') \<and> rb_data (k_buf c') = rest" for c' w'
    using sdk_packets_deliver [of ?c ps rest "Suc (rb_size b)" e w] inv assms(4-6)
    by (simp_all add: d_def del: sdk_packets.simps)
  show "sdk_handleRead e rss c w = bind_outcome d (\<lambda>(c, w). Done (0, c, w))"
    using assms(2,3) run by (simp add: sdk_handleRead_def Let_def del: sdk_packets.simps)
  show "d = Done (c', w') \<Longrightarrow> rb_inv (k_buf c') \<and> rb_data (k_buf c') = rest" by (rule rest)
qed

text \<open>
  Surroundings for examples: connects give socket 7, a login response is accepted unless it is empty, a push request's
  payload is its bytes.
\<close>

definition sample_env :: "(nat \<Rightarrow> send_result list) \<Rightarrow> (nat \<Rightarrow> bytes \<Rightarrow> sdk_op list) \<Rightarrow> sdk_env" where
  "sample_env send app =
     \<lparr>e_connect = \<lambda>n ip port. 7, e_send = send, e_login_req = lq_id,
      e_login_resp = \<lambda>b. Some \<lparr>lr_status = (if b = [] then -1 else 0), lr_sessid = b\<rparr>,
      e_push_req = \<lambda>b. Some \<lparr>pq_from = [], pq_to = [], pq_sn = [], pq_type = 0, pq_payload = b\<rparr>,
      e_push_resp = \<lambda>p. [], e_json = \<lambda>j. [], e_app = app\<rparr>"

definition sample_world :: "(bytes, sdk_conn) std_map \<Rightarrow> sdk_op list \<Rightarrow> sdk_world" where
  "sample_world cs ops =
     \<lparr>s_conns = cs, s_ops = ops, s_events = [], s_wire = [], s_connects = 0, s_sends = 0, s_closed = [],
      s_now = \<lparr>tv_sec = 5, tv_usec = 0\<rparr>\<rparr>"

definition sample_conn :: sdk_conn where
  "sample_conn =
     \<lparr>k_fd = 7, k_buf = ring_new 64, k_cli_ver = [], k_keepalive = 60, k_cid = [1], k_status = STATUS_LOGGED_IN, k_code = 0,
      k_sessid = [], k_login_time = 0, k_active_time = 0, k_svrlist = [([], 80)], k_timers = []\<rparr>"

lemma new_ring_room [simp]: "next_part_len (ring_new n) = n"
  by (simp add: next_part_len_def rb_stop_def rb_cap_def ring_new_def)

subsection \<open>Properties\<close>

text \<open>
  C36: A connection of the SDK hands over exactly the packets it has received. Whatever the sizes of the
  receives, if the bytes received make up packets and a rest that is not one yet, the handlers run on these packets
  one after the other and the rest stays for the next read.
\<close>

theorem sdk_reads_packets:
  assumes "rb_inv (k_buf c)" "k_fd c \<noteq> INVALID_FD" "recv_rounds rss (k_buf c) = Done (0, b)"
    "rb_data b = packets_bytes ps @ rest" "list_all sendable ps" "incomplete rest"
    "deliver e ps (c\<lparr>k_active_time := gettime_ms (s_now w), k_buf := b\<rparr>) w = Done (c', w')"
  shows "sdk_handleRead e rss c w = Done (0, c', w') \<and> rb_inv (k_buf c') \<and> rb_data (k_buf c') = rest"
  using handleRead_packets [OF assms(1-6), of e w] assms(7) by simp

theorem sdk_reads_packets_witness:
  "\<exists>c' w'. sdk_handleRead (sample_env (\<lambda>n. []) (\<lambda>n m. [])) [[RecvData (sdk_constructPacket 9 [1] @ [0]), RecvAgain], [RecvAgain]]
     sample_conn (sample_world [] []) = Done (0, c', w') \<and> rb_data (k_buf c') = [0]"
proof -
  let ?d = "sdk_constructPacket 9 [1] @ [0]"
  have c: "rb_inv (k_buf sample_conn)" "k_fd sample_conn \<noteq> INVALID_FD" by (simp_all add: sample_conn_def rb_inv_new INVALID_FD_def)
  obtain b where r: "recv_rounds [[RecvData ?d, RecvAgain], [RecvAgain]] (k_buf sample_conn) = Done (0, b)" "rb_data b = ?d"
    using recv_once [OF c(1), of ?d] by (auto simp: sample_conn_def rb_inv_new(2) sizeof_head_def)
  have ps: "rb_data b = packets_bytes [(9, [1])] @ [0]" "list_all sendable [(9, [1])]" "incomplete [0]"
    using r(2) by (simp_all add: packets_bytes_def sendable_def incomplete_def sizeof_head_def)
  obtain c' w' where "deliver (sample_env (\<lambda>n. []) (\<lambda>n m. [])) [(9, [1])]
      (sample_conn\<lparr>k_active_time := gettime_ms (s_now (sample_world [] [])), k_buf := b\<rparr>) (sample_world [] []) = Done (c', w')"
    by (simp add: sdk_handlePacket_def LOGIN_RESP_def LOGIN_REQ_def PUSH_REQ_def)
  from sdk_reads_packets [OF c r(1) ps this] show ?thesis by auto
qed

text \<open>
  C37: A send in two pieces corrupts the stream. If the kernel first takes \<open>k\<close> bytes of a message, the next send starts
  \<open>2 k\<close> bytes into it, so that \<open>k\<close> bytes are left out, or reads behind the message if it asks for more
  than is left; and if the kernel takes no more for now, the rest of the message is forgotten and the
  send counts as a success.
\<close>

theorem partial_send_corrupts:
  assumes "fd \<noteq> INVALID_FD" "Suc n < length m" "length m \<le> Suc n + Suc j"
  shows "tcp_send [SendSome n, SendSome j] fd m = Fault \<and>
    tcp_send [SendSome n, SendAgain] fd m = Done (int (Suc n), take (Suc n) m)"
  using assms by (auto simp: tcp_send_def Let_def min_def)


theorem partial_send_corrupts_witness:
  "tcp_send [SendSome 3, SendSome 9] 7 [1, 2, 3, 4, 5, 6] = Fault \<and> tcp_send [SendSome 3, SendAgain] 7 [1, 2, 3, 4, 5, 6] = Done (4, [1, 2, 3, 4])"
  using partial_send_corrupts [of 7 3 "[1, 2, 3, 4, 5, 6]" 9] by (simp add: INVALID_FD_def eval_nat_numeral)

end
