(* ===== verification/SdkLoop.thy ===== *)
theory SdkLoop
  imports SdkConn
begin

text \<open>
  The event loop of the client SDK (\<^verbatim>\<open>clientsdk/client/eventloop.cpp\<close>), the operations it processes
  (\<^verbatim>\<open>clientsdk/client/ops.cpp\<close>) and the interface for applications (\<^verbatim>\<open>clientsdk/client/client.cpp\<close>). One round of the
  loop is a definition: the timers, \<^verbatim>\<open>select\<close> with what it gives, the operations, the connections
  that can be read.
\<close>

subsection \<open>Connections and operations\<close>

definition findConn :: "bytes \<Rightarrow> sdk_world \<Rightarrow> sdk_conn option" where
  "findConn cid w = map_of (s_conns w) cid"

definition put_conn :: "bytes \<Rightarrow> sdk_conn \<Rightarrow> sdk_world \<Rightarrow> sdk_world" where
  "put_conn cid c w = w\<lparr>s_conns := map_put cid c (s_conns w)\<rparr>"

definition delConn :: "bytes \<Rightarrow> sdk_world \<Rightarrow> int \<times> sdk_world" where
  "delConn cid w =
     (if findConn cid w \<noteq> None then (0, w\<lparr>s_conns := map_erase cid (s_conns w)\<rparr>) else (-1, w))"

text \<open>The constructor; fields it leaves unset are 0 here.\<close>

definition CliConn_new :: "sdk_world \<Rightarrow> sdk_conn" where
  "CliConn_new w =
     \<lparr>k_fd = INVALID_FD, k_buf = ring_new 1024, k_cli_ver = [], k_keepalive = KEEPALIVE_TIMEOUT, k_cid = [],
      k_status = STATUS_DISCONNECT, k_code = 0, k_sessid = [], k_login_time = 0,
      k_active_time = gettime_ms (s_now w), k_svrlist = [], k_timers = []\<rparr>"

text \<open>Processing an operation; the flag says that it has taken a reference to itself.\<close>

fun process_op :: "sdk_env \<Rightarrow> sdk_op \<Rightarrow> sdk_world \<Rightarrow> (int \<times> bool \<times> sdk_world) outcome" where
  "process_op e (LoginOp cid ip port ver kp) w =
     (case findConn cid w of
        Some c \<Rightarrow> Done (-1, False, w)
      | None \<Rightarrow>
          let c = (CliConn_new w)\<lparr>k_cid := cid, k_cli_ver := ver, k_svrlist := [(ip, port)], k_keepalive := kp\<rparr>
          in bind_outcome (connectAndLogin e c w) (\<lambda>(ret, c, w). Done (ret, ret = 0, put_conn cid c w)))"
| "process_op e (KeepaliveOp cid t) w =
     (case findConn cid w of Some c \<Rightarrow> Done (0, True, w) | None \<Rightarrow> Done (-1, False, w))"
| "process_op e (DelConnOp cid) w = (let (ret, w) = delConn cid w in Done (ret, False, w))"
| "process_op e (DisconnectOp cid) w =
     (case findConn cid w of
        Some c \<Rightarrow> let (c, w) = sdk_onDisconnect e 0 c w in Done (0, False, put_conn cid c w)
      | None \<Rightarrow> Done (-1, False, w))"

text \<open>An operation that holds a reference waits in the timers of its connection.\<close>

definition keep_op :: "sdk_op \<Rightarrow> sdk_world \<Rightarrow> sdk_world" where
  "keep_op op w =
     (case findConn (getCid op) w of
        None \<Rightarrow> w
      | Some c \<Rightarrow> put_conn (getCid op) (sdk_addTimer (getSN op) op c w) w)"

fun processOps :: "nat \<Rightarrow> sdk_env \<Rightarrow> sdk_world \<Rightarrow> sdk_world outcome" where
  "processOps fuel e w =
     (case s_ops w of
        [] \<Rightarrow> Done w
      | op # ops \<Rightarrow>
          (case fuel of
             0 \<Rightarrow> NoFuel
           | Suc fuel \<Rightarrow>
               bind_outcome (process_op e op (w\<lparr>s_ops := ops\<rparr>)) (\<lambda>(ret, kept, w).
                 processOps fuel e (if kept then keep_op op w else w))))"

declare processOps.simps [simp del]

lemma processOps_Nil [simp]: "s_ops w = [] \<Longrightarrow> processOps n e w = Done w"
  by (subst processOps.simps) simp

lemma processOps_0: "s_ops w = op # ops \<Longrightarrow> processOps 0 e w = NoFuel"
  by (subst processOps.simps) simp

lemma processOps_Cons: "s_ops w = op # ops \<Longrightarrow> processOps (Suc n) e w =
    bind_outcome (process_op e op (w\<lparr>s_ops := ops\<rparr>)) (\<lambda>(ret, kept, w).
      processOps n e (if kept then keep_op op w else w))"
  by (subst processOps.simps) simp

subsection \<open>One round of the loop\<close>

text \<open>
  \<open>c_tvmax\<close> is set to \<^verbatim>\<open>~0UL\<close> in both fields, which are signed: it is -1 there. The timers' pass drops
  connections without a socket.
\<close>

definition c_tvmax :: timeval where
  "c_tvmax = \<lparr>tv_sec = -1, tv_usec = -1\<rparr>"

fun loop_timers :: "sdk_env \<Rightarrow> timeval \<Rightarrow> bytes list \<Rightarrow> timeval \<Rightarrow> sdk_world \<Rightarrow> (timeval \<times> sdk_world) outcome" where
  "loop_timers e tnow [] tv w = Done (tv, w)"
| "loop_timers e tnow (cid # cids) tv w =
     (case findConn cid w of
        None \<Rightarrow> loop_timers e tnow cids tv w
      | Some c \<Rightarrow>
          if k_fd c = INVALID_FD then loop_timers e tnow cids tv (w\<lparr>s_conns := map_erase cid (s_conns w)\<rparr>)
          else bind_outcome (conn_processTimers e tnow tv c w) (\<lambda>(tv, c, w).
                 loop_timers e tnow cids tv (put_conn cid c w)))"

definition loop_processTimers :: "sdk_env \<Rightarrow> timeval \<Rightarrow> sdk_world \<Rightarrow> (timeval \<times> sdk_world) outcome" where
  "loop_processTimers e tv w = loop_timers e (s_now w) (map fst (s_conns w)) tv w"

text \<open>The time-out for \<^verbatim>\<open>select\<close>: \<open>None\<close> is NULL, wait without one.\<close>

definition select_timeout :: "timeval \<Rightarrow> timeval option" where
  "select_timeout tv = (if tv_cmp c_tvmax tv = 0 then None else Some tv)"

text \<open>What \<^verbatim>\<open>select\<close> gives: an error, a time-out, or the control socket and sockets that are ready.\<close>

datatype selected = SelError | SelTimeout | SelReady bool "int list"

text \<open>
  The connections that can be read. \<^verbatim>\<open>FD_ISSET\<close> is undefined for the number -1 of a connection without a socket.
  \<open>scr\<close> has the scripts of the receives of each socket.
\<close>

fun read_conns :: "sdk_env \<Rightarrow> int list \<Rightarrow> (int \<Rightarrow> recv_result list list) \<Rightarrow> bytes list \<Rightarrow> bytes list \<Rightarrow> sdk_world \<Rightarrow>
    (bytes list \<times> sdk_world) outcome" where
  "read_conns e fds scr [] errconns w = Done (errconns, w)"
| "read_conns e fds scr (cid # cids) errconns w =
     (case findConn cid w of
        None \<Rightarrow> read_conns e fds scr cids errconns w
      | Some c \<Rightarrow>
          if k_fd c < 0 then Fault
          else if k_fd c \<in> set fds then
            bind_outcome (sdk_handleRead e (scr (k_fd c)) c w) (\<lambda>(ret, c, w).
              if ret < 0 then
                let (c, w) = sdk_onDisconnect e GIM_NETWORK_ERROR c w
                in read_conns e fds scr cids (errconns @ [k_cid c]) (put_conn cid c w)
              else read_conns e fds scr cids errconns (put_conn cid c w))
          else read_conns e fds scr cids errconns w)"

fun del_conns :: "bytes list \<Rightarrow> sdk_world \<Rightarrow> sdk_world" where
  "del_conns [] w = w"
| "del_conns (cid # cids) w = del_conns cids (snd (delConn cid w))"

text \<open>
  A round from the call of \<^verbatim>\<open>select\<close> on. An error, an interruption by a signal too, ends the loop: its test
  compares the result of \<^verbatim>\<open>select\<close>, which is -1, with the number of \<^verbatim>\<open>EINTR\<close>. The flag says that
  the loop goes on.
\<close>

definition after_select :: "nat \<Rightarrow> sdk_env \<Rightarrow> (int \<Rightarrow> recv_result list list) \<Rightarrow> selected \<Rightarrow> sdk_world \<Rightarrow>
    (bool \<times> sdk_world) outcome" where
  "after_select fuel e scr sel w =
     (case sel of
        SelError \<Rightarrow> Done (False, w)
      | SelTimeout \<Rightarrow> Done (True, w)
      | SelReady ctl fds \<Rightarrow>
          bind_outcome (if ctl then processOps fuel e w else Done w) (\<lambda>w.
          bind_outcome (read_conns e fds scr (map fst (s_conns w)) [] w) (\<lambda>(errconns, w).
            Done (True, del_conns errconns w))))"

definition loop_round :: "nat \<Rightarrow> sdk_env \<Rightarrow> (int \<Rightarrow> recv_result list list) \<Rightarrow> (timeval option \<Rightarrow> selected) \<Rightarrow> sdk_world \<Rightarrow>
    (bool \<times> sdk_world) outcome" where
  "loop_round fuel e scr sel w =
     bind_outcome (loop_processTimers e c_tvmax w) (\<lambda>(tv, w).
       after_select fuel e scr (sel (select_timeout tv)) w)"

subsection \<open>The application's interface\<close>

definition Client_login :: "int \<Rightarrow> bytes \<Rightarrow> int \<Rightarrow> bytes \<Rightarrow> bytes \<Rightarrow> sdk_world \<Rightarrow> sdk_world" where
  "Client_login keepalive_timeout srvip srvport cid ver w =
     asynAddOp (LoginOp cid srvip srvport ver keepalive_timeout) w"

definition Client_disconnect :: "bytes \<Rightarrow> sdk_world \<Rightarrow> sdk_world" where
  "Client_disconnect cid w = asynAddOp (DisconnectOp cid) w"


subsection \<open>The invariant of the loop\<close>

text \<open>
  A connection in the table has the name it is entered under, a sound ring, timers in the order of their
  deadlines, and no socket once it has failed or disconnected.
\<close>

definition conn_ok :: "bytes \<Rightarrow> sdk_conn \<Rightarrow> bool" where
  "conn_ok cid c \<longleftrightarrow> k_cid c = cid \<and> rb_inv (k_buf c) \<and> sorted_wrt timer_before (k_timers c) \<and>
     (k_status c = STATUS_LOGIN_FAIL \<or> k_status c = STATUS_DISCONNECT \<longrightarrow> k_fd c = INVALID_FD)"

definition loop_ok :: "sdk_world \<Rightarrow> bool" where
  "loop_ok w \<longleftrightarrow> map_ok (s_conns w) \<and> (\<forall>cid c. findConn cid w = Some c \<longrightarrow> conn_ok cid c)"

text \<open>What a connection's operations keep: its own part, and the table, which is not theirs.\<close>

definition conn_good :: "(bytes, sdk_conn) std_map \<Rightarrow> bytes \<Rightarrow> sdk_conn \<Rightarrow> sdk_world \<Rightarrow> bool" where
  "conn_good cs cid c w \<longleftrightarrow> conn_ok cid c \<and> s_conns w = cs"

named_theorems conn_good_intros \<open>operations that keep a connection good\<close>

lemma timer_before_trans: "timer_before a b \<Longrightarrow> timer_before b c \<Longrightarrow> timer_before a c"
  by (auto simp: timer_before_def tv_cmp_def split: if_splits)

lemma timer_insert_set: "set (set_insert timer_before t ts) \<subseteq> insert t (set ts)"
  by (induction ts) auto

lemma timer_insert_sorted: "sorted_wrt timer_before ts \<Longrightarrow> sorted_wrt timer_before (set_insert timer_before t ts)"
proof (induction ts)
  case (Cons u ts)
  then show ?case using timer_insert_set [of t ts] timer_before_trans [of t u] by auto
qed simp

lemma remove_first_sorted:
  "sorted_wrt R xs \<Longrightarrow> sorted_wrt R (remove_first P xs)" "set (remove_first P xs) \<subseteq> set xs"
  by (induction xs) auto

lemma closefd_good:
  assumes "conn_good cs cid c w" "closefd c w = (c', w')"
  shows "conn_good cs cid c' w'" "k_fd c' = INVALID_FD"
  using assms by (auto simp: conn_good_def conn_ok_def closefd_def split: if_splits)

lemma setStatus_good:
  assumes "conn_good cs cid c w" "setStatus e st code n c w = (c', w')" "k_fd c = INVALID_FD \<or> (st \<noteq> STATUS_LOGIN_FAIL \<and> st \<noteq> STATUS_DISCONNECT)"
  shows "conn_good cs cid c' w'" "k_fd c' = k_fd c"
  using assms by (auto simp: conn_good_def conn_ok_def setStatus_def publish_def Let_def split: if_splits option.splits)

lemma asynAddOp_good [simp]: "conn_good cs cid c (asynAddOp op w) = conn_good cs cid c w"
  by (simp add: conn_good_def asynAddOp_def)

text \<open>A status that means failure is set after closing the socket.\<close>

lemma close_set_good:
  assumes "conn_good cs cid c w" "closefd c w = (c1, w1)" "setStatus e st code n c1 w1 = (c2, w2)"
  shows "conn_good cs cid c2 w2"
  using setStatus_good(1) [OF closefd_good(1) [OF assms(1,2)] assms(3)] closefd_good(2) [OF assms(1,2)] by simp

lemma OnLoginFail_good:
  assumes "conn_good cs cid c w" "OnLoginFail e code c w = (c', w')"
  shows "conn_good cs cid c' w'"
  using assms by (auto simp: OnLoginFail_def split: prod.splits intro: close_set_good)

lemma onDisconnect_good:
  assumes "conn_good cs cid c w" "sdk_onDisconnect e code c w = (c', w')"
  shows "conn_good cs cid c' w'"
  using assms by (auto simp: sdk_onDisconnect_def split: prod.splits intro: close_set_good)

lemma send_msg_good:
  assumes "conn_good cs cid c w" "send_msg e m c w = Done (ret, c', w')"
  shows "conn_good cs cid c' w'"
proof -
  have "conn_good cs cid c (w\<lparr>s_sends := x, s_wire := y\<rparr>)" for x y using assms(1) by (simp add: conn_good_def)
  then show ?thesis using assms
    by (auto simp: send_msg_def bind_outcome_Done_iff Let_def split: if_splits prod.splits intro: closefd_good(1))
qed

lemma sdk_login_good:
  assumes "conn_good cs cid c w" "sdk_login e c w = Done (ret, c', w')"
  shows "conn_good cs cid c' w'"
proof -
  obtain c1 w1 where s: "setStatus e STATUS_DO_LOGIN 0 False c w = (c1, w1)" by fastforce
  have "conn_good cs cid c1 w1" using setStatus_good(1) [OF assms(1) s] by (simp add: sdk_status)
  then have "conn_good cs cid (c1\<lparr>k_login_time := x\<rparr>) w1" for x by (simp add: conn_good_def conn_ok_def)
  then show ?thesis using assms(2)
    by (auto simp: sdk_login_def s sendPacket_def bind_outcome_Done_iff Let_def dest: send_msg_good)
qed

text \<open>
  Connecting opens a socket for a connection whose status says that it has none; the status changes right after.
  So of the connection only the rest is kept until then.
\<close>

definition conn_rest :: "(bytes, sdk_conn) std_map \<Rightarrow> bytes \<Rightarrow> sdk_conn \<Rightarrow> sdk_world \<Rightarrow> bool" where
  "conn_rest cs cid c w \<longleftrightarrow> conn_good cs cid (c\<lparr>k_fd := INVALID_FD\<rparr>) w"

lemma conn_restI: "conn_good cs cid c w \<Longrightarrow> conn_rest cs cid c w"
  by (auto simp: conn_rest_def conn_good_def conn_ok_def)

lemma conn_rest_open: "conn_rest cs cid c w \<Longrightarrow> k_fd c = INVALID_FD \<or> (k_status c \<noteq> STATUS_LOGIN_FAIL \<and> k_status c \<noteq> STATUS_DISCONNECT) \<Longrightarrow>
    conn_good cs cid c w"
  by (auto simp: conn_rest_def conn_good_def conn_ok_def)

lemma connect_back_conns: "connect_back e svrs fd w = (svrs', fd', w') \<Longrightarrow> s_conns w' = s_conns w"
  by (induction e svrs fd w rule: connect_back.induct) (auto simp: Let_def split: if_splits)

lemma connectServer_rest:
  assumes "conn_rest cs cid c w" "connectServer e c w = (ret, c', w')"
  shows "ret \<noteq> 0 \<Longrightarrow> conn_good cs cid c' w'" "ret = 0 \<Longrightarrow> conn_rest cs cid c' w' \<and> k_status c' = k_status c"
proof -
  obtain svrs fd w1 where b: "connect_back e (rev (k_svrlist c)) (k_fd c) w = (svrs, fd, w1)" by (metis prod_cases3)
  let ?c = "c\<lparr>k_svrlist := rev svrs, k_fd := fd\<rparr>"
  have rest: "conn_rest cs cid ?c w1"
    using assms(1) connect_back_conns [OF b] by (simp add: conn_rest_def conn_good_def conn_ok_def)
  have good: "conn_good cs cid ?c w1" if "fd = INVALID_FD" using conn_rest_open [OF rest] that by simp
  show "ret \<noteq> 0 \<Longrightarrow> conn_good cs cid c' w'" "ret = 0 \<Longrightarrow> conn_rest cs cid c' w' \<and> k_status c' = k_status c"
    using assms(2) rest good OnLoginFail_good
    by (auto simp: connectServer_def b Let_def split: if_splits prod.splits)
qed

lemma sdk_login_rest:
  assumes "conn_rest cs cid c w" "k_status c \<noteq> STATUS_DO_LOGIN" "sdk_login e c w = Done (ret, c', w')"
  shows "conn_good cs cid c' w'"
proof -
  have "conn_good cs cid (c\<lparr>k_status := STATUS_DO_LOGIN, k_code := 0, k_login_time := x\<rparr>) w" for x
    using assms(1) by (intro conn_rest_open) (auto simp: conn_rest_def conn_good_def conn_ok_def sdk_status)
  then show ?thesis using assms(2,3)
    by (auto simp: sdk_login_def setStatus_def sendPacket_def bind_outcome_Done_iff Let_def dest: send_msg_good)
qed

lemma connectAndLogin_rest:
  assumes "conn_rest cs cid c w" "k_status c = STATUS_DISCONNECT" "connectAndLogin e c w = Done (ret, c', w')"
  shows "conn_good cs cid c' w'"
proof -
  obtain r c1 w1 where k: "connectServer e c w = (r, c1, w1)" by (metis prod_cases3)
  show ?thesis
  proof (cases "r = 0")
    case True
    then have "sdk_login e c1 w1 = Done (ret, c', w')" using assms(2,3) k by (simp add: connectAndLogin_def sdk_status)
    with sdk_login_rest [of cs cid c1 w1] connectServer_rest(2) [OF assms(1) k True] assms(2) show ?thesis
      by (simp add: sdk_status)
  next
    case False
    then show ?thesis using connectServer_rest(1) [OF assms(1) k] assms(2,3) k
      by (simp add: connectAndLogin_def sdk_status)
  qed
qed

lemma addTimer_good: "conn_good cs cid c w \<Longrightarrow> conn_good cs cid (sdk_addTimer i op c w) w"
  by (simp add: conn_good_def conn_ok_def sdk_addTimer_def Let_def timer_insert_sorted)

lemma addKeepaliveTimer_good: "conn_good cs cid c w \<Longrightarrow> conn_good cs cid (addKeepaliveTimer c w) w"
  by (simp add: addKeepaliveTimer_def Let_def addTimer_good)

lemma popTimer_good: "conn_good cs cid c w \<Longrightarrow> conn_good cs cid (popTimer i c) w"
  by (simp add: conn_good_def conn_ok_def popTimer_def sorted_wrt_rev remove_first_sorted)


lemma handleLoginResponse_good:
  assumes "conn_good cs cid c w" "handleLoginResponse e resp c w = Done (ret, c', w')"
  shows "conn_good cs cid c' w'"
proof -
  define c1 where "c1 = popTimer (bytes_of ''Login'') c"
  have pop: "conn_good cs cid c1 w" using popTimer_good [OF assms(1)] by (simp add: c1_def)
  have setSess: "conn_good cs cid (c1\<lparr>k_sessid := x\<rparr>) w" "conn_good cs cid (c1\<lparr>k_svrlist := y\<rparr>) w" for x y
    using pop by (simp_all add: conn_good_def conn_ok_def)
  have again: "conn_good cs cid c' w'"
    if "connectAndLogin e (c1\<lparr>k_svrlist := y, k_status := STATUS_DISCONNECT, k_code := k\<rparr>) w = Done (r, c', w')" for y k r
    using connectAndLogin_rest [OF _ _ that] pop by (simp add: conn_rest_def conn_good_def conn_ok_def)
  have again': "conn_good cs cid c' w'"
    if "connectAndLogin e (c1\<lparr>k_svrlist := y\<rparr>) w = Done (r, c', w')" "k_status c1 = STATUS_DISCONNECT" for y r
    using connectAndLogin_rest [OF _ _ that(1)] pop that(2) by (simp add: conn_rest_def conn_good_def conn_ok_def)
  have logged: "conn_good cs cid c2 w2" if "setStatus e STATUS_LOGGED_IN st True (c1\<lparr>k_sessid := x\<rparr>) w = (c2, w2)" for x st c2 w2
    using setStatus_good(1) [OF setSess(1) that] by (simp add: sdk_status)
  have resp: "(case e_login_resp e resp of None \<Rightarrow> Done (-9998, c1, w)
      | Some lgresp \<Rightarrow>
          let status = lr_status lgresp
          in if status \<ge> 0 then
               let c = c1\<lparr>k_sessid := lr_sessid lgresp\<rparr>; (c, w) = setStatus e STATUS_LOGGED_IN status True c w
               in Done (0, addKeepaliveTimer c w, w)
             else if k_svrlist c1 = [] then Fault
             else
               let c = c1\<lparr>k_svrlist := butlast (k_svrlist c1)\<rparr>
               in if k_svrlist c = [] then let (c, w) = OnLoginFail e status c w in Done (0, c, w)
                  else let (c, w) = setStatus e STATUS_DISCONNECT 0 False c w
                       in bind_outcome (connectAndLogin e c w) (\<lambda>(ret, c, w). Done (0, c, w))) = Done (ret, c', w')"
    using assms(2) by (simp only: handleLoginResponse_def Let_def c1_def)
  show ?thesis
  proof (cases "e_login_resp e resp")
    case None
    then show ?thesis using resp pop by simp
  next
    case (Some r)
    consider "0 \<le> lr_status r" | "lr_status r < 0" "butlast (k_svrlist c1) = []" | "lr_status r < 0" "butlast (k_svrlist c1) \<noteq> []"
      by linarith
    then show ?thesis
    proof cases
      case 1
      obtain c2 w2 where "setStatus e STATUS_LOGGED_IN (lr_status r) True (c1\<lparr>k_sessid := lr_sessid r\<rparr>) w = (c2, w2)" by fastforce
      then show ?thesis using resp Some 1 addKeepaliveTimer_good [OF logged] by auto
    next
      case 2
      obtain c2 w2 where "OnLoginFail e (lr_status r) (c1\<lparr>k_svrlist := butlast (k_svrlist c1)\<rparr>) w = (c2, w2)" by fastforce
      then show ?thesis using resp Some 2 OnLoginFail_good [OF setSess(2)] by (auto split: if_splits)
    next
      case 3
      then show ?thesis using resp Some
        by (auto simp: setStatus_def bind_outcome_Done_iff Let_def split: if_splits dest: again again')
    qed
  qed
qed

lemma publish_good: "conn_good cs cid c (publish e m w) = conn_good cs cid c w"
  by (simp add: conn_good_def publish_def)

lemma handlePacket_good:
  assumes "conn_good cs cid c w" "sdk_handlePacket e cmd body c w = Done (c', w')"
  shows "conn_good cs cid c' w'"
  using assms
  by (auto simp: sdk_handlePacket_def handleServiceRequest_def sendPacket_def bind_outcome_Done_iff Let_def
      split: if_splits option.splits dest: handleLoginResponse_good intro: send_msg_good [rotated] simp: publish_good)

lemma OnTimeout_good:
  assumes "conn_good cs cid c w" "OnTimeout e op c w = Done (c', w')"
  shows "conn_good cs cid c' w'"
proof -
  have "conn_good cs cid c' w'" if "keepalive e c w = Done (ret, c', w')" for ret
    using that assms(1)
    by (auto simp: keepalive_def sendPacket_def split: if_splits prod.splits
        intro: close_set_good send_msg_good [OF addKeepaliveTimer_good])
  then show ?thesis using assms
    by (cases op) (auto simp: bind_outcome_Done_iff dest: OnLoginFail_good)
qed

lemma run_timeouts_good:
  "conn_good cs cid c w \<Longrightarrow> run_timeouts e ops c w = Done (c', w') \<Longrightarrow> conn_good cs cid c' w'"
  by (induction ops arbitrary: c w) (auto simp: bind_outcome_Done_iff dest: OnTimeout_good)

text \<open>The timers that are not due are the rear part of the set.\<close>

lemma take_due_rest: "take_due tnow tv ts = (ops, ts', tv') \<Longrightarrow> \<exists>us. ts = us @ ts'"
proof (induction tnow tv ts arbitrary: ops rule: take_due.induct)
  case (2 tnow tv deadline i op ts)
  show ?case
  proof (cases "tv_cmp deadline tnow > 0")
    case False
    then obtain us where "ts = us @ ts'" using 2 by (auto split: prod.splits)
    then show ?thesis by simp
  qed (use 2(2) in \<open>simp add: Let_def\<close>)
qed simp

lemma conn_processTimers_good:
  assumes "conn_good cs cid c w" "conn_processTimers e tnow tv c w = Done (tv', c', w')"
  shows "conn_good cs cid c' w'"
proof -
  obtain ops ts tv1 where t: "take_due tnow tv (k_timers c) = (ops, ts, tv1)" by (metis prod_cases3)
  have "conn_good cs cid (c\<lparr>k_timers := ts\<rparr>) w"
    using assms(1) take_due_rest [OF t] by (auto simp: conn_good_def conn_ok_def sorted_wrt_append)
  then show ?thesis using assms(2)
    by (auto simp: conn_processTimers_def t bind_outcome_Done_iff dest: run_timeouts_good)
qed


lemma recv_rounds_inv: "rb_inv b \<Longrightarrow> recv_rounds rss b = Done (ret, b') \<Longrightarrow> rb_inv b'"
proof (induction rss arbitrary: b)
  case (Cons rs rss)
  note room = recv_room_data [OF Cons.prems(1)]
  obtain r got where r: "tcpNbReceive True rs (next_part_len (recv_room b)) = Done (r, got)"
    using Cons.prems(2) by (auto simp: Let_def bind_outcome_Done_iff)
  have fits: "length got \<le> next_part_len (recv_room b)" using tcpNbReceive_fits [OF r] by simp
  have part: "rb_inv (next_part_store (recv_room b) got)" using next_part_inv [OF room(1) fits] .
  show ?case
    using Cons.prems(2) Cons.IH [of "snd (rb_write (next_part_store (recv_room b) got) None (length got))"]
      next_part_data [OF room(1) fits] part
    by (auto simp: Let_def r split: if_splits)
qed simp

lemma sdk_packets_good:
  "conn_good cs cid c w \<Longrightarrow> sdk_packets n e c w = Done (c', w') \<Longrightarrow> conn_good cs cid c' w'"
proof (induction n arbitrary: c w)
  case (Suc n)
  let ?h = "load_head (rb_peek (k_buf c) sizeof_head)"
  let ?len = "nat (sint (htonl (h_len ?h))) - sizeof_head"
  let ?b = "snd (rb_read (k_buf c) sizeof_head)"
  have inv: "rb_inv (k_buf c)" using Suc.prems(1) by (simp add: conn_good_def conn_ok_def)
  have good: "conn_good cs cid (c\<lparr>k_buf := snd (rb_read ?b n)\<rparr>) w" for n
    using Suc.prems(1) rb_read_data(2) [OF rb_read_data(2) [OF inv]] by (simp add: conn_good_def conn_ok_def)
  show ?case
  proof (cases "length (rb_peek (k_buf c) sizeof_head) < sizeof_head \<or> int (rb_size (k_buf c)) < sint (htonl (h_len ?h))")
    case True
    then show ?thesis using Suc.prems by (auto simp: Let_def split: if_splits)
  next
    case False
    then obtain c1 w1 where h: "sdk_handlePacket e (sint (htonl (h_cmd ?h))) (fst (rb_read ?b ?len)) (c\<lparr>k_buf := snd (rb_read ?b ?len)\<rparr>) w = Done (c1, w1)"
      and rest: "sdk_packets n e c1 w1 = Done (c', w')"
      using Suc.prems(2) by (auto simp: Let_def bind_outcome_Done_iff split_beta split: if_splits)
    show ?thesis using Suc.IH [OF handlePacket_good [OF good h] rest] .
  qed
qed simp

lemma handleRead_good:
  assumes "conn_good cs cid c w" "sdk_handleRead e rss c w = Done (ret, c', w')"
  shows "conn_good cs cid c' w'"
proof (cases "k_fd c = INVALID_FD")
  case True
  then show ?thesis using assms by (simp add: sdk_handleRead_def)
next
  case False
  then obtain r b where r: "recv_rounds rss (k_buf c) = Done (r, b)"
    using assms(2) by (auto simp: sdk_handleRead_def Let_def bind_outcome_Done_iff)
  let ?c = "c\<lparr>k_active_time := gettime_ms (s_now w), k_buf := b\<rparr>"
  have good: "conn_good cs cid ?c w"
    using assms(1) recv_rounds_inv [OF _ r] by (simp add: conn_good_def conn_ok_def)
  show ?thesis
    using assms(2) good sdk_packets_good [OF good] False
    by (auto simp: sdk_handleRead_def Let_def r bind_outcome_Done_iff simp del: sdk_packets.simps split: if_splits)
qed

subsubsection \<open>The table\<close>

lemma findConn_put [simp]: "findConn a (put_conn b c w) = (if a = b then Some c else findConn a w)"
  by (simp add: findConn_def put_conn_def)

lemma put_conn_ok:
  assumes "conn_good (s_conns w) cid c w'" "loop_ok w"
  shows "loop_ok (put_conn cid c w')"
proof -
  have "s_conns w' = s_conns w" "conn_ok cid c" using assms(1) by (simp_all add: conn_good_def)
  then show ?thesis using assms(2) by (auto simp: loop_ok_def put_conn_def findConn_def)
qed

lemma erase_ok: "loop_ok w \<Longrightarrow> loop_ok (w\<lparr>s_conns := map_erase cid (s_conns w)\<rparr>)"
  by (auto simp: loop_ok_def findConn_def)

lemma delConn_ok: "loop_ok w \<Longrightarrow> loop_ok (snd (delConn cid w))"
  by (simp add: delConn_def erase_ok)

lemma found_good: "loop_ok w \<Longrightarrow> findConn cid w = Some c \<Longrightarrow> conn_good (s_conns w) cid c w"
  by (simp add: loop_ok_def conn_good_def)

lemma process_op_ok:
  assumes "loop_ok w" "process_op e op w = Done (ret, kept, w')"
  shows "loop_ok w'"
proof (cases op)
  case (LoginOp cid ip port ver kp)
  let ?c = "(CliConn_new w)\<lparr>k_cid := cid, k_cli_ver := ver, k_svrlist := [(ip, port)], k_keepalive := kp\<rparr>"
  have new: "conn_rest (s_conns w) cid ?c w" "k_status ?c = STATUS_DISCONNECT"
    by (simp_all add: conn_rest_def conn_good_def conn_ok_def CliConn_new_def rb_inv_new)
  show ?thesis using assms LoginOp
    by (auto simp: bind_outcome_Done_iff Let_def split: option.splits
        dest!: connectAndLogin_rest [OF new] intro: put_conn_ok)
next
  case (DelConnOp cid)
  then show ?thesis using assms delConn_ok [of w cid] by (auto split: prod.splits)
next
  case (DisconnectOp cid)
  then show ?thesis using assms
    by (auto split: option.splits prod.splits intro!: put_conn_ok dest: onDisconnect_good [OF found_good])
qed (use assms in \<open>auto split: option.splits\<close>)

lemma keep_op_ok: "loop_ok w \<Longrightarrow> loop_ok (keep_op op w)"
  by (auto simp: keep_op_def split: option.splits intro!: put_conn_ok addTimer_good found_good)


lemma processOps_ok: "loop_ok w \<Longrightarrow> processOps n e w = Done w' \<Longrightarrow> loop_ok w'"
proof (induction n arbitrary: w)
  case 0
  then show ?case by (cases "s_ops w") (auto simp: processOps_0)
next
  case (Suc n)
  show ?case
  proof (cases "s_ops w")
    case Nil
    then show ?thesis using Suc.prems by simp
  next
    case (Cons op ops)
    then obtain ret kept w1 where p: "process_op e op (w\<lparr>s_ops := ops\<rparr>) = Done (ret, kept, w1)"
      and rest: "processOps n e (if kept then keep_op op w1 else w1) = Done w'"
      using Suc.prems(2) by (auto simp: processOps_Cons bind_outcome_Done_iff)
    have "loop_ok (w\<lparr>s_ops := ops\<rparr>)" using Suc.prems(1) by (simp add: loop_ok_def findConn_def)
    from Suc.IH [OF _ rest] keep_op_ok process_op_ok [OF this p] show ?thesis by simp
  qed
qed

lemma loop_timers_ok: "loop_ok w \<Longrightarrow> loop_timers e tnow cids tv w = Done (tv', w') \<Longrightarrow> loop_ok w'"
proof (induction cids arbitrary: tv w)
  case (Cons cid cids)
  show ?case
  proof (cases "findConn cid w")
    case None
    then show ?thesis using Cons by simp
  next
    case (Some c)
    show ?thesis
    proof (cases "k_fd c = INVALID_FD")
      case True
      then show ?thesis using Cons.IH [OF erase_ok [OF Cons.prems(1)]] Cons.prems(2) Some by simp
    next
      case False
      then obtain tv1 c1 w1 where p: "conn_processTimers e tnow tv c w = Done (tv1, c1, w1)"
        and rest: "loop_timers e tnow cids tv1 (put_conn cid c1 w1) = Done (tv', w')"
        using Cons.prems(2) Some by (auto simp: bind_outcome_Done_iff)
      from Cons.IH [OF put_conn_ok [OF conn_processTimers_good [OF found_good [OF Cons.prems(1) Some] p] Cons.prems(1)] rest]
      show ?thesis .
    qed
  qed
qed simp

lemma read_conns_ok: "loop_ok w \<Longrightarrow> read_conns e fds scr cids errs w = Done (errs', w') \<Longrightarrow> loop_ok w'"
proof (induction cids arbitrary: errs w)
  case (Cons cid cids)
  show ?case
  proof (cases "findConn cid w")
    case None
    then show ?thesis using Cons by simp
  next
    case (Some c)
    note good = found_good [OF Cons.prems(1) Some]
    show ?thesis
    proof (cases "k_fd c \<in> set fds")
      case False
      then show ?thesis using Cons.IH [OF Cons.prems(1)] Cons.prems(2) Some by (auto split: if_splits)
    next
      case True
      then obtain ret c1 w1 where h: "sdk_handleRead e (scr (k_fd c)) c w = Done (ret, c1, w1)"
        and rest: "(if ret < 0 then
            let (c, w) = sdk_onDisconnect e GIM_NETWORK_ERROR c1 w1
            in read_conns e fds scr cids (errs @ [k_cid c]) (put_conn cid c w)
          else read_conns e fds scr cids errs (put_conn cid c1 w1)) = Done (errs', w')"
        using Cons.prems(2) Some by (auto simp: bind_outcome_Done_iff split: if_splits)
      note good1 = handleRead_good [OF good h]
      show ?thesis
      proof (cases "ret < 0")
        case True
        obtain c2 w2 where d: "sdk_onDisconnect e GIM_NETWORK_ERROR c1 w1 = (c2, w2)" by fastforce
        from Cons.IH [OF put_conn_ok [OF onDisconnect_good [OF good1 d] Cons.prems(1)]] rest True d
        show ?thesis by simp
      next
        case False
        with Cons.IH [OF put_conn_ok [OF good1 Cons.prems(1)]] rest show ?thesis by simp
      qed
    qed
  qed
qed simp

lemma del_conns_ok: "loop_ok w \<Longrightarrow> loop_ok (del_conns cids w)"
  by (induction cids arbitrary: w) (auto simp: delConn_ok)

lemma loop_round_ok:
  assumes "loop_ok w" "loop_round n e scr sel w = Done (go, w')"
  shows "loop_ok w'"
proof -
  obtain tv w1 where t: "loop_processTimers e c_tvmax w = Done (tv, w1)"
    and a: "after_select n e scr (sel (select_timeout tv)) w1 = Done (go, w')"
    using assms(2) by (auto simp: loop_round_def bind_outcome_Done_iff)
  have ok: "loop_ok w1" using loop_timers_ok [OF assms(1)] t by (simp add: loop_processTimers_def)
  show ?thesis
  proof (cases "sel (select_timeout tv)")
    case (SelReady ctl fds)
    then obtain w2 errs w3 where p: "(if ctl then processOps n e w1 else Done w1) = Done w2"
      and r: "read_conns e fds scr (map fst (s_conns w2)) [] w2 = Done (errs, w3)" and w': "w' = del_conns errs w3"
      using a by (auto simp: after_select_def bind_outcome_Done_iff)
    have "loop_ok w2" using p ok processOps_ok by (auto split: if_splits)
    from read_conns_ok [OF this r] show ?thesis by (simp add: w' del_conns_ok)
  qed (use a ok in \<open>auto simp: after_select_def\<close>)
qed

text \<open>
  The states of a loop: it starts without connections, and goes on by its rounds, by operations that the
  application hands over, and by the passing of time.
\<close>

inductive loop_reach :: "sdk_env \<Rightarrow> sdk_world \<Rightarrow> bool" for e where
  "s_conns w = [] \<Longrightarrow> loop_reach e w"
| "loop_reach e w \<Longrightarrow> loop_round n e scr sel w = Done (go, w') \<Longrightarrow> loop_reach e w'"
| "loop_reach e w \<Longrightarrow> loop_reach e (asynAddOp op w)"
| "loop_reach e w \<Longrightarrow> loop_reach e (w\<lparr>s_now := t\<rparr>)"

subsection \<open>Logging in\<close>

definition sdk_login_request :: "bytes \<Rightarrow> bytes \<Rightarrow> login_request" where
  "sdk_login_request cid ver = \<lparr>lq_id = cid, lq_type = -1, lq_token = [], lq_version = ver, lq_kvs = []\<rparr>"

text \<open>A login whose connect and send work.\<close>

lemma login_processed:
  assumes "findConn cid w = None" "e_connect e (s_connects w) ip port = fd" "fd \<noteq> INVALID_FD"
    "e_send e (s_sends w) = SendSome n # rs"
    "length (sdk_constructPacket LOGIN_REQ (e_login_req e (sdk_login_request cid ver))) \<le> Suc n"
  shows "process_op e (LoginOp cid ip port ver kp) w =
    Done (0, True, put_conn cid ((CliConn_new w)\<lparr>k_cid := cid, k_cli_ver := ver, k_svrlist := [(ip, port)], k_keepalive := kp,
        k_fd := fd, k_status := STATUS_DO_LOGIN, k_code := 0, k_login_time := gettime_ms (s_now w)\<rparr>)
      (w\<lparr>s_connects := s_connects w + 1, s_sends := s_sends w + 1,
        s_wire := s_wire w @ [(fd, sdk_constructPacket LOGIN_REQ (e_login_req e (sdk_login_request cid ver)))]\<rparr>))"
  using assms
  by (simp add: connectAndLogin_def connectServer_def sdk_login_def setStatus_def sendPacket_def send_msg_whole
      sdk_login_request_def sdk_status CliConn_new_def Let_def)

text \<open>An operation that is kept waits in its connection's timers.\<close>

lemma kept_op_processed:
  assumes "s_ops w = [op]" "process_op e op (w\<lparr>s_ops := []\<rparr>) = Done (0, True, put_conn (getCid op) c w0)" "s_ops w0 = []"
  shows "processOps 1 e w =
    Done (put_conn (getCid op) (sdk_addTimer (getSN op) op c w0) (put_conn (getCid op) c w0))"
proof -
  have time: "sdk_addTimer i op c (put_conn a c' w0) = sdk_addTimer i op c w0" for i a c'
    by (simp add: sdk_addTimer_def put_conn_def)
  have "s_ops (put_conn a c' (put_conn b c w0)) = []" for a b c' using assms(3) by (simp add: put_conn_def)
  then show ?thesis by (simp add: processOps_Cons [OF assms(1)] assms(2) keep_op_def time)
qed

text \<open>A login that the server accepts.\<close>

definition login_ok_event :: "bytes \<Rightarrow> json" where
  "login_ok_event cid = json_of [(''cid'', stringValue cid), (''evtype'', intValue GIM_EVTYPE_LOGIN_OK)]"

lemma login_accepted:
  assumes "e_login_resp e resp = Some r" "0 \<le> lr_status r" "k_status c = STATUS_DO_LOGIN"
    "k_timers c = [(t, bytes_of ''Login'', op)]"
  shows "\<exists>c'. sdk_handlePacket e LOGIN_RESP resp c w = Done (c', publish e (e_json e (login_ok_event (k_cid c))) w) \<and>
    k_status c' = STATUS_LOGGED_IN \<and> k_sessid c' = lr_sessid r \<and>
    map (snd o snd) (k_timers c') = [KeepaliveOp (k_cid c) (k_keepalive c)]"
proof -
  have "popTimer (bytes_of ''Login'') c = c\<lparr>k_timers := []\<rparr>"
    using assms(4) by (simp add: popTimer_def del: bytes_of_simps)
  then show ?thesis using assms(1-3)
    by (simp add: sdk_handlePacket_def handleLoginResponse_def setStatus_def status_event_def login_ok_event_def
        addKeepaliveTimer_def sdk_addTimer_def sdk_status Let_def del: bytes_of_simps)
qed

text \<open>The time to the next deadline is never below the value that stands for no time-out.\<close>

lemma take_due_tvmax:
  "take_due tnow tv ts = (ops, ts', tv') \<Longrightarrow> tv = c_tvmax \<Longrightarrow> tv' = c_tvmax"
proof (induction tnow tv ts arbitrary: ops rule: take_due.induct)
  case (2 tnow tv deadline i op ts)
  show ?case
  proof (cases "tv_cmp deadline tnow > 0")
    case True
    then have "tv_cmp c_tvmax (tv_diff deadline tnow) < 0"
      by (auto simp: tv_cmp_def tv_diff_def c_tvmax_def Let_def split: if_splits)
    with True 2(2,3) show ?thesis by (auto simp: Let_def)
  next
    case False
    with 2 show ?thesis by (auto split: prod.splits)
  qed
qed simp

lemma loop_timers_tvmax: "loop_timers e tnow cids c_tvmax w = Done (tv', w') \<Longrightarrow> tv' = c_tvmax"
proof (induction cids arbitrary: w)
  case (Cons cid cids)
  have due: "conn_processTimers e tnow c_tvmax c w = Done (tv1, c1, w1) \<Longrightarrow> tv1 = c_tvmax" for tv1 c c1 w w1
    using take_due_tvmax by (auto simp: conn_processTimers_def bind_outcome_Done_iff split: prod.splits)
  show ?case using Cons
    by (auto simp: bind_outcome_Done_iff split: option.splits if_splits dest: due)
qed simp


subsection \<open>The queue of operations\<close>

text \<open>
  With an application that hands nothing over from its callback, every operation adds less to the
  queue than it takes away.
\<close>

fun op_weight :: "sdk_op \<Rightarrow> nat" where
  "op_weight (LoginOp cid ip port ver kp) = 2"
| "op_weight (DisconnectOp cid) = 2"
| "op_weight (KeepaliveOp cid t) = 1"
| "op_weight (DelConnOp cid) = 1"

definition silent :: "sdk_env \<Rightarrow> bool" where
  "silent e \<longleftrightarrow> (\<forall>n m. e_app e n m = []) \<and> (\<forall>n fd m. tcp_send (e_send e n) fd m \<noteq> NoFuel)"

lemma closefd_ops: "closefd c w = (c', w') \<Longrightarrow> s_ops w' = s_ops w"
  by (auto simp: closefd_def split: if_splits)

lemma setStatus_ops: "silent e \<Longrightarrow> setStatus e st code n c w = (c', w') \<Longrightarrow> s_ops w' = s_ops w"
  by (auto simp: setStatus_def publish_def silent_def Let_def split: if_splits option.splits)

lemma fail_ops:
  assumes "silent e" "OnLoginFail e code c w = (c', w') \<or> sdk_onDisconnect e code c w = (c', w')"
  shows "\<exists>cid. s_ops w' = s_ops w @ [DelConnOp cid]"
proof -
  obtain c1 w1 where k: "closefd c w = (c1, w1)" by fastforce
  have st: "s_ops (snd (setStatus e st code True c1 w1)) = s_ops w" for st
    using setStatus_ops [OF assms(1), of st code True c1 w1] closefd_ops [OF k] by (metis prod.collapse)
  show ?thesis
    using assms(2) by (auto simp: OnLoginFail_def sdk_onDisconnect_def asynAddOp_def k split_beta Let_def st)
qed

lemma send_msg_ops:
  assumes "silent e"
  shows "send_msg e m c w \<noteq> NoFuel" "send_msg e m c w = Done (ret, c', w') \<Longrightarrow> s_ops w' = s_ops w"
proof -
  show "send_msg e m c w \<noteq> NoFuel"
    using assms by (cases "tcp_send (e_send e (s_sends w)) (k_fd c) m") (auto simp: send_msg_def silent_def Let_def split: prod.splits)
  show "send_msg e m c w = Done (ret, c', w') \<Longrightarrow> s_ops w' = s_ops w"
    by (auto simp: send_msg_def bind_outcome_Done_iff Let_def split: if_splits prod.splits dest!: closefd_ops)
qed

lemma sdk_login_ops:
  assumes "silent e"
  shows "sdk_login e c w \<noteq> NoFuel" "sdk_login e c w = Done (ret, c', w') \<Longrightarrow> s_ops w' = s_ops w"
proof -
  obtain c1 w1 where s: "setStatus e STATUS_DO_LOGIN 0 False c w = (c1, w1)" by fastforce
  let ?send = "send_msg e (sdk_constructPacket LOGIN_REQ (e_login_req e
    \<lparr>lq_id = k_cid c1, lq_type = -1, lq_token = [], lq_version = k_cli_ver c1, lq_kvs = []\<rparr>)) (c1\<lparr>k_login_time := gettime_ms (s_now w1)\<rparr>) w1"
  have l: "sdk_login e c w = bind_outcome ?send (\<lambda>(ret, c, w). Done (if ret \<ge> 0 then 0 else -1, c, w))"
    by (simp add: sdk_login_def s sendPacket_def Let_def)
  show "sdk_login e c w \<noteq> NoFuel"
    unfolding l using send_msg_ops(1) [OF assms] by (cases ?send) (auto split: prod.splits)
  show "sdk_login e c w = Done (ret, c', w') \<Longrightarrow> s_ops w' = s_ops w"
    unfolding l using setStatus_ops [OF assms s] by (auto simp: bind_outcome_Done_iff dest!: send_msg_ops(2) [OF assms])
qed

lemma connect_back_ops: "connect_back e svrs fd w = (svrs', fd', w') \<Longrightarrow> s_ops w' = s_ops w"
  by (induction e svrs fd w rule: connect_back.induct) (auto simp: Let_def split: if_splits)

lemma connectAndLogin_ops:
  assumes "silent e"
  shows "connectAndLogin e c w \<noteq> NoFuel"
    "connectAndLogin e c w = Done (ret, c', w') \<Longrightarrow> s_ops w' = s_ops w \<or> (\<exists>cid. s_ops w' = s_ops w @ [DelConnOp cid])"
proof -
  obtain svrs fd w1 where b: "connect_back e (rev (k_svrlist c)) (k_fd c) w = (svrs, fd, w1)" by (metis prod_cases3)
  show "connectAndLogin e c w \<noteq> NoFuel"
    using sdk_login_ops(1) [OF assms] by (auto simp: connectAndLogin_def split: prod.splits)
  show "connectAndLogin e c w = Done (ret, c', w') \<Longrightarrow> s_ops w' = s_ops w \<or> (\<exists>cid. s_ops w' = s_ops w @ [DelConnOp cid])"
    using connect_back_ops [OF b]
    by (auto simp: connectAndLogin_def connectServer_def b Let_def split: if_splits prod.splits
        dest!: sdk_login_ops(2) [OF assms] fail_ops [OF assms disjI1])
qed

lemma process_op_ops:
  assumes "silent e"
  shows "process_op e op w \<noteq> NoFuel"
    "process_op e op w = Done (ret, kept, w') \<Longrightarrow>
      \<exists>new. s_ops w' = s_ops w @ new \<and> sum_list (map op_weight new) < op_weight op"
proof -
  have put: "s_ops (put_conn cid c w) = s_ops w" for cid c w by (simp add: put_conn_def)
  have del: "s_ops (snd (delConn cid w)) = s_ops w" for cid w by (simp add: delConn_def)
  have bound: "(\<lambda>(ret, c, w). Done (ret, ret = 0, put_conn cid c w)) x \<noteq> NoFuel" for cid and x :: "int \<times> sdk_conn \<times> sdk_world"
    by (cases x) simp
  show "process_op e op w \<noteq> NoFuel"
  proof (cases op)
    case (LoginOp cid ip port ver kp)
    then show ?thesis using connectAndLogin_ops(1) [OF assms] bound
      by (cases "connectAndLogin e ((CliConn_new w)\<lparr>k_cid := cid, k_cli_ver := ver, k_svrlist := [(ip, port)], k_keepalive := kp\<rparr>) w")
        (auto split: option.splits)
  qed (auto split: option.splits prod.splits)
  show "process_op e op w = Done (ret, kept, w') \<Longrightarrow>
      \<exists>new. s_ops w' = s_ops w @ new \<and> sum_list (map op_weight new) < op_weight op"
  proof (cases op)
    case (LoginOp cid ip port ver kp)
    assume "process_op e op w = Done (ret, kept, w')"
    then show ?thesis using LoginOp
      by (auto simp: bind_outcome_Done_iff put Let_def split: option.splits dest!: connectAndLogin_ops(2) [OF assms])
  next
    case (DisconnectOp cid)
    assume "process_op e op w = Done (ret, kept, w')"
    then show ?thesis using DisconnectOp
      by (auto simp: put split: option.splits prod.splits dest!: fail_ops [OF assms disjI2])
  next
    case (DelConnOp cid)
    assume "process_op e op w = Done (ret, kept, w')"
    then show ?thesis using DelConnOp del [of cid w] by (auto split: prod.splits)
  next
    case (KeepaliveOp cid t)
    assume "process_op e op w = Done (ret, kept, w')"
    then show ?thesis using KeepaliveOp by (auto split: option.splits)
  qed
qed

text \<open>An example: a login at a loop without connections.\<close>

definition sample_login :: sdk_op where
  "sample_login = LoginOp [1] [] 80 [] 60"

lemma sample_env_simps [simp]:
  "e_connect (sample_env send app) n ip port = 7" "e_send (sample_env send app) n = send n"
  "e_login_req (sample_env send app) r = lq_id r" "e_app (sample_env send app) = app"
  by (simp_all add: sample_env_def)

lemma sample_world_simps [simp]:
  "s_conns (sample_world cs ops) = cs" "s_ops (sample_world cs ops) = ops" "s_events (sample_world cs ops) = []"
  "s_sends (sample_world cs ops) = 0" "s_connects (sample_world cs ops) = 0" "s_closed (sample_world cs ops) = []"
  by (simp_all add: sample_world_def)

lemma sample_login_processed:
  "\<exists>w c. processOps 1 (sample_env (\<lambda>n. [SendSome 100]) app) (sample_world [] [sample_login]) = Done w \<and>
    s_conns w = [([1], c)] \<and> k_fd c = 7"
proof -
  let ?e = "sample_env (\<lambda>n. [SendSome 100]) app" and ?w = "sample_world [] [sample_login]"
  have "findConn [1] (?w\<lparr>s_ops := []\<rparr>) = None" by (simp add: findConn_def)
  from login_processed [OF this, of ?e "[]" 80 7 100 "[]" "[]" 60]
  obtain c v where "process_op ?e sample_login (?w\<lparr>s_ops := []\<rparr>) = Done (0, True, put_conn (getCid sample_login) c v)"
    "s_ops v = []" "k_fd c = 7" "s_conns v = []"
    by (simp add: sample_login_def INVALID_FD_def sizeof_head_def sdk_login_request_def)
  with kept_op_processed [of ?w sample_login ?e c v] show ?thesis
    by (simp add: put_conn_def sample_login_def sdk_addTimer_def Let_def)
qed

subsection \<open>Properties\<close>

text \<open>
  C38: The table of connections stays sound. In every state of the loop, whatever the servers send, the
  application asks for and the sockets do, each name is entered once and stands for a connection of that
  name, whose ring is sound, whose timers are in order, and which has no socket left after a failed
  login or a disconnect.
\<close>

theorem sdk_table_sound:
  assumes "loop_reach e w"
  shows "distinct (map fst (s_conns w)) \<and> (findConn cid w = Some c \<longrightarrow> conn_ok cid c)"
proof -
  have "loop_ok w"
    using assms
  proof (induction rule: loop_reach.induct)
    case (1 w)
    then show ?case by (simp add: loop_ok_def findConn_def)
  next
    case 2
    then show ?case using loop_round_ok by blast
  next
    case (3 w op)
    then show ?case by (simp add: loop_ok_def findConn_def asynAddOp_def)
  next
    case (4 w t)
    then show ?case by (simp add: loop_ok_def findConn_def)
  qed
  then show ?thesis by (simp add: loop_ok_def map_ok_distinct)
qed

theorem sdk_table_sound_witness:
  "\<exists>w c. loop_round 1 (sample_env (\<lambda>n. [SendSome 100]) (\<lambda>n m. [])) (\<lambda>fd. []) (\<lambda>tv. SelReady True [])
      (sample_world [] [sample_login]) = Done (True, w) \<and> findConn [1] w = Some c \<and> conn_ok [1] c"
proof -
  let ?e = "sample_env (\<lambda>n. [SendSome 100]) (\<lambda>n m. [])"
  obtain w c where w: "processOps 1 ?e (sample_world [] [sample_login]) = Done w" "s_conns w = [([1], c)]" "k_fd c = 7"
    using sample_login_processed by blast
  then have "loop_round 1 ?e (\<lambda>fd. []) (\<lambda>tv. SelReady True []) (sample_world [] [sample_login]) = Done (True, w)"
    by (simp add: loop_round_def loop_processTimers_def after_select_def findConn_def)
  moreover have "findConn [1] w = Some c" using w(2) by (simp add: findConn_def)
  moreover have "loop_reach ?e w"
    using loop_reach.intros(2) [OF loop_reach.intros(1) calculation(1)] by simp
  ultimately show ?thesis using sdk_table_sound [of ?e w "[1]" c] by auto
qed

text \<open>
  C39: Timers never wake the loop. Its initial time-out, meant as the largest, is -1 in signed fields, so the time to
  the next deadline never replaces it, and every \<^verbatim>\<open>select\<close> waits without a time-out. Keep-alives are
  sent and login time-outs noticed only when a packet or an operation happens to come.
\<close>

theorem timers_never_wake:
  "loop_round n e scr sel w =
     bind_outcome (loop_processTimers e c_tvmax w) (\<lambda>(tv, w). after_select n e scr (sel None) w)"
proof (cases "loop_processTimers e c_tvmax w")
  case (Done x)
  obtain tv w1 where x: "x = (tv, w1)" by fastforce
  then have "tv = c_tvmax" using Done loop_timers_tvmax by (simp add: loop_processTimers_def)
  then show ?thesis by (simp add: loop_round_def Done x select_timeout_def tv_cmp_def)
qed (simp_all add: loop_round_def)




text \<open>
  Processing the operations returns, and leaves an empty queue. Its loop runs until the queue is empty, and
  operations put further ones into it; but with an application that hands nothing over from its callback each adds
  at most the deletion of its connection, so that twice as many rounds as there are operations suffice.
\<close>

theorem processOps_returns:
  assumes "silent e" "2 * length (s_ops w) \<le> n"
  shows "processOps n e w = Fault \<or> (\<exists>w'. processOps n e w = Done w' \<and> s_ops w' = [])"
proof -
  have "processOps n e w = Fault \<or> (\<exists>w'. processOps n e w = Done w' \<and> s_ops w' = [])"
    if "sum_list (map op_weight (s_ops w)) \<le> n" for w
    using that
  proof (induction n arbitrary: w)
    case 0
    then have "s_ops w = []" by (cases "s_ops w"; cases "hd (s_ops w)") auto
    then show ?case by simp
  next
    case (Suc n)
    show ?case
    proof (cases "s_ops w")
      case (Cons op ops)
      note step = processOps_Cons [OF Cons, of n e] process_op_ops [OF assms(1), of op "w\<lparr>s_ops := ops\<rparr>"]
      show ?thesis
      proof (cases "process_op e op (w\<lparr>s_ops := ops\<rparr>)")
        case (Done x)
        obtain ret kept w1 where x: "x = (ret, kept, w1)" by (metis prod_cases3)
        obtain new where "s_ops w1 = ops @ new" "sum_list (map op_weight new) < op_weight op"
          using step(3) Done x by auto
        moreover have "s_ops (keep_op op w1) = s_ops w1" by (simp add: keep_op_def put_conn_def split: option.splits)
        ultimately have "sum_list (map op_weight (s_ops (if kept then keep_op op w1 else w1))) \<le> n"
          using Suc.prems Cons by auto
        from Suc.IH [OF this] show ?thesis by (simp add: step(1) Done x)
      qed (use step in simp_all)
    qed simp
  qed
  moreover have "sum_list (map op_weight ops) \<le> 2 * length ops" for ops
  proof (induction ops)
    case (Cons op ops)
    then show ?case by (cases op) auto
  qed simp
  ultimately show ?thesis using assms(2) le_trans by blast
qed


theorem processOps_returns_witness:
  "processOps 4 (sample_env (\<lambda>n. [SendErr]) (\<lambda>n m. [])) (sample_world [([1], sample_conn)] [DisconnectOp [1], sample_login]) = Fault \<or>
   (\<exists>w. processOps 4 (sample_env (\<lambda>n. [SendErr]) (\<lambda>n m. [])) (sample_world [([1], sample_conn)] [DisconnectOp [1], sample_login]) =
      Done w \<and> s_ops w = [])"
proof -
  have "silent (sample_env (\<lambda>n. [SendErr]) (\<lambda>n m. []))" by (simp add: silent_def tcp_send_def)
  from processOps_returns [OF this, of "sample_world [([1], sample_conn)] [DisconnectOp [1], sample_login]" 4]
  show ?thesis by simp
qed

text \<open>
  A login that the application asks for in its logout callback is lost. After its own disconnect the new
  operation meets the old connection, which is deleted only after it, and is dropped without an event. After
  a connection that the server closed it opens a second one and sends the login, and then the
  deletion that was meant for the first takes this one away, with its socket open and again without an event.
\<close>

theorem relogin_lost:
  assumes "findConn cid w = Some c" "k_cid c = cid" "k_status c = STATUS_LOGGED_IN" "s_ops w = []"
    "e_app e (length (s_events w)) = (\<lambda>m. [LoginOp cid ip port ver kp])"
    "e_connect e (s_connects w) ip port \<noteq> INVALID_FD" "e_send e (s_sends w) = SendSome n # rs"
    "length (sdk_constructPacket LOGIN_REQ (e_login_req e (sdk_login_request cid ver))) \<le> Suc n"
    "sdk_onDisconnect e GIM_NETWORK_ERROR c w = (c1, w1)" "k_fd c \<noteq> INVALID_FD"
  shows "(\<exists>w'. processOps 3 e (asynAddOp (DisconnectOp cid) w) = Done w' \<and> findConn cid w' = None \<and>
      s_connects w' = s_connects w \<and> length (s_events w') = Suc (length (s_events w))) \<and>
    (\<exists>w'. processOps 2 e (snd (delConn cid (put_conn cid c1 w1))) = Done w' \<and> findConn cid w' = None \<and>
      length (s_events w') = Suc (length (s_events w)) \<and> s_closed w' = s_closed w @ [k_fd c] \<and>
      s_wire w' = s_wire w @ [(e_connect e (s_connects w) ip port,
        sdk_constructPacket LOGIN_REQ (e_login_req e (sdk_login_request cid ver)))])"
proof -
  let ?op = "LoginOp cid ip port ver kp"
  define m where "m code = e_json e (json_of [(''cid'', stringValue cid), (''evtype'', intValue GIM_EVTYPE_LOGOUT),
    (''code'', intValue code)])" for code
  have disc: "sdk_onDisconnect e code c v = (c\<lparr>k_fd := INVALID_FD, k_status := STATUS_DISCONNECT, k_code := code\<rparr>,
      v\<lparr>s_closed := s_closed v @ [k_fd c], s_events := s_events w @ [m code], s_ops := s_ops v @ [?op, DelConnOp cid]\<rparr>)"
    if "s_events v = s_events w" for v code
    using assms(2,3,5,10) that
    by (simp add: sdk_onDisconnect_def closefd_def setStatus_def status_event_def publish_def asynAddOp_def sdk_status m_def Let_def)
  have put: "s_ops (put_conn a b v) = s_ops v" "put_conn a b v\<lparr>s_ops := x\<rparr> = put_conn a b (v\<lparr>s_ops := x\<rparr>)" for a b v x
    by (simp_all add: put_conn_def)
  have del: "processOps (Suc n) e v = processOps n e (snd (delConn a (v\<lparr>s_ops := ops\<rparr>)))" if "s_ops v = DelConnOp a # ops" for v a ops n
    by (simp add: processOps_Cons [OF that] split_beta)
  have deld: "findConn a (snd (delConn a v)) = None" "s_ops (snd (delConn a v)) = s_ops v"
    "s_connects (snd (delConn a v)) = s_connects v" "s_events (snd (delConn a v)) = s_events v"
    "s_closed (snd (delConn a v)) = s_closed v" "s_wire (snd (delConn a v)) = s_wire v" "s_sends (snd (delConn a v)) = s_sends v" for a v
    by (simp_all add: delConn_def findConn_def)
  show ?thesis
  proof (intro conjI)
    let ?c = "c\<lparr>k_fd := INVALID_FD, k_status := STATUS_DISCONNECT, k_code := 0\<rparr>"
    let ?v = "put_conn cid ?c (w\<lparr>s_closed := s_closed w @ [k_fd c], s_events := s_events w @ [m 0], s_ops := [?op, DelConnOp cid]\<rparr>)"
    have "findConn cid (w\<lparr>s_ops := []\<rparr>) = Some c" using assms(1) by (simp add: findConn_def)
    then have "process_op e (DisconnectOp cid) (asynAddOp (DisconnectOp cid) w\<lparr>s_ops := []\<rparr>) = Done (0, False, ?v)"
      using disc [of "w\<lparr>s_ops := []\<rparr>" 0] by (simp add: asynAddOp_def)
    then have "processOps 3 e (asynAddOp (DisconnectOp cid) w) = processOps 2 e ?v"
      using processOps_Cons [of "asynAddOp (DisconnectOp cid) w" "DisconnectOp cid" "[]" 2 e] assms(4)
      by (simp add: asynAddOp_def numeral_3_eq_3 numeral_2_eq_2)
    also have "\<dots> = processOps 1 e (?v\<lparr>s_ops := [DelConnOp cid]\<rparr>)"
      using processOps_Cons [of ?v ?op "[DelConnOp cid]" 1 e] by (simp add: put numeral_2_eq_2)
    also have "\<dots> = Done (snd (delConn cid (?v\<lparr>s_ops := []\<rparr>)))"
      using del [of "?v\<lparr>s_ops := [DelConnOp cid]\<rparr>" cid "[]" 0] by (simp add: put deld)
    finally show "\<exists>w'. processOps 3 e (asynAddOp (DisconnectOp cid) w) = Done w' \<and> findConn cid w' = None \<and>
      s_connects w' = s_connects w \<and> length (s_events w') = Suc (length (s_events w))"
      by (simp add: deld) (simp add: put_conn_def)
  next
    have w1: "w1 = w\<lparr>s_closed := s_closed w @ [k_fd c], s_events := s_events w @ [m GIM_NETWORK_ERROR], s_ops := [?op, DelConnOp cid]\<rparr>"
      using disc [of w GIM_NETWORK_ERROR] assms(4,9) by simp
    let ?v = "snd (delConn cid (put_conn cid c1 w1))"
    let ?v1 = "?v\<lparr>s_ops := [DelConnOp cid]\<rparr>"
    have none: "findConn cid ?v1 = None" by (simp add: delConn_def findConn_def)
    have v1: "s_connects ?v1 = s_connects w" "s_sends ?v1 = s_sends w" "s_wire ?v1 = s_wire w"
      "s_closed ?v1 = s_closed w @ [k_fd c]" "length (s_events ?v1) = Suc (length (s_events w))" "s_ops ?v = [?op, DelConnOp cid]"
      by (simp_all add: deld) (simp_all add: put_conn_def w1)
    obtain d v2 where p: "process_op e ?op ?v1 = Done (0, True, put_conn cid d v2)"
      and v2: "s_ops v2 = [DelConnOp cid]" "s_closed v2 = s_closed ?v1" "s_events v2 = s_events ?v1"
        "s_wire v2 = s_wire w @ [(e_connect e (s_connects w) ip port,
          sdk_constructPacket LOGIN_REQ (e_login_req e (sdk_login_request cid ver)))]"
      using login_processed [OF none refl, of e ip port n rs ver kp] assms(6-8) v1(1-3) by auto
    have "processOps 2 e ?v = processOps 1 e (put_conn cid (sdk_addTimer (getSN ?op) ?op d (put_conn cid d v2)) (put_conn cid d v2))"
      using processOps_Cons [OF v1(6), of 1 e] p by (simp add: numeral_2_eq_2 keep_op_def del: process_op.simps)
    also have "\<dots> = Done (snd (delConn cid (put_conn cid (sdk_addTimer (getSN ?op) ?op d (put_conn cid d v2))
        (put_conn cid d (v2\<lparr>s_ops := []\<rparr>)))))"
      using del [of "put_conn cid (sdk_addTimer (getSN ?op) ?op d (put_conn cid d v2)) (put_conn cid d v2)" cid "[]" 0] v2(1)
      by (simp add: put deld)
    finally show "\<exists>w'. processOps 2 e ?v = Done w' \<and> findConn cid w' = None \<and>
      length (s_events w') = Suc (length (s_events w)) \<and> s_closed w' = s_closed w @ [k_fd c] \<and>
      s_wire w' = s_wire w @ [(e_connect e (s_connects w) ip port,
        sdk_constructPacket LOGIN_REQ (e_login_req e (sdk_login_request cid ver)))]"
      using v2(2-4) v1(4,5) by (simp add: deld) (simp add: put_conn_def)
  qed
qed

theorem relogin_lost_witness:
  "\<exists>w'. processOps 3 (sample_env (\<lambda>n. [SendSome 100]) (\<lambda>n m. [sample_login]))
      (asynAddOp (DisconnectOp [1]) (sample_world [([1], sample_conn)] [])) = Done w' \<and> findConn [1] w' = None"
proof -
  let ?e = "sample_env (\<lambda>n. [SendSome 100]) (\<lambda>n m. [sample_login])" and ?w = "sample_world [([1], sample_conn)] []"
  obtain c1 w1 where d: "sdk_onDisconnect ?e GIM_NETWORK_ERROR sample_conn ?w = (c1, w1)" by fastforce
  have "e_app ?e (length (s_events ?w)) = (\<lambda>m. [LoginOp [1] [] 80 [] 60])" by (simp add: sample_login_def)
  from relogin_lost [OF _ _ _ _ this _ _ _ d, where n = 100 and rs = "[]"] show ?thesis
    by (auto simp: findConn_def sample_conn_def INVALID_FD_def sizeof_head_def sdk_login_request_def)
qed

text \<open>
  A server can end the client's process: by a packet whose length is below that of a head, for which the body is
  resized to a huge size, or by refusing the login twice in what is read at once, for which the
  last address is taken off an empty list.
\<close>

theorem hostile_server_faults:
  assumes "rb_inv (k_buf c)" "k_fd c \<noteq> INVALID_FD" "recv_rounds rss (k_buf c) = Done (0, b)"
    "sizeof_head \<le> rb_size b \<and> sint (htonl (load_le (drop 4 (rb_data b)))) < int sizeof_head \<or>
     rb_data b = packets_bytes [(LOGIN_RESP, r1), (LOGIN_RESP, r2)] \<and> sendable (LOGIN_RESP, r1) \<and> sendable (LOGIN_RESP, r2) \<and>
       e_login_resp e r1 = Some a1 \<and> lr_status a1 < 0 \<and> e_login_resp e r2 = Some a2 \<and> lr_status a2 < 0 \<and>
       length (k_svrlist c) = 1"
  shows "sdk_handleRead e rss c w = Fault"
  using assms(4)
proof
  assume short: "sizeof_head \<le> rb_size b \<and> sint (htonl (load_le (drop 4 (rb_data b)))) < int sizeof_head"
  have inv: "rb_inv b" using recv_rounds_data [OF assms(3,1)] by simp
  let ?c = "c\<lparr>k_active_time := gettime_ms (s_now w), k_buf := b\<rparr>"
  have "load_head (rb_peek b sizeof_head) = load_head (rb_data b)" by (rule rb_head [OF inv])
  moreover have "length (rb_peek b sizeof_head) = sizeof_head" using inv short by (simp add: rb_peek_data)
  ultimately have "sdk_packets (Suc (rb_size b)) e ?c w = Fault"
    using short by (simp add: Let_def load_head_def)
  then show ?thesis using assms(2,3) by (simp add: sdk_handleRead_def Let_def del: sdk_packets.simps)
next
  assume two: "rb_data b = packets_bytes [(LOGIN_RESP, r1), (LOGIN_RESP, r2)] \<and> sendable (LOGIN_RESP, r1) \<and> sendable (LOGIN_RESP, r2) \<and>
       e_login_resp e r1 = Some a1 \<and> lr_status a1 < 0 \<and> e_login_resp e r2 = Some a2 \<and> lr_status a2 < 0 \<and>
       length (k_svrlist c) = 1"
  have ps: "rb_data b = packets_bytes [(LOGIN_RESP, r1), (LOGIN_RESP, r2)] @ []"
    "list_all sendable [(LOGIN_RESP, r1), (LOGIN_RESP, r2)]" "incomplete []"
    using two by (simp_all add: incomplete_def sizeof_head_def)
  have svr: "k_svrlist (popTimer i d) = k_svrlist d" for i d by (simp add: popTimer_def)
  have first: "\<exists>d v. sdk_handlePacket e LOGIN_RESP r1 g w = Done (d, v) \<and> k_svrlist d = []" if "length (k_svrlist g) = 1" for g w
  proof -
    obtain x where "k_svrlist g = [x]" using \<open>length (k_svrlist g) = 1\<close> by (cases "k_svrlist g") auto
    moreover have "OnLoginFail e code h v = (h', v') \<Longrightarrow> k_svrlist h' = k_svrlist h" for code h v h' v'
      by (auto simp: OnLoginFail_def closefd_def setStatus_def split_beta Let_def)
    moreover obtain d v where "OnLoginFail e (lr_status a1) (popTimer (bytes_of ''Login'') g\<lparr>k_svrlist := []\<rparr>) w = (d, v)"
      by fastforce
    ultimately show ?thesis using two
      by (auto simp: sdk_handlePacket_def handleLoginResponse_def svr Let_def simp del: bytes_of_simps)
  qed
  have second: "sdk_handlePacket e LOGIN_RESP r2 g w = Fault" if "k_svrlist g = []" for g w
    using that two by (simp add: sdk_handlePacket_def handleLoginResponse_def svr Let_def del: bytes_of_simps)
  have "k_svrlist (skip_packet r g) = k_svrlist g" for r g by (simp add: skip_packet_def)
  then have "deliver e [(LOGIN_RESP, r1), (LOGIN_RESP, r2)] g w = Fault" if "length (k_svrlist g) = 1" for g w
    using first [of "skip_packet r1 g" w] second that by auto
  then show ?thesis using handleRead_packets(1) [OF assms(1-3) ps, of e w] two by simp
qed


theorem hostile_server_faults_witness:
  "sdk_handleRead (sample_env (\<lambda>n. []) (\<lambda>n m. [])) [[RecvData (replicate 12 0), RecvAgain], [RecvAgain]]
      sample_conn (sample_world [] []) = Fault \<and>
   sdk_handleRead (sample_env (\<lambda>n. []) (\<lambda>n m. [])) [[RecvData (packets_bytes [(LOGIN_RESP, []), (LOGIN_RESP, [])]), RecvAgain], [RecvAgain]]
      sample_conn (sample_world [] []) = Fault"
proof -
  let ?e = "sample_env (\<lambda>n. []) (\<lambda>n m. [])"
  have c: "rb_inv (k_buf sample_conn)" "k_fd sample_conn \<noteq> INVALID_FD" "k_buf sample_conn = ring_new 64"
    by (simp_all add: sample_conn_def rb_inv_new INVALID_FD_def)
  obtain b where b: "recv_rounds [[RecvData (replicate 12 0), RecvAgain], [RecvAgain]] (k_buf sample_conn) = Done (0, b)"
    "rb_data b = replicate 12 0"
    using recv_once [OF c(1), of "replicate 12 0"] by (auto simp: c(3) rb_inv_new(2))
  obtain b' where b': "recv_rounds [[RecvData (packets_bytes [(LOGIN_RESP, []), (LOGIN_RESP, [])]), RecvAgain], [RecvAgain]] (k_buf sample_conn) = Done (0, b')"
    "rb_data b' = packets_bytes [(LOGIN_RESP, []), (LOGIN_RESP, [])]"
    using recv_once [OF c(1), of "packets_bytes [(LOGIN_RESP, []), (LOGIN_RESP, [])]"]
    by (auto simp: c(3) rb_inv_new(2) packets_bytes_def sizeof_head_def)
  have "rb_size b = 12" using b(2) length_rb_data [of b] by simp
  then have short: "sizeof_head \<le> rb_size b \<and> sint (htonl (load_le (drop 4 (rb_data b)))) < int sizeof_head"
    using b(2) by (simp add: sizeof_head_def) code_simp
  have refused: "e_login_resp ?e [] = Some \<lparr>lr_status = -1, lr_sessid = []\<rparr>" by (simp add: sample_env_def)
  have "sendable (LOGIN_RESP, [])" by (simp add: sendable_def sizeof_head_def LOGIN_RESP_def LOGIN_REQ_def)
  with refused hostile_server_faults [OF c(1,2) b(1) disjI1 [OF short], of ?e "sample_world [] []"]
    hostile_server_faults [OF c(1,2) b'(1), of "[]" "[]" ?e "\<lparr>lr_status = -1, lr_sessid = []\<rparr>" "\<lparr>lr_status = -1, lr_sessid = []\<rparr>"
      "sample_world [] []"] b'(2)
  show ?thesis by (simp add: sample_conn_def)
qed

text \<open>
  A login whose send fails ends the process. The failed send closes the socket but queues no deletion, so the
  connection is still in the table, without a socket, when the same round asks \<^verbatim>\<open>FD_ISSET\<close> for
  its socket's number.
\<close>

theorem failed_login_faults:
  assumes "s_conns w = []" "s_ops w = [LoginOp cid ip port ver kp]" "e_send e (s_sends w) = SendErr # rs"
    "e_connect e (s_connects w) ip port \<noteq> INVALID_FD"
  shows "after_select 1 e scr (SelReady True fds) w = Fault"
proof -
  let ?op = "LoginOp cid ip port ver kp"
  have none: "findConn cid (w\<lparr>s_ops := []\<rparr>) = None" using assms(1) by (simp add: findConn_def)
  obtain c v where p: "process_op e ?op (w\<lparr>s_ops := []\<rparr>) = Done (-1, False, put_conn cid c v)"
    and c: "k_fd c = INVALID_FD" "s_conns v = []" "s_ops v = []"
    using assms none
    by (simp add: connectAndLogin_def connectServer_def sdk_login_def setStatus_def sendPacket_def send_msg_def tcp_send_def
        closefd_def sdk_status CliConn_new_def Let_def)
  have "processOps 1 e w = Done (put_conn cid c v)"
    using processOps_Cons [OF assms(2), of 0 e] p c(3) by (simp add: put_conn_def del: process_op.simps)
  moreover have "map fst (s_conns (put_conn cid c v)) = [cid]" using c(2) by (simp add: put_conn_def)
  ultimately show ?thesis using c(1) by (simp add: after_select_def INVALID_FD_def)
qed

theorem failed_login_faults_witness:
  "after_select 1 (sample_env (\<lambda>n. [SendErr]) (\<lambda>n m. [])) (\<lambda>fd. []) (SelReady True [3]) (sample_world [] [sample_login]) = Fault"
  by (rule failed_login_faults) (simp_all add: sample_login_def INVALID_FD_def)

text \<open>
  A connection can end without a word. If the answer to a push cannot be sent, the socket is closed, the status stays
  logged in, and the next round's pass over the timers drops the connection: the application has seen the
  push and no logout.
\<close>

theorem lost_answer_ends_silently:
  assumes "s_conns w = [(cid, c)]" "k_fd c \<noteq> INVALID_FD" "e_push_req e body = Some q" "e_send e (s_sends w) = SendErr # rs"
  shows "\<exists>c' w' w''. sdk_handlePacket e PUSH_REQ body c w = Done (c', w') \<and> k_status c' = k_status c \<and>
    loop_processTimers e tv (put_conn cid c' w') = Done (tv, w'') \<and> s_conns w'' = [] \<and>
    s_events w'' = s_events w @ [e_json e (push_event c q)] \<and>
    s_ops w'' = s_ops w @ e_app e (length (s_events w)) (e_json e (push_event c q))"
proof -
  let ?m = "e_json e (push_event c q)"
  let ?v = "publish e ?m w"
  let ?w = "?v\<lparr>s_sends := s_sends w + 1, s_wire := s_wire w @ [(k_fd c, [])], s_closed := s_closed w @ [k_fd c]\<rparr>"
  have p: "sdk_handlePacket e PUSH_REQ body c w = Done (c\<lparr>k_fd := INVALID_FD\<rparr>, ?w)"
    using assms(2-4)
    by (simp add: sdk_handlePacket_def handleServiceRequest_def sendPacket_def send_msg_def tcp_send_def closefd_def publish_def
        LOGIN_RESP_def LOGIN_REQ_def PUSH_REQ_def Let_def)
  have "s_conns (put_conn cid (c\<lparr>k_fd := INVALID_FD\<rparr>) ?w) = [(cid, c\<lparr>k_fd := INVALID_FD\<rparr>)]"
    using assms(1) by (simp add: put_conn_def publish_def)
  then have "loop_processTimers e tv (put_conn cid (c\<lparr>k_fd := INVALID_FD\<rparr>) ?w) =
      Done (tv, put_conn cid (c\<lparr>k_fd := INVALID_FD\<rparr>) ?w\<lparr>s_conns := []\<rparr>)"
    by (simp add: loop_processTimers_def map_erase_def)
  with p show ?thesis by (simp add: put_conn_def publish_def)
qed


theorem lost_answer_ends_silently_witness:
  "\<exists>c' w' w''. sdk_handlePacket (sample_env (\<lambda>n. [SendErr]) (\<lambda>n m. [])) PUSH_REQ [4] sample_conn (sample_world [([1], sample_conn)] []) =
      Done (c', w') \<and> k_status c' = STATUS_LOGGED_IN \<and>
    loop_processTimers (sample_env (\<lambda>n. [SendErr]) (\<lambda>n m. [])) c_tvmax (put_conn [1] c' w') = Done (c_tvmax, w'') \<and>
    s_conns w'' = [] \<and> length (s_events w'') = 1"
proof -
  let ?e = "sample_env (\<lambda>n. [SendErr]) (\<lambda>n m. [])"
  obtain q where "e_push_req ?e [4] = Some q" by (simp add: sample_env_def)
  from lost_answer_ends_silently [of "sample_world [([1], sample_conn)] []" "[1]" sample_conn, OF _ _ this] show ?thesis
    by (fastforce simp: sample_conn_def INVALID_FD_def)
qed

end
