(* ===== verification/Rijndael.thy ===== *)
theory Rijndael
  imports AesTables
begin

text \<open>
  The block cipher of \<^verbatim>\<open>efnfw/base/rijndael-alg-fst.cpp\<close> (without \<^verbatim>\<open>FULL_UNROLL\<close>): key schedules for 128, 192 and 256 bits, the
  table-driven rounds on a state of four words, and the theorem that decryption undoes encryption. The round
  keys are a list of words; the moving pointer \<open>rk\<close> is an offset into it.
\<close>

unbundle bit_operations_syntax

subsection \<open>Bytes and words\<close>

definition GETU32 :: "bytes \<Rightarrow> nat \<Rightarrow> u32" where
  "GETU32 pt i = push_bit 24 (ucast (pt ! i)) XOR push_bit 16 (ucast (pt ! (i + 1))) XOR
     push_bit 8 (ucast (pt ! (i + 2))) XOR ucast (pt ! (i + 3))"

definition PUTU32 :: "u32 \<Rightarrow> bytes" where
  "PUTU32 st = [ucast (drop_bit 24 st), ucast (drop_bit 16 st), ucast (drop_bit 8 st), ucast st]"

subsection \<open>Key schedules\<close>

text \<open>The word that starts a new key: the last one rotated and substituted; without the rotation in between for 256 bits.\<close>

definition key_core :: "u32 \<Rightarrow> u32" where
  "key_core temp =
     (Te4 ! unat (drop_bit 16 temp AND 0xff) AND 0xff000000) XOR
     (Te4 ! unat (drop_bit 8 temp AND 0xff) AND 0x00ff0000) XOR
     (Te4 ! unat (temp AND 0xff) AND 0x0000ff00) XOR
     (Te4 ! unat (drop_bit 24 temp) AND 0x000000ff)"

definition key_sub :: "u32 \<Rightarrow> u32" where
  "key_sub temp =
     (Te4 ! unat (drop_bit 24 temp) AND 0xff000000) XOR
     (Te4 ! unat (drop_bit 16 temp AND 0xff) AND 0x00ff0000) XOR
     (Te4 ! unat (drop_bit 8 temp AND 0xff) AND 0x0000ff00) XOR
     (Te4 ! unat (temp AND 0xff) AND 0x000000ff)"

text \<open>One turn of each of the three loops, for \<open>i\<close> before \<^verbatim>\<open>++i\<close>; the last turn of two of them stops half-way.\<close>

definition expand128 :: "nat \<Rightarrow> u32 list \<Rightarrow> u32 list" where
  "expand128 i rk =
     (let o4 = 4 * i;
          r4 = rk ! o4 XOR key_core (rk ! (o4 + 3)) XOR rcon ! i;
          r5 = rk ! (o4 + 1) XOR r4;
          r6 = rk ! (o4 + 2) XOR r5;
          r7 = rk ! (o4 + 3) XOR r6
      in rk @ [r4, r5, r6, r7])"

definition expand192 :: "nat \<Rightarrow> u32 list \<Rightarrow> u32 list" where
  "expand192 i rk =
     (let o6 = 6 * i;
          r6 = rk ! o6 XOR key_core (rk ! (o6 + 5)) XOR rcon ! i;
          r7 = rk ! (o6 + 1) XOR r6;
          r8 = rk ! (o6 + 2) XOR r7;
          r9 = rk ! (o6 + 3) XOR r8
      in if i + 1 = 8 then rk @ [r6, r7, r8, r9]
         else let r10 = rk ! (o6 + 4) XOR r9; r11 = rk ! (o6 + 5) XOR r10
              in rk @ [r6, r7, r8, r9, r10, r11])"

definition expand256 :: "nat \<Rightarrow> u32 list \<Rightarrow> u32 list" where
  "expand256 i rk =
     (let o8 = 8 * i;
          r8 = rk ! o8 XOR key_core (rk ! (o8 + 7)) XOR rcon ! i;
          r9 = rk ! (o8 + 1) XOR r8;
          r10 = rk ! (o8 + 2) XOR r9;
          r11 = rk ! (o8 + 3) XOR r10
      in if i + 1 = 7 then rk @ [r8, r9, r10, r11]
         else let r12 = rk ! (o8 + 4) XOR key_sub r11;
                  r13 = rk ! (o8 + 5) XOR r12;
                  r14 = rk ! (o8 + 6) XOR r13;
                  r15 = rk ! (o8 + 7) XOR r14
              in rk @ [r8, r9, r10, r11, r12, r13, r14, r15])"

definition rijndaelKeySetupEnc :: "bytes \<Rightarrow> nat \<Rightarrow> nat \<times> u32 list" where
  "rijndaelKeySetupEnc cipherKey keyBits =
     (let rk = [GETU32 cipherKey 0, GETU32 cipherKey 4, GETU32 cipherKey 8, GETU32 cipherKey 12]
      in if keyBits = 128 then (10, fold expand128 [0..<10] rk)
         else
           let rk = rk @ [GETU32 cipherKey 16, GETU32 cipherKey 20]
           in if keyBits = 192 then (12, fold expand192 [0..<8] rk)
              else
                let rk = rk @ [GETU32 cipherKey 24, GETU32 cipherKey 28]
                in if keyBits = 256 then (14, fold expand256 [0..<7] rk) else (0, rk))"

text \<open>For decryption the round keys come in the other order, and the inner ones through the inverse MixColumns.\<close>

definition swap_words :: "nat \<Rightarrow> nat \<Rightarrow> u32 list \<Rightarrow> u32 list" where
  "swap_words i j rk = (let temp = rk ! i; rk = rk[i := rk ! j] in rk[j := temp])"

function swap_keys :: "nat \<Rightarrow> nat \<Rightarrow> u32 list \<Rightarrow> u32 list" where
  "swap_keys i j rk =
     (if i < j then
        swap_keys (i + 4) (j - 4)
          (swap_words (i + 3) (j + 3) (swap_words (i + 2) (j + 2) (swap_words (i + 1) (j + 1) (swap_words i j rk))))
      else rk)"
  by pat_completeness auto
termination by (relation "measure (\<lambda>(i, j, rk). j)") auto

declare swap_keys.simps [simp del]

definition inv_mix_word :: "u32 \<Rightarrow> u32" where
  "inv_mix_word w =
     Td0 ! unat (Te4 ! unat (drop_bit 24 w) AND 0xff) XOR
     Td1 ! unat (Te4 ! unat (drop_bit 16 w AND 0xff) AND 0xff) XOR
     Td2 ! unat (Te4 ! unat (drop_bit 8 w AND 0xff) AND 0xff) XOR
     Td3 ! unat (Te4 ! unat (w AND 0xff) AND 0xff)"

definition mix_key :: "nat \<Rightarrow> u32 list \<Rightarrow> u32 list" where
  "mix_key i rk =
     (let o4 = 4 * i;
          rk = rk[o4 := inv_mix_word (rk ! o4)];
          rk = rk[o4 + 1 := inv_mix_word (rk ! (o4 + 1))];
          rk = rk[o4 + 2 := inv_mix_word (rk ! (o4 + 2))]
      in rk[o4 + 3 := inv_mix_word (rk ! (o4 + 3))])"

definition rijndaelKeySetupDec :: "bytes \<Rightarrow> nat \<Rightarrow> nat \<times> u32 list" where
  "rijndaelKeySetupDec cipherKey keyBits =
     (let (Nr, rk) = rijndaelKeySetupEnc cipherKey keyBits
      in (Nr, fold mix_key [1..<Nr] (swap_keys 0 (4 * Nr) rk)))"

subsection \<open>Encryption and decryption of a block\<close>

type_synonym aes_state = "u32 \<times> u32 \<times> u32 \<times> u32"

definition enc_word :: "u32 \<Rightarrow> u32 \<Rightarrow> u32 \<Rightarrow> u32 \<Rightarrow> u32 \<Rightarrow> u32" where
  "enc_word a b c d k =
     Te0 ! unat (drop_bit 24 a) XOR Te1 ! unat (drop_bit 16 b AND 0xff) XOR
     Te2 ! unat (drop_bit 8 c AND 0xff) XOR Te3 ! unat (d AND 0xff) XOR k"

fun enc_round :: "u32 list \<Rightarrow> nat \<Rightarrow> aes_state \<Rightarrow> aes_state" where
  "enc_round rk p (s0, s1, s2, s3) =
     (enc_word s0 s1 s2 s3 (rk ! p), enc_word s1 s2 s3 s0 (rk ! (p + 1)),
      enc_word s2 s3 s0 s1 (rk ! (p + 2)), enc_word s3 s0 s1 s2 (rk ! (p + 3)))"

text \<open>The loop with its two rounds a turn; \<open>r\<close> is half of \<open>Nr\<close>, which is 10, 12 or 14.\<close>

fun enc_loop :: "nat \<Rightarrow> u32 list \<Rightarrow> nat \<Rightarrow> aes_state \<Rightarrow> aes_state \<times> nat" where
  "enc_loop 0 rk p s = (s, p)"
| "enc_loop (Suc r) rk p s =
     (let t = enc_round rk (p + 4) s; p = p + 8
      in if r = 0 then (t, p) else enc_loop r rk p (enc_round rk p t))"

definition enc_last :: "u32 \<Rightarrow> u32 \<Rightarrow> u32 \<Rightarrow> u32 \<Rightarrow> u32 \<Rightarrow> u32" where
  "enc_last a b c d k =
     (Te4 ! unat (drop_bit 24 a) AND 0xff000000) XOR (Te4 ! unat (drop_bit 16 b AND 0xff) AND 0x00ff0000) XOR
     (Te4 ! unat (drop_bit 8 c AND 0xff) AND 0x0000ff00) XOR (Te4 ! unat (d AND 0xff) AND 0x000000ff) XOR k"

definition load_block :: "u32 list \<Rightarrow> bytes \<Rightarrow> aes_state" where
  "load_block rk pt = (GETU32 pt 0 XOR rk ! 0, GETU32 pt 4 XOR rk ! 1, GETU32 pt 8 XOR rk ! 2, GETU32 pt 12 XOR rk ! 3)"

definition rijndaelEncrypt :: "u32 list \<Rightarrow> nat \<Rightarrow> bytes \<Rightarrow> bytes" where
  "rijndaelEncrypt rk Nr pt =
     (let ((t0, t1, t2, t3), p) = enc_loop (Nr div 2) rk 0 (load_block rk pt)
      in PUTU32 (enc_last t0 t1 t2 t3 (rk ! p)) @ PUTU32 (enc_last t1 t2 t3 t0 (rk ! (p + 1))) @
         PUTU32 (enc_last t2 t3 t0 t1 (rk ! (p + 2))) @ PUTU32 (enc_last t3 t0 t1 t2 (rk ! (p + 3))))"

definition dec_word :: "u32 \<Rightarrow> u32 \<Rightarrow> u32 \<Rightarrow> u32 \<Rightarrow> u32 \<Rightarrow> u32" where
  "dec_word a b c d k =
     Td0 ! unat (drop_bit 24 a) XOR Td1 ! unat (drop_bit 16 b AND 0xff) XOR
     Td2 ! unat (drop_bit 8 c AND 0xff) XOR Td3 ! unat (d AND 0xff) XOR k"

fun dec_round :: "u32 list \<Rightarrow> nat \<Rightarrow> aes_state \<Rightarrow> aes_state" where
  "dec_round rk p (s0, s1, s2, s3) =
     (dec_word s0 s3 s2 s1 (rk ! p), dec_word s1 s0 s3 s2 (rk ! (p + 1)),
      dec_word s2 s1 s0 s3 (rk ! (p + 2)), dec_word s3 s2 s1 s0 (rk ! (p + 3)))"

fun dec_loop :: "nat \<Rightarrow> u32 list \<Rightarrow> nat \<Rightarrow> aes_state \<Rightarrow> aes_state \<times> nat" where
  "dec_loop 0 rk p s = (s, p)"
| "dec_loop (Suc r) rk p s =
     (let t = dec_round rk (p + 4) s; p = p + 8
      in if r = 0 then (t, p) else dec_loop r rk p (dec_round rk p t))"

definition dec_last :: "u32 \<Rightarrow> u32 \<Rightarrow> u32 \<Rightarrow> u32 \<Rightarrow> u32 \<Rightarrow> u32" where
  "dec_last a b c d k =
     (Td4 ! unat (drop_bit 24 a) AND 0xff000000) XOR (Td4 ! unat (drop_bit 16 b AND 0xff) AND 0x00ff0000) XOR
     (Td4 ! unat (drop_bit 8 c AND 0xff) AND 0x0000ff00) XOR (Td4 ! unat (d AND 0xff) AND 0x000000ff) XOR k"

definition rijndaelDecrypt :: "u32 list \<Rightarrow> nat \<Rightarrow> bytes \<Rightarrow> bytes" where
  "rijndaelDecrypt rk Nr ct =
     (let ((t0, t1, t2, t3), p) = dec_loop (Nr div 2) rk 0 (load_block rk ct)
      in PUTU32 (dec_last t0 t3 t2 t1 (rk ! p)) @ PUTU32 (dec_last t1 t0 t3 t2 (rk ! (p + 1))) @
         PUTU32 (dec_last t2 t1 t0 t3 (rk ! (p + 2))) @ PUTU32 (dec_last t3 t2 t1 t0 (rk ! (p + 3))))"


subsection \<open>The words of a state\<close>

text \<open>A round substitutes the bytes and shifts the rows, mixes the columns, and adds the key.\<close>

fun sub_shift :: "aes_state \<Rightarrow> aes_state" where
  "sub_shift (s0, s1, s2, s3) =
     (pack (byte_S (bt 3 s0)) (byte_S (bt 2 s1)) (byte_S (bt 1 s2)) (byte_S (bt 0 s3)),
      pack (byte_S (bt 3 s1)) (byte_S (bt 2 s2)) (byte_S (bt 1 s3)) (byte_S (bt 0 s0)),
      pack (byte_S (bt 3 s2)) (byte_S (bt 2 s3)) (byte_S (bt 1 s0)) (byte_S (bt 0 s1)),
      pack (byte_S (bt 3 s3)) (byte_S (bt 2 s0)) (byte_S (bt 1 s1)) (byte_S (bt 0 s2)))"

fun inv_sub_shift :: "aes_state \<Rightarrow> aes_state" where
  "inv_sub_shift (s0, s1, s2, s3) =
     (pack (byte_Si (bt 3 s0)) (byte_Si (bt 2 s3)) (byte_Si (bt 1 s2)) (byte_Si (bt 0 s1)),
      pack (byte_Si (bt 3 s1)) (byte_Si (bt 2 s0)) (byte_Si (bt 1 s3)) (byte_Si (bt 0 s2)),
      pack (byte_Si (bt 3 s2)) (byte_Si (bt 2 s1)) (byte_Si (bt 1 s0)) (byte_Si (bt 0 s3)),
      pack (byte_Si (bt 3 s3)) (byte_Si (bt 2 s2)) (byte_Si (bt 1 s1)) (byte_Si (bt 0 s0)))"

definition map_state :: "(u32 \<Rightarrow> u32) \<Rightarrow> aes_state \<Rightarrow> aes_state" where
  "map_state f s = (case s of (s0, s1, s2, s3) \<Rightarrow> (f s0, f s1, f s2, f s3))"

definition add_key :: "aes_state \<Rightarrow> aes_state \<Rightarrow> aes_state" where
  "add_key s k = (case (s, k) of ((s0, s1, s2, s3), (k0, k1, k2, k3)) \<Rightarrow> (s0 XOR k0, s1 XOR k1, s2 XOR k2, s3 XOR k3))"

definition round_key :: "u32 list \<Rightarrow> nat \<Rightarrow> aes_state" where
  "round_key rk n = (rk ! (4 * n), rk ! (4 * n + 1), rk ! (4 * n + 2), rk ! (4 * n + 3))"

lemma inv_sub_shift_sub_shift: "inv_sub_shift (sub_shift s) = s"
  by (cases s) (simp del: One_nat_def)

lemma add_key_twice: "add_key (add_key s k) k = s"
  by (cases s; cases k) (simp add: add_key_def xor.assoc)

lemma inv_mix_state: "map_state inv_mix (map_state mix s) = s"
  by (cases s) (simp add: map_state_def inv_mix_mix)

lemma inv_mix_add_key: "map_state inv_mix (add_key s k) = add_key (map_state inv_mix s) (map_state inv_mix k)"
  by (cases s; cases k) (simp add: map_state_def add_key_def inv_mix_xor)

lemma bt_drop [simp]: "bt 0 (drop_bit 24 w) = bt 3 w" "bt 0 (drop_bit 16 w) = bt 2 w" "bt 0 (drop_bit 8 w) = bt 1 w"
  by (simp_all add: bt_def)

lemma enc_word_mix:
  "enc_word a b c d k = mix (pack (byte_S (bt 3 a)) (byte_S (bt 2 b)) (byte_S (bt 1 c)) (byte_S (bt 0 d))) XOR k"
  by (simp add: enc_word_def index_bytes Te_at mix_def xor.assoc del: One_nat_def)

lemma dec_word_mix:
  "dec_word a b c d k = inv_mix (pack (byte_Si (bt 3 a)) (byte_Si (bt 2 b)) (byte_Si (bt 1 c)) (byte_Si (bt 0 d))) XOR k"
  by (simp add: dec_word_def index_bytes Td_at inv_mix_def xor.assoc del: One_nat_def)

lemma enc_round_eq: "enc_round rk (4 * n) s = add_key (map_state mix (sub_shift s)) (round_key rk n)"
  by (cases s) (simp add: enc_word_mix map_state_def add_key_def round_key_def)

lemma dec_round_eq: "dec_round rk (4 * n) s = add_key (map_state inv_mix (inv_sub_shift s)) (round_key rk n)"
  by (cases s) (simp add: dec_word_mix map_state_def add_key_def round_key_def)

lemma xor_zero_packs:
  "pack a 0 0 0 XOR (pack 0 b 0 0 XOR (pack 0 0 c 0 XOR pack 0 0 0 d)) = pack a b c d"
  "pack a 0 0 0 XOR (pack 0 b 0 0 XOR (pack 0 0 c 0 XOR (pack 0 0 0 d XOR k))) = pack a b c d XOR k"
  by (simp_all add: pack_xor flip: xor.assoc)

lemma enc_last_eq:
  "enc_last a b c d k = pack (byte_S (bt 3 a)) (byte_S (bt 2 b)) (byte_S (bt 1 c)) (byte_S (bt 0 d)) XOR k"
  by (simp add: enc_last_def index_bytes Te_at pack_masks xor_zero_packs xor.assoc del: One_nat_def)

lemma dec_last_eq:
  "dec_last a b c d k = pack (byte_Si (bt 3 a)) (byte_Si (bt 2 b)) (byte_Si (bt 1 c)) (byte_Si (bt 0 d)) XOR k"
  by (simp add: dec_last_def index_bytes Td_at pack_masks xor_zero_packs xor.assoc del: One_nat_def)

lemma unat_pack: "unat (pack 0 0 0 d) = unat d"
  using index_bytes(4) [of "pack 0 0 0 d"] by (simp add: pack_masks)

lemma inv_mix_word_eq: "inv_mix_word w = inv_mix w"
  by (simp add: inv_mix_word_def index_bytes Te_at pack_masks unat_pack Td_at inv_mix_def)


subsection \<open>The loops as sequences of rounds\<close>

fun enc_rounds :: "u32 list \<Rightarrow> nat \<Rightarrow> nat \<Rightarrow> aes_state \<Rightarrow> aes_state" where
  "enc_rounds rk q 0 s = s"
| "enc_rounds rk q (Suc n) s = add_key (map_state mix (sub_shift (enc_rounds rk q n s))) (round_key rk (q + Suc n))"

fun dec_rounds :: "u32 list \<Rightarrow> nat \<Rightarrow> nat \<Rightarrow> aes_state \<Rightarrow> aes_state" where
  "dec_rounds rk q 0 s = s"
| "dec_rounds rk q (Suc n) s = add_key (map_state inv_mix (inv_sub_shift (dec_rounds rk q n s))) (round_key rk (q + Suc n))"

lemma enc_rounds_front:
  "enc_rounds rk q (Suc n) s = enc_rounds rk (Suc q) n (add_key (map_state mix (sub_shift s)) (round_key rk (Suc q)))"
  by (induction n) simp_all

lemma dec_rounds_front:
  "dec_rounds rk q (Suc n) s = dec_rounds rk (Suc q) n (add_key (map_state inv_mix (inv_sub_shift s)) (round_key rk (Suc q)))"
  by (induction n) simp_all

lemma enc_loop_eq: "enc_loop (Suc r) rk (4 * q) s = (enc_rounds rk q (2 * r + 1) s, 4 * (q + 2 * Suc r))"
proof (induction r arbitrary: q s)
  case 0
  have "enc_round rk (4 * q + 4) s = add_key (map_state mix (sub_shift s)) (round_key rk (q + 1))"
    using enc_round_eq [of rk "q + 1" s] by (simp add: add.commute)
  then show ?case by simp
next
  case (Suc r)
  let ?t = "add_key (map_state mix (sub_shift s)) (round_key rk (q + 1))"
  let ?u = "add_key (map_state mix (sub_shift ?t)) (round_key rk (q + 2))"
  have rounds: "enc_round rk (4 * q + 4) s = ?t" "enc_round rk (4 * q + 8) ?t = ?u"
    using enc_round_eq [of rk "q + 1" s] enc_round_eq [of rk "q + 2" ?t] by (simp_all add: add.commute)
  have "enc_loop (Suc (Suc r)) rk (4 * q) s = enc_loop (Suc r) rk (4 * (q + 2)) ?u"
    by (simp only: enc_loop.simps(2) [of "Suc r"] Let_def rounds) simp
  also have "\<dots> = (enc_rounds rk (q + 2) (2 * r + 1) ?u, 4 * (q + 2 * Suc (Suc r)))" by (simp only: Suc.IH) (simp del: enc_rounds.simps dec_rounds.simps)
  also have "enc_rounds rk (q + 2) (2 * r + 1) ?u = enc_rounds rk q (Suc (Suc (2 * r + 1))) s"
    by (simp add: enc_rounds_front del: enc_rounds.simps)
  finally show ?case by simp
qed

lemma dec_loop_eq: "dec_loop (Suc r) rk (4 * q) s = (dec_rounds rk q (2 * r + 1) s, 4 * (q + 2 * Suc r))"
proof (induction r arbitrary: q s)
  case 0
  have "dec_round rk (4 * q + 4) s = add_key (map_state inv_mix (inv_sub_shift s)) (round_key rk (q + 1))"
    using dec_round_eq [of rk "q + 1" s] by (simp add: add.commute)
  then show ?case by simp
next
  case (Suc r)
  let ?t = "add_key (map_state inv_mix (inv_sub_shift s)) (round_key rk (q + 1))"
  let ?u = "add_key (map_state inv_mix (inv_sub_shift ?t)) (round_key rk (q + 2))"
  have rounds: "dec_round rk (4 * q + 4) s = ?t" "dec_round rk (4 * q + 8) ?t = ?u"
    using dec_round_eq [of rk "q + 1" s] dec_round_eq [of rk "q + 2" ?t] by (simp_all add: add.commute)
  have "dec_loop (Suc (Suc r)) rk (4 * q) s = dec_loop (Suc r) rk (4 * (q + 2)) ?u"
    by (simp only: dec_loop.simps(2) [of "Suc r"] Let_def rounds) simp
  also have "\<dots> = (dec_rounds rk (q + 2) (2 * r + 1) ?u, 4 * (q + 2 * Suc (Suc r)))" by (simp only: Suc.IH) (simp del: enc_rounds.simps dec_rounds.simps)
  also have "dec_rounds rk (q + 2) (2 * r + 1) ?u = dec_rounds rk q (Suc (Suc (2 * r + 1))) s"
    by (simp add: dec_rounds_front del: dec_rounds.simps)
  finally show ?case by simp
qed

text \<open>Decryption with keys in the other order, the inner ones mixed, walks back through the rounds.\<close>

lemma dec_rounds_back:
  assumes "\<And>i. 0 < i \<Longrightarrow> i < Nr \<Longrightarrow> round_key dk i = map_state inv_mix (round_key rk (Nr - i))" "n < Nr"
  shows "dec_rounds dk 0 n (sub_shift (enc_rounds rk 0 (Nr - 1) s)) = sub_shift (enc_rounds rk 0 (Nr - 1 - n) s)"
  using assms(2)
proof (induction n)
  case (Suc n)
  obtain m where m: "Nr - 1 - n = Suc m" "Nr - Suc n = Suc m" "Nr - 1 - Suc n = m"
    using Suc.prems by (metis Suc_diff_Suc diff_Suc_eq_diff_pred diff_commute)
  let ?e = "\<lambda>k. enc_rounds rk 0 k s"
  have "dec_rounds dk 0 (Suc n) (sub_shift (?e (Nr - 1))) =
      add_key (map_state inv_mix (?e (Suc m))) (map_state inv_mix (round_key rk (Suc m)))"
    using Suc assms(1) [of "Suc n"] m by (simp add: inv_sub_shift_sub_shift del: enc_rounds.simps)
  also have "\<dots> = map_state inv_mix (add_key (?e (Suc m)) (round_key rk (Suc m)))" by (simp add: inv_mix_add_key)
  also have "\<dots> = sub_shift (?e m)" by (simp add: add_key_twice inv_mix_state)
  finally show ?case by (simp only: m)
qed simp


subsection \<open>Blocks\<close>

definition get_state :: "bytes \<Rightarrow> aes_state" where
  "get_state b = (GETU32 b 0, GETU32 b 4, GETU32 b 8, GETU32 b 12)"

definition put_state :: "aes_state \<Rightarrow> bytes" where
  "put_state s = (case s of (s0, s1, s2, s3) \<Rightarrow> PUTU32 s0 @ PUTU32 s1 @ PUTU32 s2 @ PUTU32 s3)"

lemma PUTU32_bt: "PUTU32 w = [bt 3 w, bt 2 w, bt 1 w, bt 0 w]"
  by (simp add: PUTU32_def bt_def)

lemma GETU32_pack: "GETU32 b i = pack (b ! i) (b ! (i + 1)) (b ! (i + 2)) (b ! (i + 3))"
  by (simp add: GETU32_def pack_def xor.assoc)

lemma get_put_state [simp]: "get_state (put_state s) = s"
  by (cases s) (simp add: get_state_def put_state_def PUTU32_bt GETU32_pack nth_append del: One_nat_def)

lemma length_put_state [simp]: "length (put_state s) = 16"
  by (cases s) (simp add: put_state_def PUTU32_def)

lemma put_get_state:
  assumes "length b = 16"
  shows "put_state (get_state b) = b"
proof -
  have "map ((!) b) [0..<16] = b" using map_nth [of b] assms by simp
  moreover have "[0..<16] = [0, 1, 2, 3, 4, 5, 6, 7, 8, 9, 10, 11, 12, 13, 14, 15 :: nat]" by (simp add: upt_rec)
  ultimately show ?thesis
    by (simp add: get_state_def put_state_def PUTU32_bt GETU32_pack numeral_2_eq_2 [symmetric] del: One_nat_def)
qed

lemma load_block_eq: "load_block rk b = add_key (get_state b) (round_key rk 0)"
  by (simp add: load_block_def get_state_def add_key_def round_key_def eval_nat_numeral)

lemma rijndaelEncrypt_eq:
  assumes "Nr = 2 * Suc r"
  shows "rijndaelEncrypt rk Nr b =
    put_state (add_key (sub_shift (enc_rounds rk 0 (Nr - 1) (load_block rk b))) (round_key rk Nr))"
proof -
  obtain t0 t1 t2 t3 where t: "enc_rounds rk 0 (Nr - 1) (load_block rk b) = (t0, t1, t2, t3)" by (metis prod_cases4)
  have "enc_loop (Nr div 2) rk 0 (load_block rk b) = ((t0, t1, t2, t3), 4 * Nr)"
    using enc_loop_eq [of r rk 0 "load_block rk b"] t assms by simp
  then show ?thesis unfolding rijndaelEncrypt_def t
    by (simp add: enc_last_eq add_key_def put_state_def round_key_def)
qed

lemma rijndaelDecrypt_eq:
  assumes "Nr = 2 * Suc r"
  shows "rijndaelDecrypt rk Nr b =
    put_state (add_key (inv_sub_shift (dec_rounds rk 0 (Nr - 1) (load_block rk b))) (round_key rk Nr))"
proof -
  obtain t0 t1 t2 t3 where t: "dec_rounds rk 0 (Nr - 1) (load_block rk b) = (t0, t1, t2, t3)" by (metis prod_cases4)
  have "dec_loop (Nr div 2) rk 0 (load_block rk b) = ((t0, t1, t2, t3), 4 * Nr)"
    using dec_loop_eq [of r rk 0 "load_block rk b"] t assms by simp
  then show ?thesis unfolding rijndaelDecrypt_def t
    by (simp add: dec_last_eq add_key_def put_state_def round_key_def)
qed

lemma block_inverse:
  assumes "Nr = 2 * Suc r" "length b = 16" "round_key dk 0 = round_key rk Nr" "round_key dk Nr = round_key rk 0"
    "\<And>i. 0 < i \<Longrightarrow> i < Nr \<Longrightarrow> round_key dk i = map_state inv_mix (round_key rk (Nr - i))"
  shows "rijndaelDecrypt dk Nr (rijndaelEncrypt rk Nr b) = b"
proof -
  let ?s = "load_block rk b"
  have "load_block dk (rijndaelEncrypt rk Nr b) = sub_shift (enc_rounds rk 0 (Nr - 1) ?s)"
    by (simp add: load_block_eq [of dk] rijndaelEncrypt_eq [OF assms(1)] assms(3) add_key_twice)
  moreover have "dec_rounds dk 0 (Nr - 1) (sub_shift (enc_rounds rk 0 (Nr - 1) ?s)) = sub_shift ?s"
    using dec_rounds_back [of Nr dk rk "Nr - 1" ?s] assms(1,5) by simp
  ultimately show ?thesis
    by (simp add: rijndaelDecrypt_eq [OF assms(1)] inv_sub_shift_sub_shift assms(4) load_block_eq [of rk] add_key_twice
        put_get_state [OF assms(2)])
qed

subsection \<open>The key schedules\<close>

lemma length_expand128: "length (fold expand128 [0..<n] rk) = length rk + 4 * n"
  by (induction n) (simp_all add: expand128_def Let_def)

lemma length_expand192: "n \<le> 7 \<Longrightarrow> length (fold expand192 [0..<n] rk) = length rk + 6 * n"
  by (induction n) (simp_all add: expand192_def Let_def)

lemma length_expand256: "n \<le> 6 \<Longrightarrow> length (fold expand256 [0..<n] rk) = length rk + 8 * n"
  by (induction n) (simp_all add: expand256_def Let_def)

lemma length_schedule:
  assumes "keyBits \<in> {128, 192, 256}" "rijndaelKeySetupEnc key keyBits = (Nr, rk)"
  shows "length rk = 4 * (Nr + 1)" "\<exists>r. Nr = 2 * Suc r"
proof -
  have last: "[0..<8] = [0..<7] @ [7]" "[0..<7] = [0..<6] @ [6::nat]" by (simp_all add: upt_rec)
  have "length rk = 4 * (Nr + 1) \<and> Nr \<in> {10, 12, 14}"
    using assms
    by (auto simp: rijndaelKeySetupEnc_def Let_def length_expand128 last(1) last(2) length_expand192 length_expand256
        expand192_def expand256_def split: if_splits)
  moreover from this have "Nr = 2 * Suc 4 \<or> Nr = 2 * Suc 5 \<or> Nr = 2 * Suc 6" by auto
  ultimately show "length rk = 4 * (Nr + 1)" "\<exists>r. Nr = 2 * Suc r" by blast+
qed


text \<open>The order of the round keys is turned round.\<close>

lemma nth_swap_words:
  "i < length rk \<Longrightarrow> j < length rk \<Longrightarrow>
    swap_words i j rk ! k = (if k = i then rk ! j else if k = j then rk ! i else rk ! k)"
  by (auto simp: swap_words_def Let_def nth_list_update)

lemma length_swap_words [simp]: "length (swap_words i j rk) = length rk"
  by (simp add: swap_words_def Let_def)

definition swap_nth :: "nat \<Rightarrow> nat \<Rightarrow> nat \<Rightarrow> u32 list \<Rightarrow> u32 list" where
  "swap_nth a b e rk = swap_words (4 * a + e) (4 * b + e) rk"

definition swap_key :: "nat \<Rightarrow> nat \<Rightarrow> u32 list \<Rightarrow> u32 list" where
  "swap_key a b rk = swap_nth a b 3 (swap_nth a b 2 (swap_nth a b 1 (swap_nth a b 0 rk)))"

lemma length_swap_nth [simp]: "length (swap_nth a b e rk) = length rk"
  by (simp add: swap_nth_def)

lemma length_swap_key [simp]: "length (swap_key a b rk) = length rk"
  by (simp add: swap_key_def)

lemma index_eq: "d < 4 \<Longrightarrow> e < 4 \<Longrightarrow> 4 * a + d = 4 * b + e \<longleftrightarrow> a = b \<and> d = (e :: nat)"
  by presburger

lemma nth_swap_nth:
  assumes "4 * a + 3 < length rk" "4 * b + 3 < length rk" "d < 4" "e < 4"
  shows "swap_nth a b e rk ! (4 * k + d) =
    (if d = e then rk ! (4 * (if k = a then b else if k = b then a else k) + d) else rk ! (4 * k + d))"
  using assms by (simp add: swap_nth_def nth_swap_words index_eq)

lemma nth_swap_key:
  assumes "4 * a + 3 < length rk" "4 * b + 3 < length rk" "d < 4"
  shows "swap_key a b rk ! (4 * k + d) = rk ! (4 * (if k = a then b else if k = b then a else k) + d)"
proof -
  consider "d = 0" | "d = 1" | "d = 2" | "d = 3" using assms(3) by linarith
  then show ?thesis
    unfolding swap_key_def by cases (simp_all only: nth_swap_nth assms length_swap_nth, simp_all)
qed

lemma round_key_swap_key:
  assumes "4 * a + 3 < length rk" "4 * b + 3 < length rk"
  shows "round_key (swap_key a b rk) k = round_key rk (if k = a then b else if k = b then a else k)"
proof -
  have "swap_key a b rk ! (4 * k + d) = rk ! (4 * (if k = a then b else if k = b then a else k) + d)"
    if "d < 4" for d using nth_swap_key [OF assms that] .
  from this [of 0] this [of 1] this [of 2] this [of 3] show ?thesis
    unfolding round_key_def by (simp del: One_nat_def)
qed

lemma swap_keys_eq:
  assumes "4 * b + 3 < length rk"
  shows "length (swap_keys (4 * a) (4 * b) rk) = length rk \<and>
    round_key (swap_keys (4 * a) (4 * b) rk) k = (if a \<le> k \<and> k \<le> b then round_key rk (a + b - k) else round_key rk k)"
  using assms
proof (induction b arbitrary: a rk rule: less_induct)
  case (less b)
  show ?case
  proof (cases "a < b")
    case True
    then obtain c where c: "b = Suc c" by (cases b) auto
    have "swap_keys (4 * a) (4 * b) rk = swap_keys (4 * Suc a) (4 * c) (swap_key a b rk)"
      using True c by (subst swap_keys.simps) (simp add: swap_key_def swap_nth_def add.commute)
    moreover have "4 * c + 3 < length (swap_key a b rk)" using less.prems c by simp
    moreover have "round_key (swap_key a b rk) i = round_key rk (if i = a then b else if i = b then a else i)" for i
      using less.prems True by (intro round_key_swap_key) auto
    ultimately show ?thesis
      using less.IH [of c "swap_key a b rk" "Suc a"] c True by auto
  next
    case False
    then have "swap_keys (4 * a) (4 * b) rk = rk" by (subst swap_keys.simps) simp
    moreover have "a + b - k = k" if "a \<le> k" "k \<le> b" using that False by simp
    ultimately show ?thesis by simp
  qed
qed

text \<open>The inner round keys are mixed.\<close>

lemma length_mix_key [simp]: "length (mix_key i rk) = length rk"
  by (simp add: mix_key_def Let_def)

lemma round_key_mix_key:
  assumes "4 * i + 3 < length rk"
  shows "round_key (mix_key i rk) k = (if k = i then map_state inv_mix (round_key rk i) else round_key rk k)"
proof -
  have "4 * k + d \<noteq> 4 * i + e" if "k \<noteq> i" "d < 4" "e < 4" for d e using index_eq [OF that(2,3), of k i] that(1) by simp
  from this [of 0] this [of 1] this [of 2] this [of 3] this show ?thesis
    using assms
    by (auto simp: round_key_def mix_key_def Let_def inv_mix_word_eq map_state_def nth_list_update)
qed

lemma mix_keys_eq:
  "4 * n \<le> length rk \<Longrightarrow> length (fold mix_key [1..<n] rk) = length rk \<and>
    round_key (fold mix_key [1..<n] rk) k =
      (if 0 < k \<and> k < n then map_state inv_mix (round_key rk k) else round_key rk k)"
proof (induction n)
  case (Suc n)
  show ?case
  proof (cases "n = 0")
    case False
    then have "fold mix_key [1..<Suc n] rk = mix_key n (fold mix_key [1..<n] rk)" by simp
    then show ?thesis using Suc False by (auto simp: round_key_mix_key)
  qed auto
qed simp


lemma dec_schedule:
  assumes "keyBits \<in> {128, 192, 256}" "rijndaelKeySetupEnc key keyBits = (Nr, rk)"
    "rijndaelKeySetupDec key keyBits = (Nr', dk)"
  shows "Nr' = Nr" "round_key dk 0 = round_key rk Nr" "round_key dk Nr = round_key rk 0"
    "0 < i \<Longrightarrow> i < Nr \<Longrightarrow> round_key dk i = map_state inv_mix (round_key rk (Nr - i))"
proof -
  let ?sk = "swap_keys 0 (4 * Nr) rk"
  have len: "length rk = 4 * (Nr + 1)" using length_schedule(1) [OF assms(1,2)] .
  then have swap: "length ?sk = 4 * (Nr + 1)" "round_key ?sk k = (if k \<le> Nr then round_key rk (Nr - k) else round_key rk k)" for k
    using swap_keys_eq [of Nr rk 0] by simp_all
  have dk: "Nr' = Nr" "dk = fold mix_key [1..<Nr] ?sk" using assms(2,3) by (auto simp: rijndaelKeySetupDec_def)
  have "round_key dk k = (if 0 < k \<and> k < Nr then map_state inv_mix (round_key ?sk k) else round_key ?sk k)" for k
    unfolding dk(2) using mix_keys_eq [of Nr ?sk k] swap(1) by simp
  then show "Nr' = Nr" "round_key dk 0 = round_key rk Nr" "round_key dk Nr = round_key rk 0"
    "0 < i \<Longrightarrow> i < Nr \<Longrightarrow> round_key dk i = map_state inv_mix (round_key rk (Nr - i))"
    using dk(1) by (simp_all add: swap(2))
qed

lemma length_rijndaelEncrypt [simp]: "length (rijndaelEncrypt rk Nr b) = 16"
  by (simp add: rijndaelEncrypt_def PUTU32_def split: prod.splits)

lemma length_rijndaelDecrypt [simp]: "length (rijndaelDecrypt rk Nr b) = 16"
  by (simp add: rijndaelDecrypt_def PUTU32_def split: prod.splits)

text \<open>For every key, of each of the three sizes, and every block, decryption gives the block back.\<close>

lemma block_roundtrip:
  assumes "keyBits \<in> {128, 192, 256}" "length b = 16"
    "rijndaelKeySetupEnc key keyBits = (Nr, rk)" "rijndaelKeySetupDec key keyBits = (Nr', dk)"
  shows "rijndaelDecrypt dk Nr' (rijndaelEncrypt rk Nr b) = b"
proof -
  obtain r where "Nr = 2 * Suc r" using length_schedule(2) [OF assms(1,3)] by blast
  from block_inverse [OF this assms(2)] dec_schedule [OF assms(1,3,4)] show ?thesis by simp
qed

text \<open>For every key of 128, 192 or 256 bits, the decryption schedule made from it turns a block that was encrypted
  under the encryption schedule back into the block.\<close>

theorem rijndael_inverse:
  assumes "keyBits \<in> {128, 192, 256}" "length b = 16"
  shows "rijndaelDecrypt (snd (rijndaelKeySetupDec key keyBits)) (fst (rijndaelKeySetupDec key keyBits))
      (rijndaelEncrypt (snd (rijndaelKeySetupEnc key keyBits)) (fst (rijndaelKeySetupEnc key keyBits)) b) = b"
  by (rule block_roundtrip [OF assms]) simp_all

theorem rijndael_inverse_witness:
  "rijndaelDecrypt (snd (rijndaelKeySetupDec (replicate 24 7) 192)) (fst (rijndaelKeySetupDec (replicate 24 7) 192))
      (rijndaelEncrypt (snd (rijndaelKeySetupEnc (replicate 24 7) 192)) (fst (rijndaelKeySetupEnc (replicate 24 7) 192))
        (replicate 16 9)) = replicate 16 9"
  by (rule rijndael_inverse) simp_all

end
