(* ===== verification/Aes.thy ===== *)
theory Aes
  imports Rijndael Hex MessageDigest
begin

text \<open>
  Encryption of byte strings: \<^verbatim>\<open>efnfw/base/rijndael-api-fst.cpp\<close> (keys from hexadecimal digits, the modes ECB, CBC and 1-bit CFB,
  padding) and \<^verbatim>\<open>efnfw/base/ef_aes.cpp\<close> over it. The functions return their result, the bytes that they write
  and, where they change it, the initialisation vector. Pointers to keys and ciphers are not NULL.
\<close>

unbundle bit_operations_syntax

subsection \<open>Keys and ciphers\<close>

definition DIR_ENCRYPT :: int where "DIR_ENCRYPT = 0"
definition DIR_DECRYPT :: int where "DIR_DECRYPT = 1"
definition MODE_ECB :: int where "MODE_ECB = 1"
definition MODE_CBC :: int where "MODE_CBC = 2"
definition MODE_CFB1 :: int where "MODE_CFB1 = 3"
definition BAD_KEY_DIR :: int where "BAD_KEY_DIR = -1"
definition BAD_KEY_MAT :: int where "BAD_KEY_MAT = -2"
definition BAD_CIPHER_MODE :: int where "BAD_CIPHER_MODE = -4"
definition BAD_CIPHER_STATE :: int where "BAD_CIPHER_STATE = -5"
definition BAD_CIPHER_INSTANCE :: int where "BAD_CIPHER_INSTANCE = -7"
definition BAD_DATA :: int where "BAD_DATA = -8"

record keyInstance =
  ki_direction :: int
  ki_keyLen :: nat
  ki_keyMaterial :: bytes
  ki_Nr :: nat
  ki_rk :: "u32 list"
  ki_ek :: "u32 list"

record cipherInstance =
  ci_mode :: int
  ci_IV :: bytes

text \<open>A digit, \<open>None\<close> for another character; \<open>hex_bytes\<close> reads the bytes of a string of digits.\<close>

definition hex_digit :: "byte \<Rightarrow> byte option" where
  "hex_digit t =
     (if ch CHR ''0'' \<le> t \<and> t \<le> ch CHR ''9'' then Some (t - ch CHR ''0'')
      else if ch CHR ''a'' \<le> t \<and> t \<le> ch CHR ''f'' then Some (t - ch CHR ''a'' + 10)
      else if ch CHR ''A'' \<le> t \<and> t \<le> ch CHR ''F'' then Some (t - ch CHR ''A'' + 10)
      else None)"

fun hex_bytes :: "nat \<Rightarrow> bytes \<Rightarrow> bytes option" where
  "hex_bytes (Suc n) (t # u # ts) =
     (case (hex_digit t, hex_digit u) of
        (Some v, Some w) \<Rightarrow> map_option ((#) (push_bit 4 v XOR w)) (hex_bytes n ts)
      | _ \<Rightarrow> None)"
| "hex_bytes (Suc n) _ = None"
| "hex_bytes 0 ts = Some []"

definition makeKey :: "int \<Rightarrow> nat \<Rightarrow> bytes \<Rightarrow> int \<times> keyInstance option" where
  "makeKey direction keyLen keyMaterial =
     (if direction \<noteq> DIR_ENCRYPT \<and> direction \<noteq> DIR_DECRYPT then (BAD_KEY_DIR, None)
      else if keyLen \<noteq> 128 \<and> keyLen \<noteq> 192 \<and> keyLen \<noteq> 256 then (BAD_KEY_MAT, None)
      else
        let keyMat = take (keyLen div 4) keyMaterial
        in case hex_bytes (keyLen div 8) keyMat of
             None \<Rightarrow> (BAD_KEY_MAT, None)
           | Some cipherKey \<Rightarrow>
               let (Nr, rk) = (if direction = DIR_ENCRYPT then rijndaelKeySetupEnc cipherKey keyLen
                               else rijndaelKeySetupDec cipherKey keyLen)
               in (1, Some \<lparr>ki_direction = direction, ki_keyLen = keyLen, ki_keyMaterial = keyMat, ki_Nr = Nr,
                    ki_rk = rk, ki_ek = snd (rijndaelKeySetupEnc cipherKey keyLen)\<rparr>))"

definition cipherInit :: "int \<Rightarrow> bytes option \<Rightarrow> int \<times> cipherInstance option" where
  "cipherInit mode IV =
     (if mode \<noteq> MODE_ECB \<and> mode \<noteq> MODE_CBC \<and> mode \<noteq> MODE_CFB1 then (BAD_CIPHER_MODE, None)
      else
        case IV of
          None \<Rightarrow> (1, Some \<lparr>ci_mode = mode, ci_IV = replicate 16 0\<rparr>)
        | Some iv \<Rightarrow>
            (case hex_bytes 16 iv of
               None \<Rightarrow> (BAD_CIPHER_INSTANCE, None)
             | Some bs \<Rightarrow> (1, Some \<lparr>ci_mode = mode, ci_IV = bs\<rparr>)))"

subsection \<open>Modes\<close>

definition xor_block :: "bytes \<Rightarrow> bytes \<Rightarrow> bytes" where
  "xor_block a b = map2 (XOR) a b"

text \<open>\<open>f\<close> encrypts or decrypts one block; the loops run over \<open>n\<close> blocks and return the input that is left.\<close>

fun ecb :: "(bytes \<Rightarrow> bytes) \<Rightarrow> nat \<Rightarrow> bytes \<Rightarrow> bytes \<times> bytes" where
  "ecb f 0 input = ([], input)"
| "ecb f (Suc n) input = (let (out, rest) = ecb f n (drop 16 input) in (f (take 16 input) @ out, rest))"

fun cbc_encrypt :: "(bytes \<Rightarrow> bytes) \<Rightarrow> nat \<Rightarrow> bytes \<Rightarrow> bytes \<Rightarrow> bytes \<times> bytes \<times> bytes" where
  "cbc_encrypt f 0 iv input = ([], iv, input)"
| "cbc_encrypt f (Suc n) iv input =
     (let c = f (xor_block (take 16 input) iv); (out, iv, rest) = cbc_encrypt f n c (drop 16 input)
      in (c @ out, iv, rest))"

fun cbc_decrypt :: "(bytes \<Rightarrow> bytes) \<Rightarrow> nat \<Rightarrow> bytes \<Rightarrow> bytes \<Rightarrow> bytes \<times> bytes \<times> bytes" where
  "cbc_decrypt f 0 iv input = ([], iv, input)"
| "cbc_decrypt f (Suc n) iv input =
     (let p = xor_block (f (take 16 input)) iv; (out, iv, rest) = cbc_decrypt f n (take 16 input) (drop 16 input)
      in (p @ out, iv, rest))"

text \<open>A bit of 1-bit CFB: the vector is shifted by one bit, which comes from the encrypted side.\<close>

definition shift_iv :: "bytes \<Rightarrow> byte \<Rightarrow> bytes" where
  "shift_iv iv b =
     map (\<lambda>t. push_bit 1 (iv ! t) OR drop_bit 7 (iv ! (t + 1))) [0..<15] @ [push_bit 1 (iv ! 15) OR b]"

definition cfb_xor :: "bytes \<Rightarrow> nat \<Rightarrow> bytes \<Rightarrow> bytes" where
  "cfb_xor block k out = out[k div 8 := out ! (k div 8) XOR drop_bit (k mod 8) (block ! 0 AND 0x80)]"

definition cfb_bit :: "bytes \<Rightarrow> nat \<Rightarrow> byte" where
  "cfb_bit out k = drop_bit (7 - k mod 8) (out ! (k div 8)) AND 1"

definition cfb_encrypt_bit :: "(bytes \<Rightarrow> bytes) \<Rightarrow> nat \<Rightarrow> bytes \<times> bytes \<Rightarrow> bytes \<times> bytes" where
  "cfb_encrypt_bit f k s =
     (let (iv, out) = s; out = cfb_xor (f iv) k out in (shift_iv iv (cfb_bit out k), out))"

definition cfb_decrypt_bit :: "(bytes \<Rightarrow> bytes) \<Rightarrow> bytes \<Rightarrow> nat \<Rightarrow> bytes \<times> bytes \<Rightarrow> bytes \<times> bytes" where
  "cfb_decrypt_bit f input k s =
     (let (iv, out) = s in (shift_iv iv (cfb_bit input k), cfb_xor (f iv) k out))"

fun cfb_encrypt :: "(bytes \<Rightarrow> bytes) \<Rightarrow> nat \<Rightarrow> bytes \<Rightarrow> bytes \<Rightarrow> bytes \<times> bytes" where
  "cfb_encrypt f 0 iv input = ([], iv)"
| "cfb_encrypt f (Suc n) iv input =
     (let (iv, c) = fold (cfb_encrypt_bit f) [0..<128] (iv, take 16 input); (out, iv) = cfb_encrypt f n iv (drop 16 input)
      in (c @ out, iv))"

fun cfb_decrypt :: "(bytes \<Rightarrow> bytes) \<Rightarrow> nat \<Rightarrow> bytes \<Rightarrow> bytes \<Rightarrow> bytes \<times> bytes" where
  "cfb_decrypt f 0 iv input = ([], iv)"
| "cfb_decrypt f (Suc n) iv input =
     (let (iv, p) = fold (cfb_decrypt_bit f (take 16 input)) [0..<128] (iv, take 16 input);
          (out, iv) = cfb_decrypt f n iv (drop 16 input)
      in (p @ out, iv))"

subsection \<open>Whole blocks and padding\<close>

definition blockEncrypt :: "cipherInstance \<Rightarrow> keyInstance \<Rightarrow> bytes \<Rightarrow> int \<Rightarrow> int \<times> bytes \<times> cipherInstance" where
  "blockEncrypt c key input inputLen =
     (if ki_direction key = DIR_DECRYPT then (BAD_CIPHER_STATE, [], c)
      else if inputLen \<le> 0 then (0, [], c)
      else
        let numBlocks = nat inputLen div 16; f = rijndaelEncrypt (ki_rk key) (ki_Nr key)
        in if ci_mode c = MODE_ECB then (16 * int numBlocks, fst (ecb f numBlocks input), c)
           else if ci_mode c = MODE_CBC then (16 * int numBlocks, fst (cbc_encrypt f numBlocks (ci_IV c) input), c)
           else if ci_mode c = MODE_CFB1 then
             let (out, iv) = cfb_encrypt (rijndaelEncrypt (ki_ek key) (ki_Nr key)) numBlocks (ci_IV c) input
             in (16 * int numBlocks, out, c\<lparr>ci_IV := iv\<rparr>)
           else (BAD_CIPHER_STATE, [], c))"

definition padEncrypt :: "cipherInstance \<Rightarrow> keyInstance \<Rightarrow> bytes \<Rightarrow> int \<Rightarrow> int \<times> bytes" where
  "padEncrypt c key input inputOctets =
     (if ki_direction key = DIR_DECRYPT then (BAD_CIPHER_STATE, [])
      else if inputOctets \<le> 0 then (0, [])
      else
        let n = nat inputOctets; numBlocks = n div 16; f = rijndaelEncrypt (ki_rk key) (ki_Nr key);
            padLen = 16 - (n - 16 * numBlocks)
        in if ci_mode c = MODE_ECB then
             let (out, rest) = ecb f numBlocks input;
                 block = take (16 - padLen) rest @ replicate padLen (of_nat padLen)
             in (16 * (int numBlocks + 1), out @ f block)
           else if ci_mode c = MODE_CBC then
             let (out, iv, rest) = cbc_encrypt f numBlocks (ci_IV c) input;
                 block = xor_block (take (16 - padLen) rest @ replicate padLen (of_nat padLen)) iv
             in (16 * (int numBlocks + 1), out @ f block)
           else (BAD_CIPHER_STATE, []))"

definition blockDecrypt :: "cipherInstance \<Rightarrow> keyInstance \<Rightarrow> bytes \<Rightarrow> int \<Rightarrow> int \<times> bytes \<times> cipherInstance" where
  "blockDecrypt c key input inputLen =
     (if ci_mode c \<noteq> MODE_CFB1 \<and> ki_direction key = DIR_ENCRYPT then (BAD_CIPHER_STATE, [], c)
      else if inputLen \<le> 0 then (0, [], c)
      else
        let numBlocks = nat inputLen div 16; f = rijndaelDecrypt (ki_rk key) (ki_Nr key)
        in if ci_mode c = MODE_ECB then (16 * int numBlocks, fst (ecb f numBlocks input), c)
           else if ci_mode c = MODE_CBC then
             let (out, iv, rest) = cbc_decrypt f numBlocks (ci_IV c) input
             in (16 * int numBlocks, out, c\<lparr>ci_IV := iv\<rparr>)
           else if ci_mode c = MODE_CFB1 then
             let (out, iv) = cfb_decrypt (rijndaelEncrypt (ki_ek key) (ki_Nr key)) numBlocks (ci_IV c) input
             in (16 * int numBlocks, out, c\<lparr>ci_IV := iv\<rparr>)
           else (BAD_CIPHER_STATE, [], c))"

text \<open>The last block must end in as many bytes as its last byte says, all with that value.\<close>

definition pad_bad :: "bytes \<Rightarrow> nat \<Rightarrow> bool" where
  "pad_bad block padLen \<longleftrightarrow> list_ex (\<lambda>b. unat b \<noteq> padLen) (drop (16 - padLen) block)"

definition padDecrypt :: "cipherInstance \<Rightarrow> keyInstance \<Rightarrow> bytes \<Rightarrow> int \<Rightarrow> int \<times> bytes \<times> cipherInstance" where
  "padDecrypt c key input inputOctets =
     (if ki_direction key = DIR_ENCRYPT then (BAD_CIPHER_STATE, [], c)
      else if inputOctets \<le> 0 then (0, [], c)
      else if nat inputOctets mod 16 \<noteq> 0 then (BAD_DATA, [], c)
      else
        let numBlocks = nat inputOctets div 16; f = rijndaelDecrypt (ki_rk key) (ki_Nr key)
        in if ci_mode c = MODE_ECB then
             let (out, rest) = ecb f (numBlocks - 1) input;
                 block = f (take 16 rest);
                 padLen = unat (block ! 15)
             in if padLen \<ge> 16 then (BAD_DATA, out, c)
                else if pad_bad block padLen then (BAD_DATA, out, c)
                else (16 * int numBlocks - int padLen, out @ take (16 - padLen) block, c)
           else if ci_mode c = MODE_CBC then
             let (out, iv, rest) = cbc_decrypt f (numBlocks - 1) (ci_IV c) input;
                 c = c\<lparr>ci_IV := iv\<rparr>;
                 block = xor_block (f (take 16 rest)) iv;
                 padLen = unat (block ! 15)
             in if padLen \<le> 0 \<or> padLen > 16 then (BAD_DATA, out, c)
                else if pad_bad block padLen then (BAD_DATA, out, c)
                else (16 * int numBlocks - int padLen, out @ take (16 - padLen) block, c)
           else (BAD_CIPHER_STATE, [], c))"

subsection \<open>Byte strings\<close>

text \<open>
  \<^verbatim>\<open>ef_aes.cpp\<close>. The key is the digest of a text in hexadecimal digits, which is the initialisation vector, too, though ECB
  has none; \<open>mem\<close> is what the digest's buffer held. The length is appended, cut to an \<^verbatim>\<open>int\<close>. Decryption reads it
  as eight bytes from its place, four of them behind the string, and uses the lower half only; with less
  than four bytes it reads in front of the string. \<open>resize\<close> to a negative size throws.
\<close>

definition str_resize :: "nat \<Rightarrow> bytes \<Rightarrow> bytes" where
  "str_resize n s = take n s @ replicate (n - length s) 0"

definition overwrite :: "bytes \<Rightarrow> bytes \<Rightarrow> bytes" where
  "overwrite out s = out @ drop (length out) s"

definition aes_keymat :: "bytes \<Rightarrow> bytes \<Rightarrow> bytes" where
  "aes_keymat mem key = bytesToHexs (MD5 mem key) 16 32"

definition aesEncrypt :: "bytes \<Rightarrow> bytes \<Rightarrow> bytes \<Rightarrow> bytes \<Rightarrow> int \<times> bytes" where
  "aesEncrypt mem src key dst =
     (let keymat = aes_keymat mem key; (ret, keyist) = makeKey DIR_ENCRYPT 128 keymat
      in case keyist of
           None \<Rightarrow> (ret, dst)
         | Some k \<Rightarrow>
             let (ret, cnst) = cipherInit MODE_ECB (Some keymat)
             in case cnst of
                  None \<Rightarrow> (ret, dst)
                | Some c \<Rightarrow>
                    let len = length src;
                        dst = str_resize (len + 16 - len mod 16) dst;
                        (ret, out) = (if len mod 16 \<noteq> 0 then padEncrypt c k src (i32 (int len))
                                      else let (ret, out, c) = blockEncrypt c k src (i32 (int len)) in (ret, out));
                        dst = overwrite out dst
                    in if ret < 0 then (ret, dst)
                       else (ret, str_resize (nat ret) dst @ store_le (of_nat len)))"

definition aesDecrypt :: "bytes \<Rightarrow> bytes \<Rightarrow> bytes \<Rightarrow> bytes \<Rightarrow> (int \<times> bytes) outcome" where
  "aesDecrypt mem src key dst =
     (let keymat = aes_keymat mem key; (ret, keyist) = makeKey DIR_DECRYPT 128 keymat
      in case keyist of
           None \<Rightarrow> Done (ret, dst)
         | Some k \<Rightarrow>
             let (ret, cnst) = cipherInit MODE_ECB (Some keymat)
             in case cnst of
                  None \<Rightarrow> Done (ret, dst)
                | Some c \<Rightarrow>
                    let len = length src
                    in if len < 4 then Fault
                       else
                         let orglen = sint (load_le (drop (len - 4) src))
                         in if orglen > i32 (int len) - 4 then Done (-10, dst)
                            else
                              let dst = str_resize (len + 16 - len mod 16) dst;
                                  (ret, out, c) = (if c_mod orglen 16 \<noteq> 0 then padDecrypt c k src (i32 (int len - 4))
                                                   else blockDecrypt c k src (i32 (int len - 4)));
                                  dst = overwrite out dst
                              in if ret < 0 then Done (ret, dst)
                                 else if orglen < 0 then Fault
                                 else Done (ret, str_resize (nat orglen) dst))"


subsection \<open>Keys\<close>

lemma hex_digit_hex_char_all: "\<forall>i \<in> set [0..15]. hex_digit (hex_char i) = Some (word_of_int i)"
  by code_simp

lemma hex_digit_hex_char: "0 \<le> i \<Longrightarrow> i \<le> 15 \<Longrightarrow> hex_digit (hex_char i) = Some (word_of_int i)"
  using hex_digit_hex_char_all by simp

lemma byte_halves: "push_bit 4 (word_of_int (uint c div 16)) XOR word_of_int (uint c mod 16) = (c :: byte)"
proof -
  have "uint (drop_bit 4 c) = uint c div 16" by (simp add: drop_bit_eq_div uint_div)
  then have "word_of_int (uint c div 16) = drop_bit 4 c" by (metis word_of_int_uint)
  moreover have "uint (take_bit 4 c) = uint c mod 16" by (simp add: take_bit_eq_mod uint_mod)
  then have "word_of_int (uint c mod 16) = take_bit 4 c" by (metis word_of_int_uint)
  moreover have "push_bit 4 (drop_bit 4 c) XOR take_bit 4 c = c" by (rule bit_word_eqI) (auto simp: bit_simps)
  ultimately show ?thesis by simp
qed

lemma hex_bytes_byteToHex: "hex_bytes (length m) (concat (map byteToHex m)) = Some m"
proof (induction m)
  case (Cons c m)
  have "0 \<le> uint c div 16" "uint c div 16 \<le> 15" using uint_byte_range [of c] by linarith+
  with Cons show ?case by (simp add: byteToHex_def hex_digit_hex_char byte_halves)
qed simp

lemma length_md5_digest: "length (md5_digest m) = 16"
  by (simp add: md5_digest_def state_bytes_def split: prod.splits)

lemma aes_keymat_eq:
  assumes "length mem = 64" "length key < 2 ^ 32"
  shows "aes_keymat mem key = concat (map byteToHex (md5_digest key))"
  using bytesToHexs_loop_eq [of "md5_digest key" 0]
  by (simp add: aes_keymat_def MD5_digest [OF assms] bytesToHexs_def length_md5_digest)

lemma keymat_hex:
  assumes "length mem = 64" "length key < 2 ^ 32"
  shows "length (aes_keymat mem key) = 32" "hex_bytes 16 (aes_keymat mem key) = Some (md5_digest key)"
proof -
  have "length (concat (map byteToHex m)) = 2 * length m" for m by (induction m) simp_all
  then show "length (aes_keymat mem key) = 32" by (simp add: aes_keymat_eq [OF assms] length_md5_digest)
  show "hex_bytes 16 (aes_keymat mem key) = Some (md5_digest key)"
    using hex_bytes_byteToHex [of "md5_digest key"] by (simp add: aes_keymat_eq [OF assms] length_md5_digest)
qed

definition enc_key :: "bytes \<Rightarrow> bytes \<Rightarrow> keyInstance" where
  "enc_key km m =
     (let (Nr, rk) = rijndaelKeySetupEnc m 128
      in \<lparr>ki_direction = DIR_ENCRYPT, ki_keyLen = 128, ki_keyMaterial = km, ki_Nr = Nr, ki_rk = rk, ki_ek = rk\<rparr>)"

definition dec_key :: "bytes \<Rightarrow> bytes \<Rightarrow> keyInstance" where
  "dec_key km m =
     (let (Nr, rk) = rijndaelKeySetupDec m 128
      in \<lparr>ki_direction = DIR_DECRYPT, ki_keyLen = 128, ki_keyMaterial = km, ki_Nr = Nr, ki_rk = rk,
          ki_ek = snd (rijndaelKeySetupEnc m 128)\<rparr>)"

lemma makeKey_eq:
  assumes "length km = 32" "hex_bytes 16 km = Some m"
  shows "makeKey DIR_ENCRYPT 128 km = (1, Some (enc_key km m))" "makeKey DIR_DECRYPT 128 km = (1, Some (dec_key km m))"
  using assms by (simp_all add: makeKey_def enc_key_def dec_key_def DIR_ENCRYPT_def DIR_DECRYPT_def split: prod.splits)

definition block_enc :: "bytes \<Rightarrow> bytes \<Rightarrow> bytes" where
  "block_enc m = rijndaelEncrypt (ki_rk (enc_key [] m)) (ki_Nr (enc_key [] m))"

definition block_dec :: "bytes \<Rightarrow> bytes \<Rightarrow> bytes" where
  "block_dec m = rijndaelDecrypt (ki_rk (dec_key [] m)) (ki_Nr (dec_key [] m))"

lemma key_blocks:
  "rijndaelEncrypt (ki_rk (enc_key km m)) (ki_Nr (enc_key km m)) = block_enc m" "ki_direction (enc_key km m) = DIR_ENCRYPT"
  "rijndaelDecrypt (ki_rk (dec_key km m)) (ki_Nr (dec_key km m)) = block_dec m" "ki_direction (dec_key km m) = DIR_DECRYPT"
  by (simp_all add: block_enc_def block_dec_def enc_key_def dec_key_def split: prod.splits)

lemma block_dec_enc: "length b = 16 \<Longrightarrow> block_dec m (block_enc m b) = b"
proof -
  assume "length b = 16"
  obtain Nr rk Nr' dk where k: "rijndaelKeySetupEnc m 128 = (Nr, rk)" "rijndaelKeySetupDec m 128 = (Nr', dk)"
    by fastforce
  from block_roundtrip [OF _ \<open>length b = 16\<close> k] k show ?thesis
    by (simp add: block_enc_def block_dec_def enc_key_def dec_key_def)
qed

lemma length_block [simp]: "length (block_enc m b) = 16" "length (block_dec m b) = 16"
  by (simp_all add: block_enc_def block_dec_def)

subsection \<open>Blocks one after the other\<close>

text \<open>A cipher on blocks of sixteen bytes: what it encrypts, it decrypts.\<close>

locale block_cipher =
  fixes enc :: "bytes \<Rightarrow> bytes" and dec :: "bytes \<Rightarrow> bytes"
  assumes dec_enc: "length b = 16 \<Longrightarrow> dec (enc b) = b"
    and length_enc: "length (enc b) = 16"
begin

lemma ecb_rest: "16 * n \<le> length s \<Longrightarrow> snd (ecb f n s) = drop (16 * n) s"
  by (induction n arbitrary: s) (simp_all add: split_beta Let_def add.commute)

lemma ecb_length: "length (fst (ecb enc n s)) = 16 * n"
  by (induction n arbitrary: s) (simp_all add: split_beta Let_def length_enc)

lemma ecb_inverse: "16 * n \<le> length s \<Longrightarrow> ecb dec n (fst (ecb enc n s) @ t) = (take (16 * n) s, t)"
proof (induction n arbitrary: s)
  case (Suc n)
  have "take (16 * Suc n) s = take 16 s @ take (16 * n) (drop 16 s)" by (simp add: take_add)
  then show ?case using Suc.IH [of "drop 16 s"] Suc.prems
    by (simp add: split_beta Let_def length_enc dec_enc)
qed simp

lemma xor_block_twice: "length a = length b \<Longrightarrow> xor_block (xor_block a b) b = a"
  by (rule nth_equalityI) (auto simp: xor_block_def xor.assoc)

lemma length_xor_block: "length (xor_block a b) = min (length a) (length b)"
  by (simp add: xor_block_def)

lemma cbc_inverse:
  "16 * n \<le> length s \<Longrightarrow> length iv = 16 \<Longrightarrow>
    \<exists>iv'. cbc_decrypt dec n iv (fst (cbc_encrypt enc n iv s) @ t) = (take (16 * n) s, iv', t)"
proof (induction n arbitrary: s iv)
  case (Suc n)
  let ?c = "enc (xor_block (take 16 s) iv)"
  have "16 * n \<le> length (drop 16 s)" using Suc.prems(1) by simp
  then obtain iv' where "cbc_decrypt dec n ?c (fst (cbc_encrypt enc n ?c (drop 16 s)) @ t) = (take (16 * n) (drop 16 s), iv', t)"
    using Suc.IH [of "drop 16 s" ?c] Suc.prems length_enc by auto
  moreover have "dec ?c = xor_block (take 16 s) iv" using Suc.prems by (simp add: dec_enc length_xor_block)
  moreover have "take (16 * Suc n) s = take 16 s @ take (16 * n) (drop 16 s)" by (simp add: take_add)
  ultimately show ?case using Suc.prems
    by (simp add: split_beta Let_def length_enc xor_block_twice)
qed simp

end

interpretation aes: block_cipher "block_enc m" "block_dec m" for m
  by unfold_locales (simp_all add: block_dec_enc)


subsection \<open>Strings\<close>

definition aes_cipher :: "bytes \<Rightarrow> cipherInstance" where
  "aes_cipher m = \<lparr>ci_mode = MODE_ECB, ci_IV = m\<rparr>"

lemma cipherInit_eq: "hex_bytes 16 km = Some m \<Longrightarrow> cipherInit MODE_ECB (Some km) = (1, Some (aes_cipher m))"
  by (simp add: cipherInit_def aes_cipher_def)

lemma aes_modes [simp]: "ci_mode (aes_cipher m) = MODE_ECB" "DIR_ENCRYPT \<noteq> DIR_DECRYPT" "DIR_DECRYPT \<noteq> DIR_ENCRYPT"
  by (simp_all add: aes_cipher_def DIR_ENCRYPT_def DIR_DECRYPT_def)

text \<open>The two ways of encrypting a string, by whether its length is a multiple of 16, and back.\<close>

lemma whole_blocks:
  assumes "length src = 16 * n" "ci_mode c0 = MODE_ECB"
  shows "blockEncrypt c0 (enc_key km m) src (int (length src)) = (int (length src), fst (ecb (block_enc m) n src), c0)"
proof -
  have "length src div 16 = n" "16 * int n = int (length src)" "src = [] \<Longrightarrow> n = 0" using assms(1) by simp_all
  then show ?thesis using assms(2) by (cases "src = []") (simp_all add: blockEncrypt_def key_blocks Let_def)
qed

lemma whole_blocks_back:
  assumes "length src = 16 * n" "ci_mode c0 = MODE_ECB"
  shows "blockDecrypt c0 (dec_key km m) (fst (ecb (block_enc m) n src) @ t) (int (length src)) =
      (int (length src), src, c0)"
proof -
  have n: "length src div 16 = n" "16 * int n = int (length src)" "take (16 * n) src = src" using assms(1) by simp_all
  have "ecb (block_dec m) n (fst (ecb (block_enc m) n src) @ t) = (src, t)"
    using aes.ecb_inverse [of n src m t] assms(1) n(3) by simp
  then show ?thesis using assms(2) n
    by (cases "src = []") (simp_all add: blockDecrypt_def key_blocks Let_def)
qed

definition pad_block :: "bytes \<Rightarrow> bytes" where
  "pad_block r = r @ replicate (16 - length r) (of_nat (16 - length r))"

lemma padEncrypt_ecb:
  assumes "ki_direction key \<noteq> DIR_DECRYPT" "0 < L" "ci_mode c = MODE_ECB" "nat L div 16 = n" "16 - (nat L - 16 * n) = p"
    "ecb (rijndaelEncrypt (ki_rk key) (ki_Nr key)) n input = (out, rest)"
  shows "padEncrypt c key input L =
    (16 * (int n + 1), out @ rijndaelEncrypt (ki_rk key) (ki_Nr key) (take (16 - p) rest @ replicate p (of_nat p)))"
  using assms(1-3,6) unfolding assms(4,5) [symmetric] by (simp add: padEncrypt_def Let_def)

lemma padded:
  assumes "length a = 16 * n" "b \<noteq> []" "length b < 16" "ci_mode c0 = MODE_ECB"
  shows "padEncrypt c0 (enc_key km m) (a @ b) (int (length (a @ b))) =
      (16 * (int n + 1), fst (ecb (block_enc m) n a) @ block_enc m (pad_block b))"
proof -
  have "ecb (block_enc m) n (a @ b) = (fst (ecb (block_enc m) n a), b)"
    using assms(1) by (induction n arbitrary: a) (simp_all add: split_beta Let_def)
  then have ecb: "ecb (rijndaelEncrypt (ki_rk (enc_key km m)) (ki_Nr (enc_key km m))) n (a @ b) =
      (fst (ecb (block_enc m) n a), b)" by (simp only: key_blocks)
  have N: "nat (int (length (a @ b))) = 16 * n + length b" using assms(1) by (simp only: nat_int length_append)
  have "padEncrypt c0 (enc_key km m) (a @ b) (int (length (a @ b))) = (16 * (int n + 1),
      fst (ecb (block_enc m) n a) @ rijndaelEncrypt (ki_rk (enc_key km m)) (ki_Nr (enc_key km m))
        (take (16 - (16 - length b)) b @ replicate (16 - length b) (of_nat (16 - length b))))"
  proof (rule padEncrypt_ecb [OF _ _ assms(4) _ _ ecb])
    show "ki_direction (enc_key km m) \<noteq> DIR_DECRYPT" by (simp add: key_blocks)
    show "0 < int (length (a @ b))" using assms(2) by (cases b) simp_all
    show "nat (int (length (a @ b))) div 16 = n" using assms(3) unfolding N by simp
    show "16 - (nat (int (length (a @ b))) - 16 * n) = 16 - length b" by (simp only: N diff_add_inverse)
  qed
  moreover have "take (16 - (16 - length b)) b = b" using assms(3) by simp
  ultimately show ?thesis by (simp only: pad_block_def key_blocks)
qed

lemma unat_pad: "k < 256 \<Longrightarrow> unat (of_nat k :: byte) = k"
  by (simp add: unat_of_nat)

lemma padded_back:
  assumes "length a = 16 * n" "b \<noteq> []" "length b < 16" "ci_mode c0 = MODE_ECB"
  shows "padDecrypt c0 (dec_key km m) (fst (ecb (block_enc m) n a) @ block_enc m (pad_block b) @ t)
      (16 * (int n + 1)) = (int (length (a @ b)), a @ b, c0)"
proof -
  define k where "k = 16 - length b"
  have k: "0 < k" "k < 16" "length b = 16 - k" using assms(2,3) by (auto simp: k_def)
  have blk: "pad_block b = b @ replicate k (of_nat k)" by (simp add: pad_block_def k_def)
  have len: "length (b @ replicate k (of_nat k :: byte)) = 16" using k by simp
  have "(b @ replicate k (of_nat k :: byte)) ! 15 = of_nat k"
    using assms(2,3) by (subst nth_append) (simp add: k_def)
  then have last: "unat ((b @ replicate k (of_nat k :: byte)) ! 15) = k" using k by (simp only: unat_pad)
  have good: "\<not> pad_bad (b @ replicate k (of_nat k)) k" using k by (simp add: pad_bad_def list_ex_iff unat_pad)
  have nat: "nat (16 * (int n + 1)) = 16 * Suc n" "nat (16 * int n + 16) = 16 * Suc n" by simp_all
  have ecb: "ecb (block_dec m) n (fst (ecb (block_enc m) n a) @ u) = (a, u)" for u
    using aes.ecb_inverse [of n a m u] assms(1) by simp
  show ?thesis using k assms(1,4)
    by (simp add: padDecrypt_def key_blocks nat ecb blk block_dec_enc [OF len] Let_def last good)
qed

lemma split_blocks:
  obtains a b where "src = a @ b" "length a = 16 * (length src div 16)" "length b = length src mod 16"
proof -
  have le: "16 * (length src div 16) \<le> length src" by simp
  then have "length (take (16 * (length src div 16)) src) = 16 * (length src div 16)" by (simp only: length_take min_absorb2)
  moreover have "length (drop (16 * (length src div 16)) src) = length src mod 16" by (simp add: minus_mult_div_eq_mod)
  ultimately show ?thesis using that [of "take (16 * (length src div 16)) src" "drop (16 * (length src div 16)) src"] by simp
qed

text \<open>What \<open>aesEncrypt\<close> makes of a string: the blocks and the length.\<close>

lemma aesEncrypt_eq:
  assumes "length mem = 64" "length key < 2 ^ 32" "length src < 2 ^ 31 - 32"
  obtains c where
    "aesEncrypt mem src key dst = (int (length c), c @ store_le (of_nat (length src)))"
    "16 dvd length c" "length src \<le> length c" "length c < length src + 16"
    "\<And>km t. (if length src mod 16 \<noteq> 0 then padDecrypt (aes_cipher (md5_digest key)) (dec_key km (md5_digest key)) (c @ t) (int (length c))
      else blockDecrypt (aes_cipher (md5_digest key)) (dec_key km (md5_digest key)) (c @ t) (int (length c))) =
      (int (length src), src, aes_cipher (md5_digest key))"
proof -
  let ?m = "md5_digest key" and ?km = "aes_keymat mem key" and ?n = "length src div 16"
  note km = keymat_hex [OF assms(1,2)]
  obtain a b where ab: "src = a @ b" "length a = 16 * ?n" "length b = length src mod 16" by (rule split_blocks)
  have i: "i32 (int (length src)) = int (length src)" using assms(3) by (intro i32_id) simp_all
  show ?thesis
  proof (cases "length src mod 16 = 0")
    case True
    then have s: "length src = 16 * ?n" by presburger
    let ?c = "fst (ecb (block_enc ?m) ?n src)"
    have len: "length ?c = length src" using aes.ecb_length [of ?m ?n src] s by simp
    have e: "aesEncrypt mem src key dst = (int (length ?c), ?c @ store_le (of_nat (length src)))"
      using km True len
      by (simp add: aesEncrypt_def makeKey_eq cipherInit_eq i whole_blocks [OF s] overwrite_def str_resize_def Let_def)
    have d: "blockDecrypt (aes_cipher ?m) (dec_key km ?m) (?c @ t) (int (length src)) = (int (length src), src, aes_cipher ?m)" for km t
      by (rule whole_blocks_back [OF s]) simp
    show ?thesis by (rule that [of ?c]) (use e d len True in \<open>simp_all add: dvd_eq_mod_eq_0\<close>)
  next
    case False
    let ?c = "fst (ecb (block_enc ?m) ?n a) @ block_enc ?m (pad_block b)"
    have b: "b \<noteq> []" "length b < 16" using False ab(3) by auto
    have front: "length (fst (ecb (block_enc ?m) ?n a)) = 16 * ?n" by (rule aes.ecb_length)
    then have len: "int (length ?c) = 16 * (int ?n + 1)" "length ?c = 16 * Suc ?n" by simp_all
    have le: "length src + 16 - length src mod 16 = 16 * Suc ?n" by (simp add: div_mult_mod_eq) presburger
    have "padEncrypt (aes_cipher ?m) (enc_key ?km ?m) src (int (length src)) = (16 * (int ?n + 1), ?c)"
      using padded [OF ab(2) b, of "aes_cipher ?m"] ab(1) by simp
    moreover have "nat (16 * (int ?n + 1)) = 16 * Suc ?n" by simp
    ultimately have e: "aesEncrypt mem src key dst = (int (length ?c), ?c @ store_le (of_nat (length src)))"
      using km False front le
      by (simp add: aesEncrypt_def makeKey_eq cipherInit_eq i overwrite_def str_resize_def Let_def)
    have d: "padDecrypt (aes_cipher ?m) (dec_key km ?m) (?c @ t) (int (length ?c)) = (int (length src), src, aes_cipher ?m)" for km t
      using padded_back [OF ab(2) b, of "aes_cipher ?m" km ?m t] ab(1) len(1) by simp
    have bnd: "16 dvd length ?c" "length src \<le> length ?c" "length ?c < length src + 16"
      using len(2) False by (simp_all only:) presburger+
    show ?thesis by (rule that [of ?c]) (use e d bnd False in \<open>simp_all only: if_True simp_thms\<close>)
  qed
qed

lemma aes_inverse:
  assumes "length mem = 64" "length mem' = 64" "length key < 2 ^ 32" "length src < 2 ^ 31 - 32"
  shows "0 \<le> fst (aesEncrypt mem src key dst) \<and>
    aesDecrypt mem' (snd (aesEncrypt mem src key dst)) key dst' = Done (int (length src), src)"
proof (rule aesEncrypt_eq [OF assms(1,3,4), of dst])
  fix c
  assume c: "aesEncrypt mem src key dst = (int (length c), c @ store_le (of_nat (length src)))"
    "16 dvd length c" "length src \<le> length c" "length c < length src + 16"
    and dec: "\<And>km t. (if length src mod 16 \<noteq> 0 then padDecrypt (aes_cipher (md5_digest key)) (dec_key km (md5_digest key)) (c @ t) (int (length c))
      else blockDecrypt (aes_cipher (md5_digest key)) (dec_key km (md5_digest key)) (c @ t) (int (length c))) =
      (int (length src), src, aes_cipher (md5_digest key))"
  note km = keymat_hex [OF assms(2,3)]
  have i: "i32 (int (length c) + 4) = int (length c) + 4" "i32 (int (length c)) = int (length c)"
    using c(4) assms(4) by (simp_all add: i32_id)
  have org: "sint (of_nat (length src) :: u32) = int (length src)"
    using i32_id [of "int (length src)"] assms(4) by (simp add: i32_def)
  have ls: "load_le (store_le w) = w" for w using load_store_le [of w "[]"] by simp
  have cm: "c_mod (int (length src)) 16 \<noteq> 0 \<longleftrightarrow> length src mod 16 \<noteq> 0" by simp presburger
  have rs: "str_resize (length src) (src @ u) = src" for u by (simp add: str_resize_def)
  have "aesDecrypt mem' (c @ store_le (of_nat (length src))) key dst' = Done (int (length src), src)"
    using c(3) km dec [of "aes_keymat mem' key" "store_le (of_nat (length src))"]
    by (cases "length src mod 16 \<noteq> 0") (simp_all add: aesDecrypt_def makeKey_eq cipherInit_eq i org ls cm rs overwrite_def Let_def
        del: c_mod_nonneg mod_greater_zero_iff_not_dvd neq0_conv split del: if_split)
  then show ?thesis by (simp add: c(1))
qed

text \<open>C17: What \<open>aesEncrypt\<close> makes of a string, \<open>aesDecrypt\<close> with the same key makes the string again, whatever the two
  output strings and the buffers held before.\<close>

theorem aes_roundtrip:
  assumes "length mem = 64" "length mem' = 64" "length key < 2 ^ 32" "length src < 2 ^ 31 - 32"
  shows "0 \<le> fst (aesEncrypt mem src key dst) \<and>
    aesDecrypt mem' (snd (aesEncrypt mem src key dst)) key dst' = Done (int (length src), src)"
  using assms by (rule aes_inverse)

theorem aes_roundtrip_witness:
  "0 \<le> fst (aesEncrypt (replicate 64 0) (bytes_of ''secret'') (bytes_of ''key'') []) \<and>
    aesDecrypt (replicate 64 1) (snd (aesEncrypt (replicate 64 0) (bytes_of ''secret'') (bytes_of ''key'') [])) (bytes_of ''key'') [7] =
      Done (6, bytes_of ''secret'')"
  using aes_roundtrip [of "replicate 64 0" "replicate 64 1" "bytes_of ''key''" "bytes_of ''secret''" "[]" "[7]"]
  by (simp add: bytes_of_def)

text \<open>A string of less than four bytes has no length to read, one that ends in a negative length asks for a string of
  that length: neither is an error to \<open>aesDecrypt\<close>.\<close>

lemma aesDecrypt_short:
  assumes "length mem = 64" "length key < 2 ^ 32" "length src < 4"
  shows "aesDecrypt mem src key dst = Fault"
  using keymat_hex [OF assms(1,2)] assms(3) by (simp add: aesDecrypt_def makeKey_eq cipherInit_eq Let_def)

text \<open>The padding of whole blocks, a block of sixteen times 16, is what \<open>padEncrypt\<close> makes in the mode ECB and
  \<open>padDecrypt\<close> rejects: a length that is a multiple of 16 must not reach them.\<close>

lemma padDecrypt_rejects_full_pad:
  assumes "length a = 16 * n" "ci_mode c = MODE_ECB"
  shows "fst (padDecrypt c (dec_key km m) (fst (ecb (block_enc m) n a) @ block_enc m (pad_block [])) (16 * (int n + 1))) = BAD_DATA"
proof -
  have nat: "nat (16 * (int n + 1)) = 16 * Suc n" "nat (16 * int n + 16) = 16 * Suc n" by simp_all
  have len: "length (pad_block []) = 16" and last: "unat (pad_block [] ! 15) = 16" by code_simp+
  have ecb: "ecb (block_dec m) n (fst (ecb (block_enc m) n a) @ u) = (a, u)" for u
    using aes.ecb_inverse [of n a m u] assms(1) by simp
  show ?thesis using assms(2)
    by (simp add: padDecrypt_def key_blocks nat ecb block_dec_enc [OF len] last Let_def)
qed

end
