(* ===== verification/Crypt.thy ===== *)
theory Crypt
  imports Aes Base64 Utility Containers "HOL-Library.List_Lexorder"
begin

text \<open>
  Tokens and encrypted texts: \<^verbatim>\<open>common/src/ef_crypt.cpp\<close>. The time, the random number and what the digest's
  buffer held are arguments, the two static timeouts are a record. \<^verbatim>\<open>abs\<close> is the one of \<^verbatim>\<open>long\<close>, as the difference of a
  \<^verbatim>\<open>time_t\<close> and an \<^verbatim>\<open>int\<close> is.
\<close>

subsection \<open>Timeouts\<close>

definition AUTHERR_OK :: int where "AUTHERR_OK = 0"
definition AUTHERR_TIMEOUT :: int where "AUTHERR_TIMEOUT = -1"
definition AUTHERR_DECFAIL :: int where "AUTHERR_DECFAIL = -2"
definition AUTHERR_ENCFAIL :: int where "AUTHERR_ENCFAIL = -3"

definition rawkey :: bytes where
  "rawkey = bytes_of ''7ddcef8769474e099310ec8e71d181e1''"

record crypt_timeouts =
  token_timeout :: int
  text_timeout :: int

definition crypt_timeouts_init :: crypt_timeouts where
  "crypt_timeouts_init = \<lparr>token_timeout = 7200, text_timeout = 30\<rparr>"

definition setTokenTimeout :: "int \<Rightarrow> crypt_timeouts \<Rightarrow> int \<times> crypt_timeouts" where
  "setTokenTimeout timeout c = (0, if timeout > 0 then c\<lparr>token_timeout := timeout\<rparr> else c)"

definition setTextTimeout :: "int \<Rightarrow> crypt_timeouts \<Rightarrow> int \<times> crypt_timeouts" where
  "setTextTimeout timeout c = (0, if timeout > 0 then c\<lparr>text_timeout := timeout\<rparr> else c)"

subsection \<open>Tokens\<close>

text \<open>The file has its own copy of \<open>split\<close>, the same code as the one of \<^verbatim>\<open>ef_utility.cpp\<close>.\<close>

definition crypt_split :: "bytes \<Rightarrow> bytes \<Rightarrow> bytes list outcome" where
  "crypt_split str sep = split str sep"

text \<open>Without a \<open>=\<close> in the field, \<^verbatim>\<open>pos + 1\<close> is 0: the whole field is name and value.\<close>

definition put_field :: "bytes \<Rightarrow> (bytes, bytes) std_map \<Rightarrow> (bytes, bytes) std_map" where
  "put_field f minfo =
     (case str_find f [ch CHR ''=''] of
        None \<Rightarrow> map_put f f minfo
      | Some pos \<Rightarrow> map_put (take pos f) (drop (pos + 1) f) minfo)"

definition checkToken ::
  "crypt_timeouts \<Rightarrow> int \<Rightarrow> bytes \<Rightarrow> bytes \<Rightarrow> (bytes, bytes) std_map \<Rightarrow> (int \<times> (bytes, bytes) std_map) outcome" where
  "checkToken c now mem token minfo =
     bind_outcome (crypt_split (base64Decode token) [ch CHR ''&'']) (\<lambda>vstr.
       if length vstr \<noteq> 2 then Done (AUTHERR_DECFAIL, minfo)
       else if \<bar>now - i32 (atoi (vstr ! 0))\<bar> > token_timeout c then Done (AUTHERR_TIMEOUT, minfo)
       else
         bind_outcome (aesDecrypt mem (base64Decode (vstr ! 1)) (rawkey @ vstr ! 0) []) (\<lambda>(ret, rawbody).
           if ret < 0 then Done (AUTHERR_DECFAIL, minfo)
           else
             bind_outcome (crypt_split rawbody [ch CHR ''&'']) (\<lambda>vstr.
               Done (AUTHERR_OK, fold put_field vstr minfo))))"

definition token_body :: "(bytes, bytes) std_map \<Rightarrow> bytes" where
  "token_body minfo = concat (map (\<lambda>(k, v). k @ [ch CHR ''=''] @ v @ [ch CHR ''&'']) minfo)"

definition generateToken :: "int \<Rightarrow> bytes \<Rightarrow> (bytes, bytes) std_map \<Rightarrow> bytes \<Rightarrow> int \<times> bytes" where
  "generateToken now mem minfo token =
     (let tm = itostr now; (ret, enctext) = aesEncrypt mem (token_body minfo) (rawkey @ tm) []
      in if ret < 0 then (-1, token)
         else (AUTHERR_OK, base64Encode (tm @ [ch CHR ''&''] @ base64Encode enctext)))"

subsection \<open>Texts\<close>

definition encrypt :: "int \<Rightarrow> int \<Rightarrow> bytes \<Rightarrow> bytes \<Rightarrow> bytes \<Rightarrow> int \<times> bytes" where
  "encrypt now rnd mem text enctext =
     (let tm = itostr now; (ret, encbody) = aesEncrypt mem text tm []
      in if ret < 0 then (AUTHERR_ENCFAIL, enctext)
         else (AUTHERR_OK, base64Encode (tm @ [ch CHR ''&''] @ itostr rnd @ [ch CHR ''&''] @ base64Encode encbody)))"

definition decrypt :: "crypt_timeouts \<Rightarrow> int \<Rightarrow> bytes \<Rightarrow> bytes \<Rightarrow> bytes \<Rightarrow> (int \<times> bytes) outcome" where
  "decrypt c now mem enctext text =
     bind_outcome (crypt_split (base64Decode enctext) [ch CHR ''&'']) (\<lambda>vstr.
       if length vstr \<noteq> 3 then Done (AUTHERR_DECFAIL, text)
       else if \<bar>now - i32 (atoi (vstr ! 0))\<bar> > text_timeout c then Done (AUTHERR_TIMEOUT, text)
       else
         bind_outcome (aesDecrypt mem (base64Decode (vstr ! 2)) (vstr ! 0) text) (\<lambda>(ret, text).
           if ret < 0 then Done (AUTHERR_DECFAIL, text) else Done (AUTHERR_OK, text)))"

subsection \<open>The parts of a token\<close>

lemma itostr_facts:
  assumes "- (2 ^ 31) \<le> t" "t < 2 ^ 31"
  shows "length (itostr t) \<le> 11" "itostr t \<noteq> []" "38 \<notin> set (itostr t)"
proof -
  have d: "38 \<notin> set (nat_digits n)" for n using nat_digits_digits [of n] by (auto simp: is_digit_def)
  have l: "length (nat_digits (nat i)) \<le> 10" if "i \<le> 2 ^ 31" for i
    using length_nat_digits [of "nat i" 10] that by simp
  show "38 \<notin> set (itostr t)" "itostr t \<noteq> []" using d nat_digits_nonempty by (auto simp: itostr_def)
  show "length (itostr t) \<le> 11" using l [of t] l [of "- t"] assms by (auto simp: itostr_def)
qed

lemma base64Encode_nonempty: "s \<noteq> [] \<Longrightarrow> base64Encode s \<noteq> []"
  using base64_decode_encode [of s] by (auto simp: base64Decode_def)

text \<open>What \<open>checkToken\<close> makes of a fresh token, in terms of the fields of its body.\<close>

lemma token_made:
  assumes "length mem = 64" "length mem' = 64" "- (2 ^ 31) \<le> t" "t < 2 ^ 31" "\<bar>now - t\<bar> \<le> token_timeout c"
    "length (token_body minfo) < 2 ^ 31 - 32" "split (token_body minfo) [38] = Done ps"
  shows "fst (generateToken t mem minfo tok) = AUTHERR_OK \<and>
    checkToken c now mem' (snd (generateToken t mem minfo tok)) m = Done (AUTHERR_OK, fold put_field ps m)"
proof -
  let ?k = "rawkey @ itostr t"
  note tm = itostr_facts [OF assms(3,4)]
  have "length ?k < 2 ^ 32" using tm(1) by (simp add: rawkey_def bytes_of_def)
  note inv = aes_inverse [OF assms(1,2) this assms(6), of "[]" "[]"]
  obtain ret enc where e: "aesEncrypt mem (token_body minfo) ?k [] = (ret, enc)" by fastforce
  with inv have ret: "\<not> ret < 0" and dec: "aesDecrypt mem' enc ?k [] = Done (int (length (token_body minfo)), token_body minfo)"
    by simp_all
  have g: "generateToken t mem minfo tok = (AUTHERR_OK, base64Encode (itostr t @ 38 # base64Encode enc))"
    using e ret by (simp add: generateToken_def Let_def)
  have "enc \<noteq> []" using dec assms(2) \<open>length ?k < 2 ^ 32\<close> by (auto simp: aesDecrypt_short)
  then have parts: "split (itostr t @ 38 # base64Encode enc) [38] = Done [itostr t, base64Encode enc]"
    using tm base64Encode_nonempty base64Encode_no_amp by (intro split_field split_whole) simp_all
  have "checkToken c now mem' (base64Encode (itostr t @ 38 # base64Encode enc)) m = Done (AUTHERR_OK, fold put_field ps m)"
    using parts assms(3-5,7) dec by (simp add: checkToken_def crypt_split_def base64_decode_encode atoi_itostr i32_id)
  with g show ?thesis by simp
qed

subsection \<open>The fields of a token\<close>

definition good_field :: "bytes \<times> bytes \<Rightarrow> bool" where
  "good_field e \<longleftrightarrow> 38 \<notin> set (fst e) \<and> 61 \<notin> set (fst e) \<and> 38 \<notin> set (snd e)"

lemma split_token_body:
  "list_all good_field minfo \<Longrightarrow> split (token_body minfo) [38] = Done (map (\<lambda>(k, v). k @ 61 # v) minfo)"
proof (induction minfo)
  case (Cons e minfo)
  obtain k v where e: "e = (k, v)" by fastforce
  have "split ((k @ 61 # v) @ 38 # token_body minfo) [38] = Done ((k @ 61 # v) # map (\<lambda>(k, v). k @ 61 # v) minfo)"
    using Cons e by (intro split_field) (auto simp: good_field_def)
  then show ?case by (simp add: e token_body_def)
qed (simp add: token_body_def split_Nil)

lemma put_field_pair: "61 \<notin> set k \<Longrightarrow> put_field (k @ 61 # v) m = map_put k v m"
  by (simp add: put_field_def str_find_single_append)

lemma put_fields:
  "list_all good_field minfo \<Longrightarrow> fold put_field (map (\<lambda>(k, v). k @ 61 # v) minfo) m = fold (\<lambda>(k, v). map_put k v) minfo m"
  by (induction minfo arbitrary: m) (auto simp: put_field_pair good_field_def)



text \<open>A value that holds \<open>&\<close> is not kept as one: what follows becomes a field of its own, so whoever chooses a value
  chooses further fields of the token.\<close>

theorem token_field_injection:
  assumes "length mem = 64" "length mem' = 64" "- (2 ^ 31) \<le> t" "t < 2 ^ 31" "\<bar>now - t\<bar> \<le> token_timeout c"
    "good_field (k, v)" "good_field (k2, v2)" "length (k @ v @ k2 @ v2) < 2 ^ 31 - 40"
  shows "checkToken c now mem' (snd (generateToken t mem [(k, v @ 38 # k2 @ 61 # v2)] tok)) [] =
    Done (AUTHERR_OK, map_put k2 v2 [(k, v)])"
proof -
  have b: "token_body [(k, v @ 38 # k2 @ 61 # v2)] = token_body [(k, v), (k2, v2)]" by (simp add: token_body_def)
  have l: "length (token_body [(k, v @ 38 # k2 @ 61 # v2)]) < 2 ^ 31 - 32" using assms(8) by (simp add: token_body_def)
  have g: "list_all good_field [(k, v), (k2, v2)]" using assms(6,7) by simp
  show ?thesis
    using token_made [OF assms(1-5) l split_token_body [OF g, folded b]] put_fields [OF g, of "[]"] by simp
qed

theorem token_field_injection_witness:
  "checkToken crypt_timeouts_init 1000000 (replicate 64 1)
      (snd (generateToken 1000000 (replicate 64 0) [(bytes_of ''id'', bytes_of ''7&role=root'')] [])) [] =
    Done (AUTHERR_OK, [(bytes_of ''id'', bytes_of ''7''), (bytes_of ''role'', bytes_of ''root'')])"
  using token_field_injection [of "replicate 64 0" "replicate 64 1" 1000000 1000000 crypt_timeouts_init "bytes_of ''id''"
    "bytes_of ''7''" "bytes_of ''role''" "bytes_of ''root''" "[]"]
  by (simp add: crypt_timeouts_init_def bytes_of_def good_field_def)

text \<open>C19: A token of a fresh time and one to three bytes makes \<open>checkToken\<close> read in front of its string: no key is needed
  to make one.\<close>

theorem short_token_faults:
  assumes "length mem = 64" "- (2 ^ 31) \<le> t" "t < 2 ^ 31" "\<bar>now - t\<bar> \<le> token_timeout c" "0 < length s" "length s < 4"
  shows "checkToken c now mem (base64Encode (itostr t @ 38 # base64Encode s)) minfo = Fault"
proof -
  note tm = itostr_facts [OF assms(2,3)]
  have k: "length (rawkey @ itostr t) < 2 ^ 32" using tm(1) by (simp add: rawkey_def bytes_of_def)
  have "s \<noteq> []" using assms(5) by auto
  then have "split (itostr t @ 38 # base64Encode s) [38] = Done [itostr t, base64Encode s]"
    using tm base64Encode_nonempty base64Encode_no_amp by (intro split_field split_whole) simp_all
  then show ?thesis using assms(1-4) aesDecrypt_short [OF assms(1) k assms(6)]
    by (simp add: checkToken_def crypt_split_def base64_decode_encode atoi_itostr i32_id)
qed

theorem short_token_faults_witness:
  "checkToken crypt_timeouts_init 1000000 (replicate 64 1) (base64Encode (itostr 1000000 @ 38 # base64Encode [0])) [] = Fault"
  by (rule short_token_faults) (simp_all add: crypt_timeouts_init_def)

text \<open>An encrypted text comes back within its timeout; an old token or text is refused.\<close>

lemma text_roundtrip:
  assumes "length mem = 64" "length mem' = 64" "- (2 ^ 31) \<le> t" "t < 2 ^ 31" "\<bar>now - t\<bar> \<le> text_timeout c"
    "length text < 2 ^ 31 - 32" "- (2 ^ 31) \<le> rnd" "rnd < 2 ^ 31"
  shows "decrypt c now mem' (snd (encrypt t rnd mem text out)) out' = Done (AUTHERR_OK, text)"
proof -
  note tm = itostr_facts [OF assms(3,4)] and r = itostr_facts [OF assms(7,8)]
  have k: "length (itostr t) < 2 ^ 32" using tm(1) by simp
  note inv = aes_inverse [OF assms(1,2) k assms(6), of "[]" out']
  obtain ret enc where e: "aesEncrypt mem text (itostr t) [] = (ret, enc)" by fastforce
  with inv have ret: "\<not> ret < 0" and dec: "aesDecrypt mem' enc (itostr t) out' = Done (int (length text), text)"
    by simp_all
  have "enc \<noteq> []" using dec assms(2) k by (auto simp: aesDecrypt_short)
  then have "split (itostr t @ 38 # itostr rnd @ 38 # base64Encode enc) [38] = Done [itostr t, itostr rnd, base64Encode enc]"
    using tm r base64Encode_nonempty base64Encode_no_amp by (intro split_field split_whole) simp_all
  then show ?thesis using assms(3-5) e ret dec
    by (simp add: encrypt_def decrypt_def crypt_split_def base64_decode_encode atoi_itostr i32_id)
qed

lemma old_token_refused:
  assumes "- (2 ^ 31) \<le> t" "t < 2 ^ 31" "\<bar>now - t\<bar> > token_timeout c" "s \<noteq> []"
  shows "checkToken c now mem (base64Encode (itostr t @ 38 # base64Encode s)) minfo = Done (AUTHERR_TIMEOUT, minfo)"
proof -
  note tm = itostr_facts [OF assms(1,2)]
  have "split (itostr t @ 38 # base64Encode s) [38] = Done [itostr t, base64Encode s]"
    using tm assms(4) base64Encode_nonempty base64Encode_no_amp by (intro split_field split_whole) simp_all
  then show ?thesis using assms(1-3)
    by (simp add: checkToken_def crypt_split_def base64_decode_encode atoi_itostr i32_id)
qed

end
