(* ===== verification/ThreadPool.thy ===== *)
theory ThreadPool
  imports LoopBuf "HOL-Library.Sublist"
begin

text \<open>
  The thread pool of \<^verbatim>\<open>efnfw/base/ef_thread_pool.cpp\<close>: one worker, any number of threads that add tasks, one that stops
  the pool. Under the mutex a whole section is one step; the tests outside of it, the semaphore and the join are steps
  of their own. A task is the eight bytes of its pointer in the \<open>LoopBuf\<close>. The pool is started once and
  stopped after that, as joining a thread that was never made is undefined.
\<close>

type_synonym task = bytes

definition null_task :: task where "null_task = replicate 8 0"

definition is_task :: "task \<Rightarrow> bool" where "is_task t \<longleftrightarrow> length t = 8 \<and> t \<noteq> null_task"

text \<open>
  Where the worker is: not made yet, before \<open>semTake\<close>, before the lock, running a task, at the end; \<open>W_hang\<close> is inside
  \<^verbatim>\<open>m_tasks.read\<close> for ever, with the mutex. Where \<open>stop\<close> is: not called, after the flag, in \<open>threadJoin\<close>, returned.
\<close>

datatype tp_worker = W_none | W_take | W_lock | W_run task | W_exit | W_hang
datatype tp_stopper = S_idle | S_flag | S_join | S_done

text \<open>The last three fields record the history: tasks written, tasks run, and tasks written before \<open>stop\<close> gave the semaphore.\<close>

record pool =
  tp_run :: bool
  tp_sem :: nat
  tp_tasks :: loop_buf
  tp_worker :: tp_worker
  tp_stopper :: tp_stopper
  tp_adders :: "task list"
  tp_added :: "task list"
  tp_done :: "task list"
  tp_before :: "task list"

definition ThreadPool_init :: pool where
  "ThreadPool_init = \<lparr>tp_run = False, tp_sem = 0, tp_tasks = LoopBuf, tp_worker = W_none, tp_stopper = S_idle,
     tp_adders = [], tp_added = [], tp_done = [], tp_before = []\<rparr>"

definition tp_start :: "pool \<Rightarrow> pool" where
  "tp_start s = s\<lparr>tp_run := True, tp_worker := W_take\<rparr>"

definition addTask_locked :: "task \<Rightarrow> pool \<Rightarrow> pool" where
  "addTask_locked t s = s\<lparr>tp_tasks := fst (autoResizeWrite (tp_tasks s) t 8), tp_sem := tp_sem s + 1,
     tp_added := tp_added s @ [t]\<rparr>"

definition getTask_locked :: "pool \<Rightarrow> pool" where
  "getTask_locked s =
     (case lb_read (tp_tasks s) False 8 of
        Done (lb, t) \<Rightarrow>
          s\<lparr>tp_tasks := lb, tp_worker := (if length t < 8 \<or> t = null_task then W_exit else W_run t)\<rparr>
      | _ \<Rightarrow> s\<lparr>tp_worker := W_hang\<rparr>)"

inductive pool_step :: "pool \<Rightarrow> pool \<Rightarrow> bool" where
  p_start: "tp_worker s = W_none \<Longrightarrow> pool_step s (tp_start s)"
| p_check: "tp_run s \<Longrightarrow> is_task t \<Longrightarrow> pool_step s (s\<lparr>tp_adders := t # tp_adders s\<rparr>)"
| p_add: "tp_adders s = xs @ t # ys \<Longrightarrow> tp_worker s \<noteq> W_hang \<Longrightarrow>
    pool_step s (addTask_locked t (s\<lparr>tp_adders := xs @ ys\<rparr>))"
| p_take: "tp_worker s = W_take \<Longrightarrow> 0 < tp_sem s \<Longrightarrow> pool_step s (s\<lparr>tp_sem := tp_sem s - 1, tp_worker := W_lock\<rparr>)"
| p_get: "tp_worker s = W_lock \<Longrightarrow> pool_step s (getTask_locked s)"
| p_run: "tp_worker s = W_run t \<Longrightarrow> pool_step s (s\<lparr>tp_done := tp_done s @ [t], tp_worker := W_take\<rparr>)"
| p_stop: "tp_worker s \<noteq> W_none \<Longrightarrow> tp_stopper s = S_idle \<Longrightarrow> pool_step s (s\<lparr>tp_run := False, tp_stopper := S_flag\<rparr>)"
| p_give: "tp_stopper s = S_flag \<Longrightarrow>
    pool_step s (s\<lparr>tp_sem := tp_sem s + 1, tp_stopper := S_join, tp_before := tp_added s\<rparr>)"
| p_join: "tp_stopper s = S_join \<Longrightarrow> tp_worker s = W_exit \<Longrightarrow> pool_step s (s\<lparr>tp_stopper := S_done\<rparr>)"

inductive_cases pool_stepE: "pool_step s s'"

subsection \<open>The invariant\<close>

definition in_hand :: "pool \<Rightarrow> task list" where
  "in_hand s = (case tp_worker s of W_run t \<Rightarrow> [t] | _ \<Rightarrow> [])"

definition given :: "pool \<Rightarrow> bool" where
  "given s \<longleftrightarrow> tp_stopper s = S_join \<or> tp_stopper s = S_done"

definition over :: "pool \<Rightarrow> bool" where
  "over s \<longleftrightarrow> tp_worker s = W_exit \<or> tp_worker s = W_hang"

text \<open>
  The buffer holds the tasks that were written and not read, in order; the semaphore counts them and the one of \<open>stop\<close>,
  until the worker takes it.
\<close>

definition pool_inv :: "pool \<Rightarrow> bool" where
  "pool_inv s \<longleftrightarrow>
     lb_inv (tp_tasks s) \<and> (\<forall>t \<in> set (tp_adders s) \<union> set (tp_added s). is_task t) \<and>
     (\<exists>q. lb_data (tp_tasks s) = concat q \<and> tp_added s = tp_done s @ in_hand s @ q \<and>
        tp_sem s + of_bool (tp_worker s = W_lock \<or> over s) = length q + of_bool (given s)) \<and>
     (over s \<longrightarrow> given s \<and> prefix (tp_before s) (tp_done s)) \<and>
     (given s \<longrightarrow> prefix (tp_before s) (tp_added s)) \<and>
     (tp_stopper s = S_done \<longrightarrow> tp_worker s = W_exit)"

lemma pool_invD:
  assumes "pool_inv s"
  obtains q where "lb_inv (tp_tasks s)" "\<forall>t \<in> set (tp_adders s). is_task t" "\<forall>t \<in> set (tp_added s). is_task t"
    "lb_data (tp_tasks s) = concat q" "tp_added s = tp_done s @ in_hand s @ q"
    "tp_sem s + of_bool (tp_worker s = W_lock \<or> over s) = length q + of_bool (given s)"
    "over s \<Longrightarrow> given s \<and> prefix (tp_before s) (tp_done s)" "given s \<Longrightarrow> prefix (tp_before s) (tp_added s)"
    "tp_stopper s = S_done \<Longrightarrow> tp_worker s = W_exit"
  using assms unfolding pool_inv_def by blast

lemma write_task:
  assumes "lb_inv lb" "is_task t"
  shows "lb_inv (fst (autoResizeWrite lb t 8)) \<and> lb_data (fst (autoResizeWrite lb t 8)) = lb_data lb @ t"
proof -
  have len: "length t = 8" using assms(2) by (simp add: is_task_def)
  have "(length t - snd (lb_write lb t (length t))) mod 2048 \<le> 2016" by (simp add: len)
  from autoResizeWrite_lossless [OF assms(1) this] autoResizeWrite_inv [OF assms(1), of t] show ?thesis by (simp add: len)
qed

lemma pool_inv_init: "pool_inv ThreadPool_init"
  by (simp add: pool_inv_def ThreadPool_init_def in_hand_def over_def given_def)

lemma pool_inv_add:
  assumes "pool_inv s" "tp_adders s = xs @ t # ys" "tp_worker s \<noteq> W_hang"
  shows "pool_inv (addTask_locked t (s\<lparr>tp_adders := xs @ ys\<rparr>))"
proof -
  let ?s = "addTask_locked t (s\<lparr>tp_adders := xs @ ys\<rparr>)"
  obtain q where q: "lb_inv (tp_tasks s)" "\<forall>t \<in> set (tp_adders s). is_task t" "\<forall>t \<in> set (tp_added s). is_task t"
    "lb_data (tp_tasks s) = concat q" "tp_added s = tp_done s @ in_hand s @ q"
    "tp_sem s + of_bool (tp_worker s = W_lock \<or> over s) = length q + of_bool (given s)"
    "over s \<Longrightarrow> given s \<and> prefix (tp_before s) (tp_done s)" "given s \<Longrightarrow> prefix (tp_before s) (tp_added s)"
    "tp_stopper s = S_done \<Longrightarrow> tp_worker s = W_exit" by (rule pool_invD [OF assms(1)]) blast
  have t: "is_task t" using q(2) assms(2) by simp
  note w = write_task [OF q(1) t]
  have "lb_data (tp_tasks ?s) = concat (q @ [t])" using w q(4) by (simp add: addTask_locked_def)
  moreover have "tp_added ?s = tp_done ?s @ in_hand ?s @ q @ [t]" using q(5) by (simp add: addTask_locked_def in_hand_def)
  moreover have "tp_sem ?s + of_bool (tp_worker ?s = W_lock \<or> over ?s) = length (q @ [t]) + of_bool (given ?s)"
    using q(6) by (simp add: addTask_locked_def over_def given_def)
  ultimately have ex: "\<exists>q. lb_data (tp_tasks ?s) = concat q \<and> tp_added ?s = tp_done ?s @ in_hand ?s @ q \<and>
        tp_sem ?s + of_bool (tp_worker ?s = W_lock \<or> over ?s) = length q + of_bool (given ?s)" by blast
  have rest: "lb_inv (tp_tasks ?s)" "\<forall>t \<in> set (tp_adders ?s) \<union> set (tp_added ?s). is_task t"
    "over ?s = over s" "given ?s = given s" "tp_before ?s = tp_before s" "tp_done ?s = tp_done s"
    "tp_added ?s = tp_added s @ [t]" "tp_stopper ?s = tp_stopper s" "tp_worker ?s = tp_worker s"
    using w t q(2,3) assms(2) by (auto simp: addTask_locked_def over_def given_def)
  show ?thesis unfolding pool_inv_def
    using ex rest q(7-9) by (simp add: prefix_prefix)
qed

lemma read_task:
  assumes "pool_inv s" "tp_worker s = W_lock"
  obtains (task) lb t where "getTask_locked s = s\<lparr>tp_tasks := lb, tp_worker := W_run t\<rparr>" "lb_inv lb" "is_task t"
      "lb_data (tp_tasks s) = t @ lb_data lb" "length (lb_frames lb) = length (lb_frames (tp_tasks s))"
  | (none) lb w where "getTask_locked s = s\<lparr>tp_tasks := lb, tp_worker := w\<rparr>" "lb_inv lb" "lb_data (tp_tasks s) = []" "lb_data lb = []"
      "w = W_exit \<or> w = W_hang" "2 \<le> length (lb_frames (tp_tasks s)) \<Longrightarrow> w = W_hang \<and> lb = tp_tasks s"
      "length (lb_frames (tp_tasks s)) = 1 \<Longrightarrow> w = W_exit"
proof -
  obtain q where q: "lb_inv (tp_tasks s)" "\<forall>t \<in> set (tp_added s). is_task t"
    "lb_data (tp_tasks s) = concat q" "tp_added s = tp_done s @ in_hand s @ q" by (rule pool_invD [OF assms(1)]) blast
  show ?thesis
  proof (cases q)
    case (Cons t q')
    have t: "is_task t" using q(2,4) Cons by simp
    then have "8 \<le> length (lb_data (tp_tasks s))" using q(3) Cons by (simp add: is_task_def)
    then obtain lb where "lb_read (tp_tasks s) False 8 = Done (lb, take 8 (lb_data (tp_tasks s)))" "lb_inv lb"
      "lb_data lb = drop 8 (lb_data (tp_tasks s))" "length (lb_frames lb) = length (lb_frames (tp_tasks s))"
      using lb_read_done [OF q(1)] by blast
    then show ?thesis using t q(3) Cons
      by (intro task [where lb = lb and t = t]) (simp_all add: getTask_locked_def is_task_def)
  next
    case Nil
    show ?thesis
    proof (cases "2 \<le> length (lb_frames (tp_tasks s))")
      case True
      have "lb_read (tp_tasks s) False 8 = NoFuel"
        unfolding lb_read_def using q(1,3) Nil True by (intro lb_read_diverges) simp_all
      then show ?thesis using q Nil True
        by (intro none [where lb = "tp_tasks s" and w = W_hang]) (simp_all add: getTask_locked_def)
    next
      case False
      then obtain f where f: "lb_frames (tp_tasks s) = [f]"
        using lb_invD(5) [OF q(1)] by (cases "lb_frames (tp_tasks s)"; cases "tl (lb_frames (tp_tasks s))") auto
      obtain out f' where rd: "frame_read f 8 = (out, f')" by fastforce
      have ok: "frame_ok f" using lb_invD(1) [OF q(1)] f by simp
      have "frame_data f = []" using q(3) Nil f by (simp add: lb_data_def)
      then have o: "out = []" "frame_data f' = []" "frame_ok f'" using frame_read_spec [OF ok rd] by simp_all
      have sz: "lb_size (tp_tasks s) = 0" "m_w_pos (tp_tasks s) = 0" using lb_invD(2,4) [OF q(1)] q(3) Nil f by simp_all
      have "lb_read (tp_tasks s) False 8 = Done ((tp_tasks s)\<lparr>lb_frames := [f'], lb_size := 0\<rparr>, [])"
        using f rd o(1) sz by (simp add: lb_read_def lb_read_fuel_def)
      moreover have "lb_inv ((tp_tasks s)\<lparr>lb_frames := [f'], lb_size := 0\<rparr>)"
        using o sz by (simp add: lb_inv_def lb_data_def)
      ultimately show ?thesis using q(3) Nil o(2) False
        by (intro none [where lb = "(tp_tasks s)\<lparr>lb_frames := [f'], lb_size := 0\<rparr>" and w = W_exit])
          (simp_all add: getTask_locked_def lb_data_def)
    qed
  qed
qed

lemma pool_inv_get:
  assumes "pool_inv s" "tp_worker s = W_lock"
  shows "pool_inv (getTask_locked s)"
proof -
  obtain q where q: "lb_inv (tp_tasks s)" "\<forall>t \<in> set (tp_adders s). is_task t" "\<forall>t \<in> set (tp_added s). is_task t"
    "lb_data (tp_tasks s) = concat q" "tp_added s = tp_done s @ q"
    "tp_sem s + 1 = length q + of_bool (given s)"
    "given s \<Longrightarrow> prefix (tp_before s) (tp_added s)" "tp_stopper s \<noteq> S_done"
    by (rule pool_invD [OF assms(1)]) (use assms(2) in \<open>auto simp: in_hand_def\<close>)
  show ?thesis
  proof (rule read_task [OF assms])
    fix lb t
    assume task: "getTask_locked s = s\<lparr>tp_tasks := lb, tp_worker := W_run t\<rparr>" "lb_inv lb" "is_task t"
      "lb_data (tp_tasks s) = t @ lb_data lb" "length (lb_frames lb) = length (lb_frames (tp_tasks s))"
    have "q \<noteq> []" using task(3,4) q(4) by (auto simp: is_task_def)
    then obtain t' q' where q': "q = t' # q'" by (cases q) auto
    have "length t' = 8" "length t = 8" using q(3,5) q' task(3) by (auto simp: is_task_def)
    then have "t' = t" "lb_data lb = concat q'" using task(4) q(4) q' by simp_all
    then show ?thesis using q q' task
      by (auto simp: pool_inv_def in_hand_def given_def over_def)
  next
    fix lb w
    assume none: "getTask_locked s = s\<lparr>tp_tasks := lb, tp_worker := w\<rparr>" "lb_inv lb" "lb_data (tp_tasks s) = []" "lb_data lb = []"
      "w = W_exit \<or> w = W_hang"
    have "\<forall>t \<in> set q. is_task t" using q(3,5) by simp
    then have "q = []" using none(3) q(4) by (cases q) (auto simp: is_task_def)
    then have "given s" "tp_sem s = 0" using q(6) by (cases "given s"; simp)+
    then show ?thesis using q none(1,2,4,5) \<open>q = []\<close>
      by (auto simp: pool_inv_def in_hand_def given_def over_def)
  qed
qed

lemma pool_inv_step:
  assumes "pool_step s s'" "pool_inv s"
  shows "pool_inv s'"
  using assms(1)
proof cases
  case (p_add xs t ys)
  with pool_inv_add assms(2) show ?thesis by blast
next
  case p_get
  with pool_inv_get assms(2) show ?thesis by blast
next
  case p_take
  then obtain n where "tp_sem s = Suc n" by (cases "tp_sem s") auto
  with p_take assms(2) show ?thesis
    by (auto simp: pool_inv_def in_hand_def given_def over_def)
next
  case (p_run t)
  with assms(2) show ?thesis
    by (auto simp: pool_inv_def in_hand_def given_def over_def)
qed (use assms(2) in \<open>auto simp: pool_inv_def in_hand_def given_def over_def tp_start_def\<close>)

lemma pool_inv_steps: "pool_step\<^sup>*\<^sup>* s s' \<Longrightarrow> pool_inv s \<Longrightarrow> pool_inv s'"
  by (induction rule: rtranclp_induct) (auto intro: pool_inv_step)

lemma pool_inv_reachable: "pool_step\<^sup>*\<^sup>* ThreadPool_init s \<Longrightarrow> pool_inv s"
  using pool_inv_steps pool_inv_init by blast

subsection \<open>Runs\<close>

lemma autoResizeWrite_caps:
  assumes "lb_inv lb"
  shows "\<exists>cs. map m_cap (lb_frames (fst (autoResizeWrite lb t (length t)))) = map m_cap (lb_frames lb) @ cs"
proof -
  obtain lb1 ret where w: "lb_write lb t (length t) = (lb1, ret)" by fastforce
  note W = lb_write_spec [OF assms order_refl w]
  obtain lb2 k where w2: "lb_write (lb_extend lb1 (length t - ret)) (drop ret t) (length t - ret) = (lb2, k)" by fastforce
  have "map m_cap (lb_frames lb2) = map m_cap (lb_frames (lb_extend lb1 (length t - ret)))"
    by (intro lb_write_spec(5) [OF _ _ w2] lb_extend_spec(1) [OF W(1)]) simp
  then show ?thesis using w w2 W(5) by (simp add: autoResizeWrite_def lb_extend_def)
qed

lemma add_tasks:
  assumes "pool_inv s" "tp_run s" "tp_worker s \<noteq> W_hang" "is_task t"
  shows "\<exists>s'. pool_step\<^sup>*\<^sup>* s s' \<and> pool_inv s' \<and> tp_run s' \<and> tp_worker s' = tp_worker s \<and> tp_stopper s' = tp_stopper s \<and>
    tp_sem s' = tp_sem s + n \<and> tp_done s' = tp_done s \<and> tp_added s' = tp_added s @ replicate n t \<and>
    (length (lb_frames (tp_tasks s')) = 1 \<longrightarrow> map m_cap (lb_frames (tp_tasks s')) = map m_cap (lb_frames (tp_tasks s)))"
proof (induction n)
  case 0
  then show ?case using assms by (intro exI [of _ s]) simp
next
  case (Suc n)
  then obtain s' where s': "pool_step\<^sup>*\<^sup>* s s'" "pool_inv s'" "tp_run s'" "tp_worker s' = tp_worker s" "tp_stopper s' = tp_stopper s"
    "tp_sem s' = tp_sem s + n" "tp_done s' = tp_done s" "tp_added s' = tp_added s @ replicate n t"
    "length (lb_frames (tp_tasks s')) = 1 \<longrightarrow> map m_cap (lb_frames (tp_tasks s')) = map m_cap (lb_frames (tp_tasks s))"
    by blast
  let ?s1 = "s'\<lparr>tp_adders := t # tp_adders s'\<rparr>" and ?s2 = "addTask_locked t s'"
  have "pool_step s' ?s1" by (rule p_check [OF s'(3) assms(4)])
  moreover have "pool_step ?s1 (addTask_locked t (?s1\<lparr>tp_adders := [] @ tp_adders s'\<rparr>))"
    using s'(4) assms(3) by (intro p_add) simp_all
  then have "pool_step ?s1 ?s2" by simp
  ultimately have steps: "pool_step\<^sup>*\<^sup>* s ?s2" using s'(1) by (meson rtranclp.rtrancl_into_rtrancl)
  have "lb_inv (tp_tasks s')" "length t = 8" using s'(2) assms(4) by (auto simp: pool_inv_def is_task_def)
  then obtain cs where cs: "map m_cap (lb_frames (tp_tasks ?s2)) = map m_cap (lb_frames (tp_tasks s')) @ cs"
    using autoResizeWrite_caps [of "tp_tasks s'" t] by (auto simp: addTask_locked_def)
  have ne: "lb_frames (tp_tasks s') \<noteq> []" using lb_invD(5) s'(2) by (auto simp: pool_inv_def)
  have "map m_cap (lb_frames (tp_tasks ?s2)) = map m_cap (lb_frames (tp_tasks s))"
    if one: "length (lb_frames (tp_tasks ?s2)) = 1"
  proof -
    have "length (lb_frames (tp_tasks s')) + length cs = 1" using arg_cong [OF cs, of length] one by simp
    then have "cs = []" "length (lb_frames (tp_tasks s')) = 1"
      using ne by (cases cs; cases "lb_frames (tp_tasks s')"; simp)+
    then show ?thesis using s'(9) cs by simp
  qed
  moreover have "pool_inv ?s2" using pool_inv_steps [OF steps assms(1)] .
  ultimately show ?case using steps s'
    by (intro exI [of _ ?s2]) (simp add: addTask_locked_def replicate_append_same)
qed

lemma started: "pool_step\<^sup>*\<^sup>* ThreadPool_init (tp_start ThreadPool_init)"
  by (rule r_into_rtranclp, rule p_start) (simp add: ThreadPool_init_def)

text \<open>As many tasks as do not fit the first frame, 252 of them, bring a second one.\<close>

lemma pool_grows:
  assumes "is_task t"
  shows "\<exists>s. pool_step\<^sup>*\<^sup>* ThreadPool_init s \<and> 2 \<le> length (lb_frames (tp_tasks s)) \<and> tp_worker s \<noteq> W_exit"
proof -
  let ?s0 = "tp_start ThreadPool_init"
  have s0: "pool_inv ?s0" "tp_run ?s0" "tp_worker ?s0 \<noteq> W_hang" "tp_worker ?s0 = W_take"
    "map m_cap (lb_frames (tp_tasks ?s0)) = [2016]"
    using pool_inv_reachable [OF started]
    by (simp_all add: tp_start_def ThreadPool_init_def LoopBuf_def alignSize_def DEFAUTLT_ALIGN_SIZE_def)
  obtain s where s: "pool_step\<^sup>*\<^sup>* ?s0 s" "pool_inv s" "tp_worker s = W_take" "tp_done s = []"
    "tp_added s = replicate 253 t" "length (lb_frames (tp_tasks s)) = 1 \<longrightarrow> map m_cap (lb_frames (tp_tasks s)) = [2016]"
    using add_tasks [OF s0(1-3) assms, of 253] s0(4,5)
    by (auto simp: tp_start_def ThreadPool_init_def)
  have "length (lb_frames (tp_tasks s)) \<noteq> 1"
  proof
    assume one: "length (lb_frames (tp_tasks s)) = 1"
    then obtain f where f: "lb_frames (tp_tasks s) = [f]" "m_cap f = 2016"
      using s(6) by (cases "lb_frames (tp_tasks s)") auto
    obtain q where q: "lb_inv (tp_tasks s)" "lb_data (tp_tasks s) = concat q" "tp_added s = tp_done s @ in_hand s @ q"
      by (rule pool_invD [OF s(2)]) blast
    have "q = replicate 253 t" using q(3) s(3-5) by (simp add: in_hand_def)
    then have "length (lb_data (tp_tasks s)) = 2024"
      using assms q(2) by (simp add: length_concat is_task_def sum_list_replicate)
    moreover have "length (lb_data (tp_tasks s)) \<le> 2016"
      using lb_invD(1) [OF q(1)] f by (simp add: lb_data_def frame_ok_def)
    ultimately show False by simp
  qed
  moreover have "lb_frames (tp_tasks s) \<noteq> []" using lb_invD(5) s(2) by (auto simp: pool_inv_def)
  ultimately have "2 \<le> length (lb_frames (tp_tasks s))" by (cases "lb_frames (tp_tasks s)" rule: remdups_adj.cases) simp_all
  then show ?thesis using started s(1,3) by (intro exI [of _ s]) auto
qed

subsection \<open>Properties\<close>

text \<open>In every execution the tasks run in the order in which they were queued, each at most once, and when \<open>stop\<close> has
  returned all tasks queued before it raised the semaphore have run.\<close>

theorem pool_stop_drains:
  assumes "pool_step\<^sup>*\<^sup>* ThreadPool_init s"
  shows "prefix (tp_done s) (tp_added s) \<and> (tp_stopper s = S_done \<longrightarrow> prefix (tp_before s) (tp_done s))"
proof -
  obtain q where "tp_added s = tp_done s @ in_hand s @ q" "over s \<Longrightarrow> given s \<and> prefix (tp_before s) (tp_done s)"
    "tp_stopper s = S_done \<Longrightarrow> tp_worker s = W_exit"
    by (rule pool_invD [OF pool_inv_reachable [OF assms]]) blast
  then show ?thesis by (auto simp: over_def)
qed

text \<open>C10: Once more tasks have been waiting than fit one frame of the buffer, the pool never stops: the worker that
  \<open>stop\<close> wakes reads from the empty buffer, which does not return, and \<open>stop\<close> waits for the worker.\<close>

theorem grown_pool_never_stops:
  assumes "pool_step\<^sup>*\<^sup>* ThreadPool_init s" "2 \<le> length (lb_frames (tp_tasks s))" "tp_worker s \<noteq> W_exit"
    "pool_step\<^sup>*\<^sup>* s s'"
  shows "tp_worker s' \<noteq> W_exit \<and> tp_stopper s' \<noteq> S_done"
proof -
  have "2 \<le> length (lb_frames (tp_tasks s')) \<and> tp_worker s' \<noteq> W_exit \<and> pool_inv s'" using assms(4)
  proof (induction rule: rtranclp_induct)
    case base
    then show ?case using assms(2,3) pool_inv_reachable [OF assms(1)] by blast
  next
    case (step u v)
    have grow: "length (lb_frames lb) \<le> length (lb_frames (fst (autoResizeWrite lb t 8)))" if "lb_inv lb" "is_task t" for lb t
      using autoResizeWrite_caps [OF that(1), of t] that(2) by (metis is_task_def le_add1 length_append length_map)
    from step.hyps(2) have "2 \<le> length (lb_frames (tp_tasks v)) \<and> tp_worker v \<noteq> W_exit"
    proof cases
      case (p_add xs t ys)
      then have "lb_inv (tp_tasks u)" "is_task t" using step.IH by (auto simp: pool_inv_def)
      from grow [OF this] show ?thesis using p_add step.IH by (simp add: addTask_locked_def)
    next
      case p_get
      have "pool_inv u" using step.IH by blast
      then show ?thesis
        by (rule read_task [OF _ p_get(2)]) (use step.IH p_get(1) in auto)
    qed (use step.IH in \<open>auto simp: tp_start_def\<close>)
    then show ?case using pool_inv_step step by blast
  qed
  then show ?thesis by (auto simp: pool_inv_def)
qed

text \<open>Both at work: a pool that runs a task and stops, one that has grown and cannot.\<close>

lemma run_one:
  assumes "pool_inv s" "tp_worker s = W_take" "0 < tp_sem s" "tp_added s = tp_done s @ [t]"
  shows "\<exists>lb. pool_step\<^sup>*\<^sup>* s (s\<lparr>tp_sem := tp_sem s - 1, tp_tasks := lb, tp_done := tp_done s @ [t], tp_worker := W_take\<rparr>) \<and>
    length (lb_frames lb) = length (lb_frames (tp_tasks s))"
proof -
  let ?u = "s\<lparr>tp_sem := tp_sem s - 1, tp_worker := W_lock\<rparr>"
  have u: "pool_step s ?u" by (rule p_take [OF assms(2,3)])
  have inv: "pool_inv ?u" by (rule pool_inv_step [OF u assms(1)])
  obtain q where q: "lb_data (tp_tasks s) = concat q" "tp_added s = tp_done s @ q" "\<forall>t \<in> set (tp_added s). is_task t"
    by (rule pool_invD [OF assms(1)]) (use assms(2) in \<open>auto simp: in_hand_def\<close>)
  have "q = [t]" using q(2) assms(4) by simp
  then have d: "lb_data (tp_tasks ?u) = t" "is_task t" using q assms(4) by simp_all
  have lock: "tp_worker ?u = W_lock" by simp
  show ?thesis
  proof (rule read_task [OF inv lock])
    fix lb t'
    assume g: "getTask_locked ?u = ?u\<lparr>tp_tasks := lb, tp_worker := W_run t'\<rparr>" "is_task t'" "lb_data (tp_tasks ?u) = t' @ lb_data lb"
      "length (lb_frames lb) = length (lb_frames (tp_tasks ?u))"
    have "t = t' @ lb_data lb" "length t' = length t" using g(2,3) d by (simp_all add: is_task_def)
    then have "t' = t" by (metis append_eq_append_conv append_Nil2)
    then have v: "pool_step ?u (?u\<lparr>tp_tasks := lb, tp_worker := W_run t\<rparr>)" using p_get [OF lock] g(1) by simp
    have "pool_step (?u\<lparr>tp_tasks := lb, tp_worker := W_run t\<rparr>)
        (s\<lparr>tp_sem := tp_sem s - 1, tp_tasks := lb, tp_done := tp_done s @ [t], tp_worker := W_take\<rparr>)"
      using p_run [of "?u\<lparr>tp_tasks := lb, tp_worker := W_run t\<rparr>" t] by simp
    with u v g(4) show ?thesis
      by (intro exI [of _ lb]) (auto intro: converse_rtranclp_into_rtranclp)
  next
    assume "lb_data (tp_tasks ?u) = []"
    with d show ?thesis by (simp add: is_task_def)
  qed
qed

lemma end_one:
  assumes "pool_inv s" "tp_worker s = W_take" "0 < tp_sem s" "tp_added s = tp_done s" "length (lb_frames (tp_tasks s)) = 1"
  shows "\<exists>lb. pool_step\<^sup>*\<^sup>* s (s\<lparr>tp_sem := tp_sem s - 1, tp_tasks := lb, tp_worker := W_exit\<rparr>)"
proof -
  let ?u = "s\<lparr>tp_sem := tp_sem s - 1, tp_worker := W_lock\<rparr>"
  have u: "pool_step s ?u" by (rule p_take [OF assms(2,3)])
  have inv: "pool_inv ?u" by (rule pool_inv_step [OF u assms(1)])
  obtain q where q: "lb_data (tp_tasks s) = concat q" "tp_added s = tp_done s @ q"
    by (rule pool_invD [OF assms(1)]) (use assms(2) in \<open>auto simp: in_hand_def\<close>)
  have "q = []" using q(2) assms(4) by simp
  then have d: "lb_data (tp_tasks ?u) = []" using q by simp
  have lock: "tp_worker ?u = W_lock" by simp
  show ?thesis
  proof (rule read_task [OF inv lock])
    fix lb t'
    assume "is_task t'" "lb_data (tp_tasks ?u) = t' @ lb_data lb"
    with d show ?thesis by (simp add: is_task_def)
  next
    fix lb w
    assume g: "getTask_locked ?u = ?u\<lparr>tp_tasks := lb, tp_worker := w\<rparr>" "length (lb_frames (tp_tasks ?u)) = 1 \<Longrightarrow> w = W_exit"
    have "w = W_exit" using g(2) assms(5) by simp
    then have "pool_step ?u (s\<lparr>tp_sem := tp_sem s - 1, tp_tasks := lb, tp_worker := W_exit\<rparr>)" using p_get [OF lock] g(1) by simp
    with u show ?thesis by (intro exI [of _ lb]) (auto intro: converse_rtranclp_into_rtranclp)
  qed
qed

lemma first_write:
  assumes "length t = 8"
  shows "length (lb_frames (fst (autoResizeWrite LoopBuf t 8))) = 1"
proof -
  obtain lb1 n where w: "lb_write LoopBuf t 8 = (lb1, n)" by fastforce
  have len: "8 \<le> length t" using assms by simp
  note W = lb_write_spec [OF LoopBuf_inv len w]
  have "n = 8" using W(3)
    by (simp add: LoopBuf_def full_def lb_free_def freeSize_def alignSize_def DEFAUTLT_ALIGN_SIZE_def)
  moreover have "length (lb_frames lb1) = 1" using arg_cong [OF W(5), of length] by (simp add: LoopBuf_def)
  ultimately show ?thesis using w by (simp add: autoResizeWrite_def)
qed

theorem pool_stop_drains_witness:
  "\<exists>s. pool_step\<^sup>*\<^sup>* ThreadPool_init s \<and> tp_stopper s = S_done \<and> tp_before s = [replicate 8 1] \<and> prefix (tp_before s) (tp_done s)"
proof -
  let ?t = "replicate 8 1 :: task" and ?s0 = "tp_start ThreadPool_init"
  let ?s1 = "?s0\<lparr>tp_adders := [?t]\<rparr>" and ?s2 = "addTask_locked ?t ?s0"
  let ?s3 = "?s2\<lparr>tp_run := False, tp_stopper := S_flag\<rparr>"
  let ?s4 = "?s3\<lparr>tp_sem := 2, tp_stopper := S_join, tp_before := [?t]\<rparr>"
  have t: "is_task ?t" by (simp add: is_task_def null_task_def)
  have e: "tp_adders ?s0 = []" "tp_run ?s0" "tp_worker ?s0 = W_take" "tp_sem ?s0 = 0" "tp_stopper ?s0 = S_idle" "tp_added ?s0 = []" "tp_done ?s0 = []"
    "tp_tasks ?s0 = LoopBuf"
    by (simp_all add: tp_start_def ThreadPool_init_def)
  have "pool_step ?s0 ?s1" using p_check [of ?s0 ?t] t e by simp
  moreover have "pool_step ?s1 (addTask_locked ?t (?s1\<lparr>tp_adders := [] @ []\<rparr>))" by (rule p_add) (simp_all add: e)
  then have "pool_step ?s1 ?s2" by (simp add: tp_start_def ThreadPool_init_def)
  moreover have "pool_step ?s2 ?s3" by (rule p_stop) (simp_all add: addTask_locked_def e)
  moreover have "pool_step ?s3 (?s3\<lparr>tp_sem := tp_sem ?s3 + 1, tp_stopper := S_join, tp_before := tp_added ?s3\<rparr>)" by (rule p_give) simp
  then have "pool_step ?s3 ?s4" by (simp add: addTask_locked_def e numeral_2_eq_2)
  ultimately have r4: "pool_step\<^sup>*\<^sup>* ThreadPool_init ?s4" using started by (meson rtranclp.rtrancl_into_rtrancl)
  have frames: "length (lb_frames (tp_tasks ?s4)) = 1" using first_write [of ?t] by (simp add: addTask_locked_def e)
  obtain lb where r5: "pool_step\<^sup>*\<^sup>* ?s4 (?s4\<lparr>tp_sem := 1, tp_tasks := lb, tp_done := [?t], tp_worker := W_take\<rparr>)"
    and lb: "length (lb_frames lb) = 1"
    using run_one [OF pool_inv_reachable [OF r4], of ?t] frames by (auto simp: addTask_locked_def e)
  let ?s5 = "?s4\<lparr>tp_sem := 1, tp_tasks := lb, tp_done := [?t], tp_worker := W_take\<rparr>"
  from r4 r5 have r5: "pool_step\<^sup>*\<^sup>* ThreadPool_init ?s5" by (rule rtranclp_trans)
  obtain lb' where r6: "pool_step\<^sup>*\<^sup>* ?s5 (?s5\<lparr>tp_sem := 0, tp_tasks := lb', tp_worker := W_exit\<rparr>)"
    using end_one [OF pool_inv_reachable [OF r5]] lb by (auto simp: addTask_locked_def e)
  let ?s6 = "?s5\<lparr>tp_sem := 0, tp_tasks := lb', tp_worker := W_exit\<rparr>"
  have "pool_step ?s6 (?s6\<lparr>tp_stopper := S_done\<rparr>)" by (rule p_join) simp_all
  with r5 r6 have r7: "pool_step\<^sup>*\<^sup>* ThreadPool_init (?s6\<lparr>tp_stopper := S_done\<rparr>)"
    by (meson rtranclp.rtrancl_into_rtrancl rtranclp_trans)
  from pool_stop_drains [OF r7] r7 show ?thesis by (intro exI conjI) (assumption | simp)+
qed

theorem grown_pool_never_stops_witness:
  "\<exists>s. pool_step\<^sup>*\<^sup>* ThreadPool_init s \<and> 2 \<le> length (lb_frames (tp_tasks s)) \<and> tp_stopper s \<noteq> S_done"
proof -
  obtain s where "pool_step\<^sup>*\<^sup>* ThreadPool_init s" "2 \<le> length (lb_frames (tp_tasks s))" "tp_worker s \<noteq> W_exit"
    using pool_grows [of "replicate 8 1"] by (auto simp: is_task_def null_task_def)
  with grown_pool_never_stops [OF this rtranclp.rtrancl_refl] show ?thesis by blast
qed

text \<open>A NULL task ends the worker, too.\<close>

lemma null_task_ends:
  assumes "lb_read (tp_tasks s) False 8 = Done (lb, null_task)"
  shows "tp_worker (getTask_locked s) = W_exit"
  using assms by (simp add: getTask_locked_def)

end
