(* ===== verification/Config.thy ===== *)
theory Config
  imports ServerStatus
begin

text \<open>
  The configurations of the two servers: \<^verbatim>\<open>connect_server/src/server_config.cpp\<close> and \<^verbatim>\<open>push_server/src/main_config.cpp\<close>, read from
  and written to JSON, with the names of log levels of \<^verbatim>\<open>ef_log.cpp\<close>. The content of the file and the JSON parser are
  parameters. Numbers that the constructors leave unset are whatever the record holds at the start.
\<close>

subsection \<open>Log levels\<close>

definition LOG_LEVEL_ALL :: int where "LOG_LEVEL_ALL = 0"
definition LOG_LEVEL_DEBUG :: int where "LOG_LEVEL_DEBUG = 1"
definition LOG_LEVEL_TRACE :: int where "LOG_LEVEL_TRACE = 2"
definition LOG_LEVEL_INFO :: int where "LOG_LEVEL_INFO = 3"
definition LOG_LEVEL_WARN :: int where "LOG_LEVEL_WARN = 4"
definition LOG_LEVEL_ERROR :: int where "LOG_LEVEL_ERROR = 5"
definition LOG_LEVEL_NOT :: int where "LOG_LEVEL_NOT = 6"

lemmas log_levels = LOG_LEVEL_ALL_def LOG_LEVEL_DEBUG_def LOG_LEVEL_TRACE_def LOG_LEVEL_INFO_def LOG_LEVEL_WARN_def
  LOG_LEVEL_ERROR_def LOG_LEVEL_NOT_def

definition upper :: "byte \<Rightarrow> byte" where
  "upper c = (if ch CHR ''a'' \<le> c \<and> c \<le> ch CHR ''z'' then c - 32 else c)"

text \<open>\<^verbatim>\<open>strncasecmp(level, name, strlen(name)) == 0\<close>\<close>

definition level_is :: "string \<Rightarrow> bytes \<Rightarrow> bool" where
  "level_is name level \<longleftrightarrow> map upper (take (length name) level) = bytes_of name"

definition getStrLevel :: "bytes \<Rightarrow> int" where
  "getStrLevel level =
     (if level_is ''NOT'' level then LOG_LEVEL_NOT
      else if level_is ''ALL'' level then LOG_LEVEL_ALL
      else if level_is ''DEBUG'' level then LOG_LEVEL_DEBUG
      else if level_is ''TRACE'' level then LOG_LEVEL_TRACE
      else if level_is ''INFO'' level then LOG_LEVEL_INFO
      else if level_is ''WARN'' level then LOG_LEVEL_WARN
      else if level_is ''ERROR'' level then LOG_LEVEL_ERROR
      else 0)"

subsection \<open>Reading\<close>

text \<open>
  The pattern \<^verbatim>\<open>if (v[key].isString()) field = v[key].asString();\<close>, the same with \<^verbatim>\<open>isArray()\<close> and the value itself, and
  with a level. \<open>set_int\<close> is the one for numbers.
\<close>

definition set_str :: "json \<Rightarrow> string \<Rightarrow> (bytes \<Rightarrow> 'r \<Rightarrow> 'r) \<Rightarrow> 'r \<Rightarrow> 'r outcome" where
  "set_str v key upd r =
     bind_outcome (jget v key) (\<lambda>x. if isString x then bind_outcome (asString x) (\<lambda>s. Done (upd s r)) else Done r)"

definition set_arr :: "json \<Rightarrow> string \<Rightarrow> (json \<Rightarrow> 'r \<Rightarrow> 'r) \<Rightarrow> 'r \<Rightarrow> 'r outcome" where
  "set_arr v key upd r = bind_outcome (jget v key) (\<lambda>x. Done (if isArray x then upd x r else r))"

record cli_config =
  cc_Enc :: int
  cc_AliveMs :: int
  cc_MinType :: int
  cc_MaxType :: int
  cc_ListenPort :: int
  cc_MaxReqQueSize :: int
  cc_MaxPackCntPerMin :: int
  cc_StartThreadIdx :: int
  cc_ThreadCnt :: int

record server_config =
  sc_ID :: int
  sc_ThreadCount :: int
  sc_ZkUrl :: bytes
  sc_StatusZkPath :: bytes
  sc_NetLogLevel :: int
  sc_NetLogPath :: bytes
  sc_LogConfig :: bytes
  sc_SessCacheConfig :: json
  sc_TokenKeyPath :: bytes
  sc_CliConfigs :: "cli_config list"

text \<open>The constructor; \<open>junk\<close> is what the unset number holds.\<close>

definition ServerConfig_init :: "int \<Rightarrow> server_config" where
  "ServerConfig_init junk = \<lparr>sc_ID = 0, sc_ThreadCount = 0, sc_ZkUrl = [], sc_StatusZkPath = [], sc_NetLogLevel = junk,
     sc_NetLogPath = [], sc_LogConfig = [], sc_SessCacheConfig = nullValue, sc_TokenKeyPath = [], sc_CliConfigs = []\<rparr>"

text \<open>\<open>need_int\<close>: the pattern \<^verbatim>\<open>if(!cf[key].isInt()) return -1;\<close>, \<open>None\<close> for the return.\<close>

definition need_int :: "json \<Rightarrow> string \<Rightarrow> (int \<Rightarrow> 'a option outcome) \<Rightarrow> 'a option outcome" where
  "need_int cf key f =
     bind_outcome (jget cf key) (\<lambda>x. if isInt x then bind_outcome (asInt x) f else Done None)"

definition parse_cli :: "json \<Rightarrow> cli_config option outcome" where
  "parse_cli cf =
     need_int cf ''Enc'' (\<lambda>enc. need_int cf ''AliveMs'' (\<lambda>alive. need_int cf ''MinType'' (\<lambda>mint.
     need_int cf ''MaxType'' (\<lambda>maxt. need_int cf ''ListenPort'' (\<lambda>port. need_int cf ''MaxReqQueSize'' (\<lambda>que.
     need_int cf ''MaxPackCntPerMin'' (\<lambda>cnt. need_int cf ''StartThreadIdx'' (\<lambda>start. need_int cf ''ThreadCnt'' (\<lambda>thr.
       Done (Some \<lparr>cc_Enc = enc, cc_AliveMs = alive, cc_MinType = mint, cc_MaxType = maxt, cc_ListenPort = port,
         cc_MaxReqQueSize = que, cc_MaxPackCntPerMin = cnt, cc_StartThreadIdx = start, cc_ThreadCnt = thr\<rparr>))))))))))"

text \<open>The values from \<open>begin\<close> to \<open>end\<close>: of an array or of an object, otherwise none.\<close>

definition iter_values :: "json \<Rightarrow> json list" where
  "iter_values v = (case v of arrayValue vs \<Rightarrow> vs | objectValue m \<Rightarrow> map snd m | _ \<Rightarrow> [])"

fun load_ports :: "json list \<Rightarrow> server_config \<Rightarrow> (int \<times> server_config) outcome" where
  "load_ports [] c = Done (0, c)"
| "load_ports (cf # cfs) c =
     bind_outcome (parse_cli cf) (\<lambda>r.
       case r of None \<Rightarrow> Done (-1, c)
       | Some cc \<Rightarrow> load_ports cfs (c\<lparr>sc_CliConfigs := sc_CliConfigs c @ [cc]\<rparr>))"

definition loadPortsConfigs :: "json \<Rightarrow> server_config \<Rightarrow> (int \<times> server_config) outcome" where
  "loadPortsConfigs v c = load_ports (iter_values v) c"

definition sc_parseFromJson :: "json \<Rightarrow> server_config \<Rightarrow> (int \<times> server_config) outcome" where
  "sc_parseFromJson jroot c =
     bind_outcome (set_int jroot ''ID'' (\<lambda>i c. c\<lparr>sc_ID := i\<rparr>) c) (\<lambda>c.
     bind_outcome (set_int jroot ''ThreadCount'' (\<lambda>i c. c\<lparr>sc_ThreadCount := i\<rparr>) c) (\<lambda>c.
     bind_outcome (set_str jroot ''ZkUrl'' (\<lambda>s c. c\<lparr>sc_ZkUrl := s\<rparr>) c) (\<lambda>c.
     bind_outcome (set_str jroot ''StatusZkPath'' (\<lambda>s c. c\<lparr>sc_StatusZkPath := s\<rparr>) c) (\<lambda>c.
     bind_outcome (set_str jroot ''NetLogLevel'' (\<lambda>s c. c\<lparr>sc_NetLogLevel := getStrLevel s\<rparr>) c) (\<lambda>c.
     bind_outcome (set_str jroot ''NetLogPath'' (\<lambda>s c. c\<lparr>sc_NetLogPath := s\<rparr>) c) (\<lambda>c.
     bind_outcome (set_str jroot ''LogConfig'' (\<lambda>s c. c\<lparr>sc_LogConfig := s\<rparr>) c) (\<lambda>c.
     bind_outcome (set_arr jroot ''SessCacheConfig'' (\<lambda>v c. c\<lparr>sc_SessCacheConfig := v\<rparr>) c) (\<lambda>c.
     bind_outcome (jget jroot ''CliConfigs'') (\<lambda>v. loadPortsConfigs v c)))))))))"

definition sc_init :: "(bytes \<Rightarrow> json option) \<Rightarrow> bytes option \<Rightarrow> server_config \<Rightarrow> (int \<times> server_config) outcome" where
  "sc_init parse file c =
     (case file of
        None \<Rightarrow> Done (-1, c)
      | Some text \<Rightarrow> (case parse text of None \<Rightarrow> Done (-2, c) | Some jroot \<Rightarrow> sc_parseFromJson jroot c))"

definition sc_serializeToJson :: "server_config \<Rightarrow> json \<Rightarrow> (int \<times> json) outcome" where
  "sc_serializeToJson c v =
     bind_outcome (jput ''ID'' (intValue (sc_ID c)) v) (\<lambda>v.
     bind_outcome (jput ''ThreadCount'' (intValue (sc_ThreadCount c)) v) (\<lambda>v.
     bind_outcome (jput ''ZkUrl'' (stringValue (sc_ZkUrl c)) v) (\<lambda>v.
     bind_outcome (jput ''NetLogLevel'' (intValue (sc_NetLogLevel c)) v) (\<lambda>v.
     bind_outcome (jput ''NetLogPath'' (stringValue (sc_NetLogPath c)) v) (\<lambda>v.
     bind_outcome (jput ''LogConfig '' (stringValue (sc_LogConfig c)) v) (\<lambda>v.
     bind_outcome (jput ''SessCacheConfig'' (sc_SessCacheConfig c) v) (\<lambda>v.
     bind_outcome (jput ''TokenKeyPath'' (stringValue (sc_TokenKeyPath c)) v) (\<lambda>v. Done (0, v)))))))))"

definition sc_toStyledString :: "(json \<Rightarrow> bytes) \<Rightarrow> server_config \<Rightarrow> bytes outcome" where
  "sc_toStyledString write c = bind_outcome (sc_serializeToJson c nullValue) (\<lambda>(ret, v). Done (write v))"

subsection \<open>The push server\<close>

record main_config =
  mc_ID :: int
  mc_Type :: int
  mc_ThreadCount :: int
  mc_ListenPort :: int
  mc_ZkUrl :: bytes
  mc_ConnSvZkPath :: bytes
  mc_KeepAliveSpanMS :: int
  mc_LogPath :: bytes
  mc_LogLevel :: int
  mc_NetLogPath :: bytes
  mc_NetLogLevel :: int
  mc_StatisLogPath :: bytes
  mc_SessCacheConfig :: json

definition MainConfig_init :: "int \<Rightarrow> main_config" where
  "MainConfig_init junk = \<lparr>mc_ID = 0, mc_Type = 0, mc_ThreadCount = 12, mc_ListenPort = junk, mc_ZkUrl = [],
     mc_ConnSvZkPath = [], mc_KeepAliveSpanMS = junk, mc_LogPath = [], mc_LogLevel = junk, mc_NetLogPath = [],
     mc_NetLogLevel = junk, mc_StatisLogPath = [], mc_SessCacheConfig = nullValue\<rparr>"

definition mc_parseFromJson :: "json \<Rightarrow> main_config \<Rightarrow> (int \<times> main_config) outcome" where
  "mc_parseFromJson jroot c =
     bind_outcome (set_int jroot ''ID'' (\<lambda>i c. c\<lparr>mc_ID := i\<rparr>) c) (\<lambda>c.
     bind_outcome (set_int jroot ''Type'' (\<lambda>i c. c\<lparr>mc_Type := i\<rparr>) c) (\<lambda>c.
     bind_outcome (set_int jroot ''ThreadCount'' (\<lambda>i c. c\<lparr>mc_ThreadCount := i\<rparr>) c) (\<lambda>c.
     bind_outcome (set_int jroot ''ListenPort'' (\<lambda>i c. c\<lparr>mc_ListenPort := i\<rparr>) (c\<lparr>mc_ListenPort := -1\<rparr>)) (\<lambda>c.
     bind_outcome (set_str jroot ''ZkUrl'' (\<lambda>s c. c\<lparr>mc_ZkUrl := s\<rparr>) c) (\<lambda>c.
     bind_outcome (set_str jroot ''ConnSvZkPath'' (\<lambda>s c. c\<lparr>mc_ConnSvZkPath := s\<rparr>) c) (\<lambda>c.
     bind_outcome (set_int jroot ''KeepAliveSpanMS'' (\<lambda>i c. c\<lparr>mc_KeepAliveSpanMS := i\<rparr>) c) (\<lambda>c.
     bind_outcome (set_str jroot ''NetLogLevel'' (\<lambda>s c. c\<lparr>mc_NetLogLevel := getStrLevel s\<rparr>) c) (\<lambda>c.
     bind_outcome (set_str jroot ''NetLogPath'' (\<lambda>s c. c\<lparr>mc_NetLogPath := s\<rparr>) c) (\<lambda>c.
     bind_outcome (set_str jroot ''LogLevel'' (\<lambda>s c. c\<lparr>mc_LogLevel := getStrLevel s\<rparr>) c) (\<lambda>c.
     bind_outcome (set_str jroot ''LogPath'' (\<lambda>s c. c\<lparr>mc_LogPath := s\<rparr>) c) (\<lambda>c.
     bind_outcome (set_str jroot ''StatisLogPath'' (\<lambda>s c. c\<lparr>mc_StatisLogPath := s\<rparr>) c) (\<lambda>c.
     bind_outcome (set_arr jroot ''SessCacheConfig'' (\<lambda>v c. c\<lparr>mc_SessCacheConfig := v\<rparr>) c) (\<lambda>c.
     Done (0, c))))))))))))))"

definition mc_init :: "(bytes \<Rightarrow> json option) \<Rightarrow> bytes option \<Rightarrow> main_config \<Rightarrow> (int \<times> main_config) outcome" where
  "mc_init parse file c =
     (case file of
        None \<Rightarrow> Done (-1, c)
      | Some text \<Rightarrow> (case parse text of None \<Rightarrow> Done (-2, c) | Some jroot \<Rightarrow> mc_parseFromJson jroot c))"

definition mc_serializeToJson :: "main_config \<Rightarrow> json \<Rightarrow> (int \<times> json) outcome" where
  "mc_serializeToJson c v =
     bind_outcome (jput ''ID'' (intValue (mc_ID c)) v) (\<lambda>v.
     bind_outcome (jput ''Type'' (intValue (mc_Type c)) v) (\<lambda>v.
     bind_outcome (jput ''ThreadCount'' (intValue (mc_ThreadCount c)) v) (\<lambda>v.
     bind_outcome (jput ''ListenPort'' (intValue (mc_ListenPort c)) v) (\<lambda>v.
     bind_outcome (jput ''ZkUrl'' (stringValue (mc_ZkUrl c)) v) (\<lambda>v.
     bind_outcome (jput ''ConnSvZkPath'' (stringValue (mc_ConnSvZkPath c)) v) (\<lambda>v.
     bind_outcome (jput ''SessCacheConfig'' (mc_SessCacheConfig c) v) (\<lambda>v.
     bind_outcome (jput ''KeepAliveSpanMS'' (intValue (mc_KeepAliveSpanMS c)) v) (\<lambda>v.
     bind_outcome (jput ''NetLogLevel'' (intValue (mc_NetLogLevel c)) v) (\<lambda>v.
     bind_outcome (jput ''NetLogPath'' (stringValue (mc_NetLogPath c)) v) (\<lambda>v.
     bind_outcome (jput ''LogLevel'' (intValue (mc_LogLevel c)) v) (\<lambda>v.
     bind_outcome (jput ''LogPath'' (stringValue (mc_LogPath c)) v) (\<lambda>v.
     bind_outcome (jput ''StatisLogPath'' (stringValue (mc_StatisLogPath c)) v) (\<lambda>v. Done (0, v))))))))))))))"

definition mc_toStyledString :: "(json \<Rightarrow> bytes) \<Rightarrow> main_config \<Rightarrow> bytes outcome" where
  "mc_toStyledString write c = bind_outcome (mc_serializeToJson c nullValue) (\<lambda>(ret, v). Done (write v))"

subsection \<open>What is read back\<close>

text \<open>
  The steps of reading, seen through the entry that the object has for a key. They leave keys as literals, so the
  keys' equations are decided once, here, on the texts.
\<close>

lemma set_steps:
  "map_of m (bytes_of k) = Some (intValue i) \<Longrightarrow> set_int (objectValue m) k upd r = Done (upd i r)"
  "map_of m (bytes_of k) = Some (intValue i) \<Longrightarrow> set_str (objectValue m) k supd r = Done r"
  "map_of m (bytes_of k) = Some (stringValue s) \<Longrightarrow> set_str (objectValue m) k supd r = Done (supd s r)"
  "map_of m (bytes_of k) = None \<Longrightarrow> set_str (objectValue m) k supd r = Done r"
  "map_of m (bytes_of k) = Some v \<Longrightarrow> isArray v \<Longrightarrow> set_arr (objectValue m) k vupd r = Done (vupd v r)"
  by (simp_all add: set_int_def set_str_def set_arr_def asInt_def asString_def)

lemma of_char_byte_inject: "(of_char c :: byte) = of_char d \<longleftrightarrow> c = d"
proof
  have u: "unat (of_char c :: byte) = of_char c" for c :: char
  proof -
    have "(of_char c :: byte) = of_nat (of_char c)" by (simp only: of_nat_of_char)
    moreover have "of_char c < (256 :: nat)" by (rule nat_of_char_less_256)
    ultimately show ?thesis by (simp add: unat_of_nat)
  qed
  assume "(of_char c :: byte) = of_char d"
  then show "c = d" using u by (metis of_char_eq_iff)
qed simp

lemma bytes_of_inject: "bytes_of s = bytes_of t \<longleftrightarrow> s = t"
  unfolding bytes_of_def by (rule inj_map_eq_map) (simp add: inj_def of_char_byte_inject)

text \<open>Reading back the JSON that a connect server's configuration is written to: number, threads, ZooKeeper's address,
  the path of the net log and the session caches come back. The level, the log's configuration, the path of the
  status, the key path and all listening ports do not: the level is written as a number and read as a name, the key of
  the log's configuration is written with a blank, the others are not written or not read.\<close>

theorem server_config_read_back:
  assumes "isArray (sc_SessCacheConfig c)" "sc_serializeToJson c nullValue = Done (ret, v)"
  shows "sc_parseFromJson v c0 =
    Done (0, c0\<lparr>sc_ID := sc_ID c, sc_ThreadCount := sc_ThreadCount c, sc_ZkUrl := sc_ZkUrl c,
      sc_NetLogPath := sc_NetLogPath c, sc_SessCacheConfig := sc_SessCacheConfig c\<rparr>)"
proof -
  obtain m where v: "v = objectValue m"
    and m: "map_of m = (\<lambda>x. None)(bytes_of ''ID'' \<mapsto> intValue (sc_ID c), bytes_of ''ThreadCount'' \<mapsto> intValue (sc_ThreadCount c),
      bytes_of ''ZkUrl'' \<mapsto> stringValue (sc_ZkUrl c), bytes_of ''NetLogLevel'' \<mapsto> intValue (sc_NetLogLevel c),
      bytes_of ''NetLogPath'' \<mapsto> stringValue (sc_NetLogPath c), bytes_of ''LogConfig '' \<mapsto> stringValue (sc_LogConfig c),
      bytes_of ''SessCacheConfig'' \<mapsto> sc_SessCacheConfig c, bytes_of ''TokenKeyPath'' \<mapsto> stringValue (sc_TokenKeyPath c))"
    using assms(2) by (auto simp: sc_serializeToJson_def simp del: bytes_of_simps map_put.simps)
  show ?thesis using assms(1)
    by (simp add: v sc_parseFromJson_def set_steps m bytes_of_inject loadPortsConfigs_def iter_values_def
        del: bytes_of_simps json_is_simps)
qed

theorem server_config_read_back_witness:
  "\<exists>v. sc_serializeToJson ((ServerConfig_init 2)\<lparr>sc_ID := 7, sc_LogConfig := [1]\<rparr>) nullValue = Done (0, v) \<and>
    sc_parseFromJson v (ServerConfig_init 6) = Done (0, (ServerConfig_init 6)\<lparr>sc_ID := 7\<rparr>)"
proof -
  let ?c = "(ServerConfig_init 2)\<lparr>sc_ID := 7, sc_LogConfig := [1]\<rparr>"
  obtain v where v: "sc_serializeToJson ?c nullValue = Done (0, v)"
    by (simp add: sc_serializeToJson_def del: bytes_of_simps map_put.simps)
  then show ?thesis using server_config_read_back [OF _ v, of "ServerConfig_init 6"]
    by (simp add: ServerConfig_init_def)
qed

text \<open>The push server's configuration comes back but for its two levels.\<close>

lemma main_config_read_back:
  assumes "isArray (mc_SessCacheConfig c)" "mc_serializeToJson c nullValue = Done (ret, v)"
  shows "mc_parseFromJson v c0 = Done (0, c\<lparr>mc_NetLogLevel := mc_NetLogLevel c0, mc_LogLevel := mc_LogLevel c0\<rparr>)"
proof -
  obtain m where v: "v = objectValue m"
    and m: "map_of m = (\<lambda>x. None)(bytes_of ''ID'' \<mapsto> intValue (mc_ID c), bytes_of ''Type'' \<mapsto> intValue (mc_Type c),
      bytes_of ''ThreadCount'' \<mapsto> intValue (mc_ThreadCount c), bytes_of ''ListenPort'' \<mapsto> intValue (mc_ListenPort c),
      bytes_of ''ZkUrl'' \<mapsto> stringValue (mc_ZkUrl c), bytes_of ''ConnSvZkPath'' \<mapsto> stringValue (mc_ConnSvZkPath c),
      bytes_of ''SessCacheConfig'' \<mapsto> mc_SessCacheConfig c, bytes_of ''KeepAliveSpanMS'' \<mapsto> intValue (mc_KeepAliveSpanMS c),
      bytes_of ''NetLogLevel'' \<mapsto> intValue (mc_NetLogLevel c), bytes_of ''NetLogPath'' \<mapsto> stringValue (mc_NetLogPath c),
      bytes_of ''LogLevel'' \<mapsto> intValue (mc_LogLevel c), bytes_of ''LogPath'' \<mapsto> stringValue (mc_LogPath c),
      bytes_of ''StatisLogPath'' \<mapsto> stringValue (mc_StatisLogPath c))"
    using assms(2) by (auto simp: mc_serializeToJson_def simp del: bytes_of_simps map_put.simps)
  show ?thesis using assms(1)
    by (cases c) (simp add: v mc_parseFromJson_def set_steps m bytes_of_inject del: bytes_of_simps json_is_simps)
qed

text \<open>Listening ports: all of a complete list are loaded; the first incomplete one ends with -1 and keeps those before.\<close>

definition cli_json :: "cli_config \<Rightarrow> json" where
  "cli_json cc = objectValue [(bytes_of ''Enc'', intValue (cc_Enc cc)), (bytes_of ''AliveMs'', intValue (cc_AliveMs cc)),
     (bytes_of ''MinType'', intValue (cc_MinType cc)), (bytes_of ''MaxType'', intValue (cc_MaxType cc)),
     (bytes_of ''ListenPort'', intValue (cc_ListenPort cc)), (bytes_of ''MaxReqQueSize'', intValue (cc_MaxReqQueSize cc)),
     (bytes_of ''MaxPackCntPerMin'', intValue (cc_MaxPackCntPerMin cc)),
     (bytes_of ''StartThreadIdx'', intValue (cc_StartThreadIdx cc)), (bytes_of ''ThreadCnt'', intValue (cc_ThreadCnt cc))]"

lemma parse_cli_json: "parse_cli (cli_json cc) = Done (Some cc)"
  by (cases cc) (simp add: parse_cli_def cli_json_def need_int_def asInt_def bytes_of_inject del: bytes_of_simps)

lemma load_ports_prefix:
  "load_ports (map cli_json ccs @ cfs) c = load_ports cfs (c\<lparr>sc_CliConfigs := sc_CliConfigs c @ ccs\<rparr>)"
  by (induction ccs arbitrary: c) (simp_all add: parse_cli_json)

lemma ports_loaded:
  "loadPortsConfigs (arrayValue (map cli_json ccs)) c = Done (0, c\<lparr>sc_CliConfigs := sc_CliConfigs c @ ccs\<rparr>)"
  using load_ports_prefix [of ccs "[]" c] by (simp add: loadPortsConfigs_def iter_values_def)

lemma ports_until_incomplete:
  "parse_cli cf = Done None \<Longrightarrow>
    loadPortsConfigs (arrayValue (map cli_json ccs @ cf # cfs)) c = Done (-1, c\<lparr>sc_CliConfigs := sc_CliConfigs c @ ccs\<rparr>)"
  by (simp add: loadPortsConfigs_def iter_values_def load_ports_prefix)

text \<open>A configuration without a net log level leaves the level as the memory had it.\<close>

lemma level_unset:
  "sc_parseFromJson (objectValue []) (ServerConfig_init junk) = Done (0, ServerConfig_init junk)"
  by (simp add: sc_parseFromJson_def set_int_def set_str_def set_arr_def loadPortsConfigs_def iter_values_def
      ServerConfig_init_def)

end
