(* ===== verification/Servers.thy ===== *)
theory Servers
  imports Config
begin

text \<open>
  The framework's server (\<^verbatim>\<open>efnfw/net/ef_server.cpp\<close>, \<^verbatim>\<open>efnfw/net/ef_acceptor.cpp\<close>) and the start and end of the two
  servers over it (\<^verbatim>\<open>connect_server/src/connect_server.cpp\<close>, \<^verbatim>\<open>push_server/src/logic_server.cpp\<close> and their \<open>main\<close>). What the
  parts under them return is an environment, what is asked of them is a list of events. A pointer is NULL, live
  or dangling; deleting a dangling one and joining a thread that is not running are undefined.
\<close>

datatype ptr = Null | Live | Freed
datatype thread_state = T_none | T_running | T_joined

datatype sv_event =
    Loop_init int | Listen int | Unlisten int | Thread int | Loop_stop int | Thread_join int
  | Zk_new | Zk_delete | Cache_init | Node_new | Node_delete | Publish server_status | Report json
  | Manager_new nat | Manager_delete nat

text \<open>
  Results: of \<open>EventLoop::init\<close> (-1 is the loop that accepts), of making a listening socket at a port, of the client of
  ZooKeeper, the session cache, the status node, the report of a status, and of the n-th server manager.
\<close>

record srv_env =
  e_loop_init :: "int \<Rightarrow> int"
  e_listen :: "int \<Rightarrow> int"
  e_zk_init :: int
  e_cache_init :: int
  e_node_init :: int
  e_report :: int
  e_man_init :: "nat \<Rightarrow> int"
  e_ips :: "bytes list"
  e_pub_ip :: "int + bytes"

subsection \<open>Acceptor\<close>

text \<open>
  What \<open>accept\<close> gives: an error or a socket with its address. The factory gives the connection of a socket, if any.
  \<open>accepted\<close> are the connections handed to the dispatcher, \<open>shut\<close> the sockets that were shut; the rest of
  the pending ones is left for the next event.
\<close>

datatype accept_result = A_error int | A_sock int "bytes" int

record 'c acceptor =
  a_fac :: "(int \<Rightarrow> bytes \<Rightarrow> int \<Rightarrow> 'c option) option"
  a_disp :: bool

fun acceptConnect :: "'c acceptor \<Rightarrow> accept_result list \<Rightarrow> 'c list \<Rightarrow> int list \<Rightarrow> 'c list \<times> int list \<times> accept_result list" where
  "acceptConnect a [] accepted shut = (accepted, shut, [])"
| "acceptConnect a (A_error e # rs) accepted shut = (accepted, shut, rs)"
| "acceptConnect a (A_sock fd addr port # rs) accepted shut =
     (case a_fac a of
        None \<Rightarrow> (accepted, shut @ [fd], rs)
      | Some fac \<Rightarrow>
          if \<not> a_disp a then (accepted, shut @ [fd], rs)
          else (case fac fd addr port of
                  None \<Rightarrow> (accepted, shut @ [fd], rs)
                | Some con \<Rightarrow> acceptConnect a rs (accepted @ [con]) shut))"

subsection \<open>Server\<close>

text \<open>\<open>s_loops\<close> is the length of the array of loops, 0 before it is made; \<open>s_disp\<close> is the static counter of the dispatcher.\<close>

record server =
  s_cnt :: int
  s_loops :: int
  s_acceptors :: "(int, unit) std_map"
  s_threads :: thread_state
  s_disp :: int

definition DEFAULT_THREAD_COUNT :: int where "DEFAULT_THREAD_COUNT = 64"

definition Server_init :: server where
  "Server_init = \<lparr>s_cnt = DEFAULT_THREAD_COUNT, s_loops = 0, s_acceptors = [], s_threads = T_none, s_disp = 0\<rparr>"

definition getEventLoop :: "int \<Rightarrow> server \<Rightarrow> int outcome" where
  "getEventLoop idx s = (if 0 \<le> idx \<and> idx < s_loops s then Done idx else Fault)"

text \<open>The number of the loop that a connection is added to.\<close>

definition gd_dispatchConnection :: "server \<Rightarrow> (int \<times> server) outcome" where
  "gd_dispatchConnection s =
     (let i = i32 (s_disp s + 1)
      in bind_outcome (getEventLoop (c_mod i (s_cnt s)) s) (\<lambda>l. Done (l, s\<lparr>s_disp := i\<rparr>)))"

definition setEventLoopCount :: "int \<Rightarrow> server \<Rightarrow> int \<times> server" where
  "setEventLoopCount cnt s = (let cnt = (if cnt \<le> 0 then 1 else cnt) in (0, s\<lparr>s_cnt := cnt, s_loops := cnt\<rparr>))"

fun init_loops :: "srv_env \<Rightarrow> nat \<Rightarrow> nat \<Rightarrow> int \<Rightarrow> sv_event list \<Rightarrow> int \<times> sv_event list" where
  "init_loops e i 0 ret ev = (ret, ev)"
| "init_loops e i (Suc n) ret ev =
     (let ret = e_loop_init e (int i); ev = ev @ [Loop_init (int i)]
      in if ret < 0 then (ret, ev) else init_loops e (i + 1) n ret ev)"

definition server_init :: "srv_env \<Rightarrow> server \<Rightarrow> sv_event list \<Rightarrow> int \<times> sv_event list" where
  "server_init e s ev =
     (let ret = e_loop_init e (-1); ev = ev @ [Loop_init (-1)]
      in if ret < 0 then (ret, ev) else init_loops e 0 (nat (s_cnt s)) ret ev)"

definition server_startListen :: "srv_env \<Rightarrow> int \<Rightarrow> server \<Rightarrow> sv_event list \<Rightarrow> int \<times> server \<times> sv_event list" where
  "server_startListen e port s ev =
     (let ret = (if e_listen e port < 0 then -1 else 0); ev = ev @ [Listen port]
      in if ret < 0 then (-1, s, ev) else (ret, s\<lparr>s_acceptors := map_put port () (s_acceptors s)\<rparr>, ev))"

definition server_stopListen :: "int \<Rightarrow> server \<Rightarrow> sv_event list \<Rightarrow> int \<times> server \<times> sv_event list" where
  "server_stopListen port s ev =
     (0, s\<lparr>s_acceptors := map_erase port (s_acceptors s)\<rparr>,
      if map_of (s_acceptors s) port \<noteq> None then ev @ [Unlisten port] else ev)"

definition server_run :: "server \<Rightarrow> sv_event list \<Rightarrow> int \<times> server \<times> sv_event list" where
  "server_run s ev = (0, s\<lparr>s_threads := T_running\<rparr>, ev @ [Thread (-1)] @ map Thread [0..s_cnt s - 1])"

definition server_stop :: "server \<Rightarrow> sv_event list \<Rightarrow> (int \<times> server \<times> sv_event list) outcome" where
  "server_stop s ev =
     (if s_threads s = T_running
      then Done (0, s\<lparr>s_threads := T_joined\<rparr>, ev @ [Loop_stop (-1), Thread_join (-1)] @
             map Loop_stop [0..s_cnt s - 1] @ map Thread_join [0..s_cnt s - 1])
      else Fault)"

definition del :: "ptr \<Rightarrow> sv_event \<Rightarrow> sv_event list \<Rightarrow> (ptr \<times> sv_event list) outcome" where
  \<comment> \<open>\<^verbatim>\<open>if(p){ delete p; p = NULL; }\<close>\<close>
  "del p d ev = (case p of Null \<Rightarrow> Done (Null, ev) | Live \<Rightarrow> Done (Null, ev @ [d]) | Freed \<Rightarrow> Fault)"

subsection \<open>Connect server\<close>

text \<open>\<open>cs_facs\<close>: the factories, with a dispatcher each.\<close>

record connect_server =
  cs_conf :: server_config
  cs_serv :: server
  cs_facs :: "ptr list"
  cs_status :: server_status
  cs_run :: bool
  cs_zkc :: ptr
  cs_zksvnd :: ptr
  cs_events :: "sv_event list"

definition ConnectServer_init :: "int \<Rightarrow> connect_server" where
  "ConnectServer_init junk = \<lparr>cs_conf = ServerConfig_init junk, cs_serv = Server_init, cs_facs = [],
     cs_status = \<lparr>ID = junk, IPs = [], Ports = [], Properties = nullValue\<rparr>, cs_run = False, cs_zkc = Null, cs_zksvnd = Null,
     cs_events = []\<rparr>"

definition cs_initZk :: "srv_env \<Rightarrow> connect_server \<Rightarrow> int \<times> connect_server" where
  "cs_initZk e s =
     (let s = s\<lparr>cs_zkc := Live, cs_events := cs_events s @ [Zk_new]\<rparr>
      in if e_zk_init e < 0 then (-5, s\<lparr>cs_zkc := Freed, cs_events := cs_events s @ [Zk_delete]\<rparr>) else (0, s))"

definition cs_initCompent :: "srv_env \<Rightarrow> connect_server \<Rightarrow> int \<times> connect_server" where
  "cs_initCompent e s =
     (let ret = e_cache_init e; s = s\<lparr>cs_events := cs_events s @ [Cache_init]\<rparr> in (if ret < 0 then -3 else ret, s))"

fun cs_listen_all :: "srv_env \<Rightarrow> cli_config list \<Rightarrow> connect_server \<Rightarrow> int \<times> connect_server" where
  "cs_listen_all e [] s = (0, s)"
| "cs_listen_all e (c # cs) s =
     (let (ret, serv, ev) = server_startListen e (cc_ListenPort c) (cs_serv s) (cs_events s);
          s = s\<lparr>cs_serv := serv, cs_events := ev\<rparr>
      in if ret < 0 then (ret, s) else cs_listen_all e cs (s\<lparr>cs_facs := cs_facs s @ [Live]\<rparr>))"

definition cs_startListen :: "srv_env \<Rightarrow> connect_server \<Rightarrow> int \<times> connect_server" where
  "cs_startListen e s =
     (let (r, serv) = setEventLoopCount (sc_ThreadCount (cs_conf s)) (cs_serv s);
          (ret, ev) = server_init e serv (cs_events s);
          s = s\<lparr>cs_serv := serv, cs_events := ev\<rparr>
      in if ret < 0 then (ret, s) else cs_listen_all e (sc_CliConfigs (cs_conf s)) s)"

fun cs_unlisten_all :: "cli_config list \<Rightarrow> connect_server \<Rightarrow> connect_server" where
  "cs_unlisten_all [] s = s"
| "cs_unlisten_all (c # cs) s =
     (let (ret, serv, ev) = server_stopListen (cc_ListenPort c) (cs_serv s) (cs_events s)
      in cs_unlisten_all cs (s\<lparr>cs_serv := serv, cs_events := ev\<rparr>))"

text \<open>The factories and dispatchers are deleted, but stay in their vectors.\<close>

definition cs_stopListen :: "connect_server \<Rightarrow> (int \<times> connect_server) outcome" where
  "cs_stopListen s =
     (let s = cs_unlisten_all (sc_CliConfigs (cs_conf s)) s
      in if Freed \<in> set (cs_facs s) then Fault
         else Done (0, s\<lparr>cs_facs := map (\<lambda>p. Freed) (cs_facs s)\<rparr>))"

definition cs_ports :: "cli_config list \<Rightarrow> port_config list" where
  "cs_ports cs = map (\<lambda>c. \<lparr>Port = cc_ListenPort c, MaxType = cc_MaxType c, MinType = cc_MinType c, Others = nullValue\<rparr>) cs"

definition cs_initStatusNode :: "srv_env \<Rightarrow> connect_server \<Rightarrow> int \<times> connect_server" where
  "cs_initStatusNode e s =
     (let st = (cs_status s)\<lparr>ID := sc_ID (cs_conf s)\<rparr>; st = snd (autoSetIPs (e_pub_ip e) (e_ips e) True st);
          st = st\<lparr>Ports := Ports st @ cs_ports (sc_CliConfigs (cs_conf s))\<rparr>;
          s = s\<lparr>cs_status := st, cs_zksvnd := Live, cs_events := cs_events s @ [Node_new, Publish st]\<rparr>
      in (if e_node_init e < 0 then -12 else 0, s))"

definition cs_init :: "srv_env \<Rightarrow> server_config \<Rightarrow> connect_server \<Rightarrow> int \<times> connect_server" where
  "cs_init e conf s =
     (let s = s\<lparr>cs_conf := conf\<rparr>; (ret, s) = cs_initZk e s
      in if ret < 0 then (ret, s)
         else let (ret, s) = cs_initCompent e s
         in if ret < 0 then (ret, s)
         else let (ret, s) = cs_startListen e s
         in if ret < 0 then (ret, s)
         else cs_initStatusNode e s)"

definition cs_init_file ::
  "srv_env \<Rightarrow> (bytes \<Rightarrow> json option) \<Rightarrow> bytes option \<Rightarrow> int \<Rightarrow> connect_server \<Rightarrow> (int \<times> connect_server) outcome" where
  "cs_init_file e parse file junk s =
     bind_outcome (sc_init parse file (ServerConfig_init junk)) (\<lambda>(ret, conf).
       if ret < 0 then Done (ret, s) else Done (cs_init e conf s))"

definition cs_free :: "connect_server \<Rightarrow> (int \<times> connect_server) outcome" where
  "cs_free s =
     bind_outcome (del (cs_zksvnd s) Node_delete (cs_events s)) (\<lambda>(p, ev).
     bind_outcome (del (cs_zkc s) Zk_delete ev) (\<lambda>(q, ev).
       Done (0, s\<lparr>cs_zksvnd := p, cs_zkc := q, cs_events := ev\<rparr>)))"

text \<open>\<open>start\<close> up to its loop, a turn of the loop, and \<open>stop\<close>, which a signal calls; \<open>cnt\<close>, \<open>req\<close>, \<open>resp\<close> are the counters.\<close>

definition cs_start :: "connect_server \<Rightarrow> connect_server" where
  "cs_start s =
     (let (ret, serv, ev) = server_run (cs_serv s) (cs_events s) in s\<lparr>cs_serv := serv, cs_events := ev, cs_run := True\<rparr>)"

definition cs_reportStatus :: "srv_env \<Rightarrow> int \<Rightarrow> int \<Rightarrow> int \<Rightarrow> int \<Rightarrow> connect_server \<Rightarrow> (int \<times> connect_server) outcome" where
  "cs_reportStatus e cnt req resp now s =
     (if cs_zksvnd s = Null then Done (0, s)
      else
        bind_outcome (jput ''ConnectionCount'' (intValue cnt) (Properties (cs_status s))) (\<lambda>p.
        bind_outcome (jput ''PushRequestCount'' (intValue req) p) (\<lambda>p.
        bind_outcome (jput ''PushResponseCount'' (intValue resp) p) (\<lambda>p.
        bind_outcome (jput ''ReportTimestamp'' (intValue (i32 now)) p) (\<lambda>p.
          Done (e_report e, s\<lparr>cs_status := (cs_status s)\<lparr>Properties := p\<rparr>, cs_events := cs_events s @ [Report p]\<rparr>))))))"

definition cs_turn :: "srv_env \<Rightarrow> int \<Rightarrow> int \<Rightarrow> int \<Rightarrow> int \<Rightarrow> connect_server \<Rightarrow> connect_server option outcome" where
  "cs_turn e cnt req resp now s =
     (if cs_run s then bind_outcome (cs_reportStatus e cnt req resp now s) (\<lambda>(ret, s). Done (Some s)) else Done None)"

definition cs_stop :: "connect_server \<Rightarrow> (int \<times> connect_server) outcome" where
  "cs_stop s =
     bind_outcome (cs_stopListen (s\<lparr>cs_run := False\<rparr>)) (\<lambda>(ret, s).
     bind_outcome (server_stop (cs_serv s) (cs_events s)) (\<lambda>(ret, serv, ev).
       Done (0, s\<lparr>cs_serv := serv, cs_events := ev\<rparr>)))"

subsection \<open>Push server\<close>

text \<open>\<open>ps_live\<close>: the server managers that exist; \<open>ps_made\<close>: how many have been made.\<close>

record push_server =
  ps_conf :: main_config
  ps_serv :: server
  ps_zkc :: ptr
  ps_svman :: "nat option"
  ps_live :: "nat list"
  ps_made :: nat
  ps_events :: "sv_event list"

definition PushServer_init :: "int \<Rightarrow> push_server" where
  "PushServer_init junk = \<lparr>ps_conf = MainConfig_init junk, ps_serv = Server_init, ps_zkc = Null, ps_svman = None,
     ps_live = [], ps_made = 0, ps_events = []\<rparr>"

definition ps_initZk :: "srv_env \<Rightarrow> push_server \<Rightarrow> int \<times> push_server" where
  "ps_initZk e s =
     (let s = s\<lparr>ps_zkc := Live, ps_events := ps_events s @ [Zk_new]\<rparr>
      in if e_zk_init e < 0 then (-5, s\<lparr>ps_zkc := Freed, ps_events := ps_events s @ [Zk_delete]\<rparr>) else (0, s))"

definition ps_intSessCache :: "srv_env \<Rightarrow> push_server \<Rightarrow> int \<times> push_server" where
  "ps_intSessCache e s =
     (if \<not> isArray (mc_SessCacheConfig (ps_conf s)) then (-1, s)
      else (e_cache_init e, s\<lparr>ps_events := ps_events s @ [Cache_init]\<rparr>))"

definition ps_initServerManager :: "srv_env \<Rightarrow> push_server \<Rightarrow> int \<times> push_server" where
  "ps_initServerManager e s =
     (let n = ps_made s
      in (e_man_init e n, s\<lparr>ps_svman := Some n, ps_live := ps_live s @ [n], ps_made := n + 1,
            ps_events := ps_events s @ [Manager_new n]\<rparr>))"

definition ps_initEventLoop :: "srv_env \<Rightarrow> push_server \<Rightarrow> int \<times> push_server" where
  "ps_initEventLoop e s =
     (let (r, serv) = setEventLoopCount (mc_ThreadCount (ps_conf s)) (ps_serv s);
          (r, s) = ps_initServerManager e (s\<lparr>ps_serv := serv\<rparr>);
          (ret, ev) = server_init e (ps_serv s) (ps_events s)
      in (ret, s\<lparr>ps_events := ev\<rparr>))"

definition ps_startListen :: "srv_env \<Rightarrow> int \<Rightarrow> push_server \<Rightarrow> int \<times> push_server" where
  "ps_startListen e port s =
     (if port \<le> 0 then (0, s)
      else let (ret, serv, ev) = server_startListen e port (ps_serv s) (ps_events s)
           in (ret, s\<lparr>ps_serv := serv, ps_events := ev\<rparr>))"

definition ps_stopListen :: "int \<Rightarrow> push_server \<Rightarrow> int \<times> push_server" where
  "ps_stopListen port s =
     (if port \<le> 0 then (0, s)
      else let (ret, serv, ev) = server_stopListen port (ps_serv s) (ps_events s)
           in (ret, s\<lparr>ps_serv := serv, ps_events := ev\<rparr>))"

definition ps_init :: "srv_env \<Rightarrow> main_config \<Rightarrow> push_server \<Rightarrow> int \<times> push_server" where
  "ps_init e conf s =
     (let s = s\<lparr>ps_conf := conf\<rparr>; (ret, s) = ps_initZk e s
      in if ret < 0 then (ret, s)
         else let (ret, s) = ps_intSessCache e s
         in if ret < 0 then (ret, s)
         else let (ret, s) = ps_initEventLoop e s
         in if ret < 0 then (ret, s)
         else let (ret, s) = ps_startListen e (mc_ListenPort (ps_conf s)) s
         in if ret < 0 then (ret, s)
         else ps_initServerManager e s)"

definition ps_init_file ::
  "srv_env \<Rightarrow> (bytes \<Rightarrow> json option) \<Rightarrow> bytes option \<Rightarrow> int \<Rightarrow> push_server \<Rightarrow> (int \<times> push_server) outcome" where
  "ps_init_file e parse file junk s =
     bind_outcome (mc_init parse file (MainConfig_init junk)) (\<lambda>(ret, conf).
       if ret < 0 then Done (ret, s) else Done (ps_init e conf s))"

definition ps_clean :: "push_server \<Rightarrow> (int \<times> push_server) outcome" where
  "ps_clean s =
     (let s = (case ps_svman s of
                 None \<Rightarrow> s
               | Some n \<Rightarrow> s\<lparr>ps_svman := None, ps_live := removeAll n (ps_live s), ps_events := ps_events s @ [Manager_delete n]\<rparr>)
      in bind_outcome (del (ps_zkc s) Zk_delete (ps_events s)) (\<lambda>(p, ev). Done (0, s\<lparr>ps_zkc := p, ps_events := ev\<rparr>)))"

definition ps_start :: "push_server \<Rightarrow> int \<times> push_server" where
  "ps_start s = (let (ret, serv, ev) = server_run (ps_serv s) (ps_events s) in (ret, s\<lparr>ps_serv := serv, ps_events := ev\<rparr>))"

definition ps_stop :: "push_server \<Rightarrow> (int \<times> push_server) outcome" where
  "ps_stop s =
     (let (ret, s) = ps_stopListen (mc_ListenPort (ps_conf s)) s
      in bind_outcome (server_stop (ps_serv s) (ps_events s)) (\<lambda>(ret, serv, ev).
           Done (0, s\<lparr>ps_serv := serv, ps_events := ev\<rparr>)))"

text \<open>\<open>main\<close> after its options: the destructor runs \<open>clean\<close> at both ends.\<close>

definition ps_main ::
  "srv_env \<Rightarrow> (bytes \<Rightarrow> json option) \<Rightarrow> bytes option \<Rightarrow> int \<Rightarrow> (int \<times> push_server) outcome" where
  "ps_main e parse file junk =
     bind_outcome (ps_init_file e parse file junk (PushServer_init junk)) (\<lambda>(ret, s).
     bind_outcome (if ret < 0 then Done (0, s) else ps_stop (snd (ps_start s))) (\<lambda>(r, s).
     bind_outcome (ps_clean s) (\<lambda>(r, s). Done (ret, s))))"

subsection \<open>Accepting\<close>

text \<open>Sockets that the factory takes are all handed on, in order; the first that it refuses is closed and ends the loop, and
  the ones behind it wait for the next event.\<close>

lemma accept_prefix:
  assumes "a_fac a = Some fac" "a_disp a"
    "list_all2 (\<lambda>r c. case r of A_sock fd addr port \<Rightarrow> fac fd addr port = Some c | _ \<Rightarrow> False) rs cs"
  shows "acceptConnect a (rs @ rest) accepted shut = acceptConnect a rest (accepted @ cs) shut"
  using assms(3)
proof (induction rs cs arbitrary: accepted rule: list_all2_induct)
  case (Cons r rs c cs)
  then show ?case using assms(1,2) by (cases r) simp_all
qed simp

lemma accept_refused:
  assumes "a_fac a = Some fac" "a_disp a"
    "list_all2 (\<lambda>r c. case r of A_sock fd addr port \<Rightarrow> fac fd addr port = Some c | _ \<Rightarrow> False) rs cs" "fac fd addr port = None"
  shows "acceptConnect a (rs @ A_sock fd addr port # rest) accepted shut = (accepted @ cs, shut @ [fd], rest)"
  using accept_prefix [OF assms(1-3)] assms(1,2,4) by simp

subsection \<open>Dispatching\<close>

lemma c_mod_neg_dvd: "i < 0 \<Longrightarrow> 0 < n \<Longrightarrow> c_mod i n = (if n dvd i then 0 else - ((- i) mod n))"
proof -
  assume "i < 0" "0 < n"
  then have "c_mod i n = - ((- i) mod n)" by (simp add: c_mod_def c_div_neg) (simp add: minus_div_mult_eq_mod [symmetric] algebra_simps)
  then show ?thesis by (simp add: dvd_eq_mod_eq_0 [symmetric])
qed

text \<open>C11: The dispatcher spreads connections over the loops in turn, and does so only until its counter wraps: with the counter at a
  negative value that is not a multiple of the number of loops the index is negative and outside of the array.\<close>

theorem dispatch_in_turn_until_wrap:
  assumes "0 < s_cnt s" "s_loops s = s_cnt s" "i = i32 (s_disp s + 1)"
  shows "gd_dispatchConnection s =
    (if 0 \<le> i \<or> s_cnt s dvd i then Done (i mod s_cnt s, s\<lparr>s_disp := i\<rparr>) else Fault)"
proof (cases "0 \<le> i")
  case True
  then have "0 \<le> i mod s_cnt s" "i mod s_cnt s < s_cnt s" using assms(1) by simp_all
  with True show ?thesis using assms by (simp add: gd_dispatchConnection_def getEventLoop_def Let_def)
next
  case False
  have "0 \<le> (- i) mod s_cnt s" using assms(1) by simp
  moreover have "(- i) mod s_cnt s = 0 \<longleftrightarrow> s_cnt s dvd i" by (simp add: dvd_eq_mod_eq_0 [symmetric])
  ultimately have pos: "s_cnt s dvd i \<or> 0 < (- i) mod s_cnt s" by linarith
  have "gd_dispatchConnection s = bind_outcome (getEventLoop (c_mod i (s_cnt s)) s) (\<lambda>l. Done (l, s\<lparr>s_disp := i\<rparr>))"
    by (simp add: gd_dispatchConnection_def assms(3) [symmetric] Let_def)
  then show ?thesis using pos False assms(1,2)
    by (auto simp: getEventLoop_def c_mod_neg_dvd)
qed

theorem dispatch_in_turn_until_wrap_witness:
  "gd_dispatchConnection (Server_init\<lparr>s_cnt := 3, s_loops := 3, s_disp := 4\<rparr>) =
     Done (2, Server_init\<lparr>s_cnt := 3, s_loops := 3, s_disp := 5\<rparr>) \<and>
   gd_dispatchConnection (Server_init\<lparr>s_cnt := 3, s_loops := 3, s_disp := 2147483647\<rparr>) = Fault"
proof -
  have "i32 5 = 5" "i32 2147483648 = -2147483648" by (simp_all add: i32_def)
  then show ?thesis
    using dispatch_in_turn_until_wrap [of "Server_init\<lparr>s_cnt := 3, s_loops := 3, s_disp := 4\<rparr>" 5]
      dispatch_in_turn_until_wrap [of "Server_init\<lparr>s_cnt := 3, s_loops := 3, s_disp := 2147483647\<rparr>" "-2147483648"]
    by (simp add: Server_init_def)
qed

subsection \<open>The push server's life\<close>

lemma ps_after_zk:
  assumes "0 \<le> e_zk_init e"
  shows "ps_zkc (snd (ps_init e conf s)) = Live"
  using assms by (simp add: ps_init_def ps_initZk_def ps_intSessCache_def ps_initEventLoop_def ps_initServerManager_def
      ps_startListen_def Let_def split: prod.splits)

lemma ps_after_failed_zk:
  assumes "e_zk_init e < 0"
  shows "fst (ps_init e conf s) = -5" "ps_zkc (snd (ps_init e conf s)) = Freed"
  using assms by (simp_all add: ps_init_def ps_initZk_def Let_def)

text \<open>C30: \<open>main\<close> of the push server with a configuration that can be read runs into a double deletion exactly if the client of
  ZooKeeper cannot be initialised: \<open>initZk\<close> deletes it and leaves the pointer to the destructor. All other failures
  end in order.\<close>

theorem push_main_double_delete:
  assumes "mc_init parse file (MainConfig_init junk) = Done (r, conf)" "0 \<le> r"
  shows "ps_main e parse file junk = Fault \<longleftrightarrow> e_zk_init e < 0"
proof -
  obtain ret s where i: "ps_init e conf (PushServer_init junk) = (ret, s)" by fastforce
  have made: "ps_init_file e parse file junk (PushServer_init junk) = Done (ret, s)"
    using assms i by (simp add: ps_init_file_def)
  show ?thesis
  proof (cases "e_zk_init e < 0")
    case True
    from ps_after_failed_zk [OF this, of conf "PushServer_init junk"] i have "ret < 0" "ps_zkc s = Freed" by simp_all
    then show ?thesis using True made by (simp add: ps_main_def ps_clean_def del_def Let_def split: option.splits)
  next
    case False
    then have "ps_zkc s = Live" using ps_after_zk [of e conf "PushServer_init junk"] i by simp
    then show ?thesis using False made
      by (simp add: ps_main_def ps_clean_def del_def Let_def ps_start_def server_run_def ps_stop_def ps_stopListen_def
          server_stopListen_def server_stop_def split: option.splits)
  qed
qed

theorem push_main_double_delete_witness:
  "ps_main \<lparr>e_loop_init = \<lambda>i. 0, e_listen = \<lambda>p. 5, e_zk_init = -1, e_cache_init = 0, e_node_init = 0, e_report = 0,
      e_man_init = \<lambda>n. 0, e_ips = [], e_pub_ip = Inl 0\<rparr> (\<lambda>t. Some (objectValue [])) (Some []) 0 = Fault"
proof -
  have "mc_init (\<lambda>t. Some (objectValue [])) (Some []) (MainConfig_init 0) = Done (0, (MainConfig_init 0)\<lparr>mc_ListenPort := -1\<rparr>)"
    by (simp add: mc_init_def mc_parseFromJson_def set_int_def set_str_def set_arr_def MainConfig_init_def)
  from push_main_double_delete [OF this] show ?thesis by simp
qed

text \<open>A push server that has started has two server managers, and deletes the second only.\<close>

lemma push_two_managers:
  assumes "ps_init e conf (PushServer_init junk) = (ret, s)" "0 \<le> ret"
  shows "ps_live s = [0, 1]" "ps_svman s = Some 1" "\<exists>s'. ps_clean s = Done (0, s') \<and> ps_live s' = [0]"
proof -
  have z: "\<not> e_zk_init e < 0" using assms ps_after_failed_zk(1) [of e conf "PushServer_init junk"] by auto
  then have "ps_zkc s = Live" using ps_after_zk [of e conf "PushServer_init junk"] assms(1) by simp
  moreover from assms z show "ps_live s = [0, 1]" "ps_svman s = Some 1"
    by (auto simp: ps_init_def ps_initZk_def ps_intSessCache_def ps_initEventLoop_def ps_initServerManager_def
        ps_startListen_def PushServer_init_def Let_def split: prod.splits if_splits)
  ultimately show "\<exists>s'. ps_clean s = Done (0, s') \<and> ps_live s' = [0]"
    by (simp add: ps_clean_def del_def Let_def)
qed

subsection \<open>The connect server's life\<close>

text \<open>\<open>stop\<close> ends a running server once: before the start and a second time it joins threads that do not run.\<close>

lemma cs_unlisten_all_keeps: "s_threads (cs_serv (cs_unlisten_all cs s)) = s_threads (cs_serv s)"
  by (induction cs arbitrary: s) (simp_all add: server_stopListen_def)

lemma cs_stop_not_running: "s_threads (cs_serv s) \<noteq> T_running \<Longrightarrow> cs_stop s = Fault"
  by (simp add: cs_stop_def cs_stopListen_def server_stop_def cs_unlisten_all_keeps Let_def)

lemma cs_stop_twice: "cs_stop s = Done (r, s') \<Longrightarrow> cs_stop s' = Fault"
  by (rule cs_stop_not_running)
    (auto simp: cs_stop_def cs_stopListen_def server_stop_def Let_def split: if_splits)

text \<open>A \<open>stop\<close> that comes while \<open>start\<close> is before its loop is forgotten: the flag is set after it.\<close>

lemma start_forgets_stop: "cs_run (cs_start s) = True"
  by (simp add: cs_start_def server_run_def)

lemma cs_listen_all_ports:
  "cs_listen_all e cs s = (ret, s') \<Longrightarrow> 0 \<le> ret \<Longrightarrow>
    fst ` set (s_acceptors (cs_serv s')) = fst ` set (s_acceptors (cs_serv s)) \<union> cc_ListenPort ` set cs \<and>
    cs_conf s' = cs_conf s \<and> cs_status s' = cs_status s"
proof (induction cs arbitrary: s)
  case (Cons c cs)
  then show ?case
    by (force simp: server_startListen_def Let_def keys_put split: prod.splits if_splits)
qed simp

text \<open>C29: A connect server whose \<open>init\<close> succeeds listens at the ports of its configuration, and the last thing it has done is to
  publish a status with exactly these ports, in order, with their types, and with its number.\<close>

theorem connect_server_published:
  assumes "cs_init e conf (ConnectServer_init junk) = (ret, s)" "0 \<le> ret"
  shows "fst ` set (s_acceptors (cs_serv s)) = cc_ListenPort ` set (sc_CliConfigs conf) \<and>
    Ports (cs_status s) = cs_ports (sc_CliConfigs conf) \<and> ID (cs_status s) = sc_ID conf \<and>
    last (cs_events s) = Publish (cs_status s)"
proof -
  obtain z1 r1 where z1: "cs_initZk e ((ConnectServer_init junk)\<lparr>cs_conf := conf\<rparr>) = (r1, z1)" by fastforce
  obtain z2 r2 where z2: "cs_initCompent e z1 = (r2, z2)" by fastforce
  obtain z3 r3 where z3: "cs_startListen e z2 = (r3, z3)" by fastforce
  have ok: "0 \<le> r3" and s: "cs_initStatusNode e z3 = (ret, s)"
    using assms z1 z2 z3 by (auto simp: cs_init_def Let_def split: if_splits)
  have z2': "cs_conf z2 = conf" "s_acceptors (cs_serv z2) = []" "Ports (cs_status z2) = []"
    using z1 z2 by (auto simp: cs_initZk_def cs_initCompent_def ConnectServer_init_def Server_init_def Let_def split: if_splits)
  obtain ev z where l: "cs_listen_all e (sc_CliConfigs conf) z = (r3, z3)"
    "cs_conf z = conf" "s_acceptors (cs_serv z) = []" "Ports (cs_status z) = []"
    using z3 z2' ok by (auto simp: cs_startListen_def setEventLoopCount_def Let_def split: prod.splits if_splits)
  note p = cs_listen_all_ports [OF l(1) ok]
  have "cs_serv s = cs_serv z3" using s by (auto simp: cs_initStatusNode_def Let_def)
  then have ports: "fst ` set (s_acceptors (cs_serv s)) = cc_ListenPort ` set (sc_CliConfigs conf)" using p l(3) by simp
  have "Ports (cs_status s) = cs_ports (sc_CliConfigs conf) \<and> ID (cs_status s) = sc_ID conf \<and>
      last (cs_events s) = Publish (cs_status s)"
    using s conjunct2 [OF p] l(2,4) by (auto simp: cs_initStatusNode_def autoSetIPs_def Let_def split: sum.splits)
  with ports show ?thesis by blast
qed

theorem connect_server_published_witness:
  "\<exists>s. cs_init \<lparr>e_loop_init = \<lambda>i. 0, e_listen = \<lambda>p. 5, e_zk_init = 0, e_cache_init = 0, e_node_init = 0, e_report = 0,
      e_man_init = \<lambda>n. 0, e_ips = [], e_pub_ip = Inl 0\<rparr>
      ((ServerConfig_init 0)\<lparr>sc_CliConfigs := [\<lparr>cc_Enc = 0, cc_AliveMs = 1, cc_MinType = 1, cc_MaxType = 5, cc_ListenPort = 80,
        cc_MaxReqQueSize = 1, cc_MaxPackCntPerMin = 1, cc_StartThreadIdx = 0, cc_ThreadCnt = 1\<rparr>]\<rparr>) (ConnectServer_init 0) = (0, s) \<and>
    fst ` set (s_acceptors (cs_serv s)) = {80}"
proof -
  let ?e = "\<lparr>e_loop_init = \<lambda>i. 0, e_listen = \<lambda>p. 5, e_zk_init = 0, e_cache_init = 0, e_node_init = 0, e_report = 0,
      e_man_init = \<lambda>n. 0, e_ips = [], e_pub_ip = Inl 0\<rparr>"
  let ?c = "(ServerConfig_init 0)\<lparr>sc_CliConfigs := [\<lparr>cc_Enc = 0, cc_AliveMs = 1, cc_MinType = 1, cc_MaxType = 5, cc_ListenPort = 80,
        cc_MaxReqQueSize = 1, cc_MaxPackCntPerMin = 1, cc_StartThreadIdx = 0, cc_ThreadCnt = 1\<rparr>]\<rparr>"
  obtain ret s where i: "cs_init ?e ?c (ConnectServer_init 0) = (ret, s)" by fastforce
  then have "ret = 0"
    by (auto simp: cs_init_def cs_initZk_def cs_initCompent_def cs_startListen_def setEventLoopCount_def server_init_def
        server_startListen_def cs_initStatusNode_def ConnectServer_init_def ServerConfig_init_def Let_def split: prod.splits)
  with i connect_server_published [OF i] show ?thesis by (simp add: ServerConfig_init_def)
qed

end
